(* ===== verification/Prelude.thy ===== *)
theory Prelude
  imports Main "HOL-Library.Multiset" "HOL-Library.Word"
begin

text \<open>
  What every component of the model shares.

  \<^item> Go errors (\<open>go_err\<close>): an operating-system error number, an error value of a library
    the repository only calls, or an error made by \<^verbatim>\<open>fmt.Errorf\<close>, kept as its format string and
    arguments; \<open>Wrapf\<close> is the form with \<^verbatim>\<open>%w\<close>, through which \<^verbatim>\<open>errors.Is\<close> looks.
  \<^item> Go calls (\<open>('w, 'a) go\<close>): functions from the world to an outcome (a value, an error or a
    run-time panic) and the world left behind; \<open>gbind\<close> is \<^verbatim>\<open>if err != nil { return ..., err }\<close>
    followed by the rest, \<open>on_err\<close> wraps the error, \<open>deferred\<close> runs a deferred call on every way
    out, and \<open>local_var\<close> opens the scope of a local variable that a deferred closure reads when
    the function returns.
  \<^item> The resource ledger: a log of acquisitions, uses and releases of operating-system objects;
    \<open>run_log\<close> replays it and fails on a release or use of something not held. \<open>moves\<close> is the
    Hoare-style judgement over it that the resource proofs of the three backends use: the call
    consumes \<open>P\<close>, leaves \<open>Q\<close> and touches nothing else.
\<close>

section \<open>Fact collections\<close>

named_theorems go_defs \<open>the combinators for Go calls, unfolded\<close>
named_theorems ledger \<open>rules of the resource judgement\<close>

section \<open>Bytes\<close>

type_synonym byte = "8 word"
type_synonym bytes = "byte list"

definition byte_of_char :: "char \<Rightarrow> byte" where
  "byte_of_char c = word_of_nat (of_char c)"

definition char_of_byte :: "byte \<Rightarrow> char" where
  "char_of_byte b = char_of (unat b)"

lemma of_char_less: "of_char c < (256 :: nat)"
proof -
  have "of_char c \<in> range (of_char :: char \<Rightarrow> nat)" by (rule rangeI)
  then show ?thesis by (simp add: range_nat_of_char)
qed

lemma char_of_byte_of_char [simp]: "char_of_byte (byte_of_char c) = c"
  using of_char_less [of c] by (simp add: char_of_byte_def byte_of_char_def unat_of_nat)

lemma byte_of_char_of_byte [simp]: "byte_of_char (char_of_byte b) = b"
proof -
  have "unat b < 256" using unsigned_less [of b] by simp
  then show ?thesis by (simp add: char_of_byte_def byte_of_char_def)
qed

lemma inj_byte_of_char: "inj byte_of_char"
  by (rule inj_on_inverseI [of _ char_of_byte]) simp

text \<open>A Go string is a byte sequence; \<^verbatim>\<open>[]byte(s)\<close> and \<^verbatim>\<open>string(b)\<close>.\<close>

definition bytes_of_string :: "string \<Rightarrow> bytes" where
  "bytes_of_string = map byte_of_char"

definition string_of_bytes :: "bytes \<Rightarrow> string" where
  "string_of_bytes = map char_of_byte"

lemma string_of_bytes_of_string [simp]: "string_of_bytes (bytes_of_string s) = s"
  by (simp add: string_of_bytes_def bytes_of_string_def comp_def)

lemma length_bytes_of_string [simp]: "length (bytes_of_string s) = length s"
  by (simp add: bytes_of_string_def)

text \<open>Decimal digits.\<close>

fun dec_digits :: "nat \<Rightarrow> string" where
  "dec_digits n =
     (if n < 10 then [char_of (48 + n)] else dec_digits (n div 10) @ [char_of (48 + n mod 10)])"

declare dec_digits.simps [simp del]

section \<open>Errors\<close>

text \<open>The error numbers the code tells apart, and all others by number.\<close>

datatype errno = ENOENT | EEXIST | ENOTEMPTY | ENOTDIR | EISDIR | EOther nat

datatype fmt_arg = FStr string | FInt int | FErr string

text \<open>
  \<open>Sys\<close> is what an \<^verbatim>\<open>os\<close> call returns (\<^verbatim>\<open>*PathError\<close> or \<^verbatim>\<open>*LinkError\<close> around a
  \<^verbatim>\<open>syscall.Errno\<close>), \<open>Ext\<close> an error of a library outside the repository, \<open>New\<close> one
  of \<^verbatim>\<open>errors.New\<close>. \<open>Errorf\<close> and \<open>Wrapf\<close> are \<^verbatim>\<open>fmt.Errorf\<close> without and with \<^verbatim>\<open>%w\<close>.
\<close>

datatype go_err =
    Sys errno
  | Ext string
  | New string
  | Errorf string "fmt_arg list"
  | Wrapf string "fmt_arg list" go_err

text \<open>\<^verbatim>\<open>syscall.Errno.Is\<close>: a non-empty directory also counts as \<^verbatim>\<open>ErrExist\<close>.\<close>

fun errno_is_exist :: "errno \<Rightarrow> bool" where
  "errno_is_exist EEXIST = True"
| "errno_is_exist ENOTEMPTY = True"
| "errno_is_exist _ = False"

text \<open>\<^verbatim>\<open>errors.Is(err, os.ErrExist)\<close> walks the \<^verbatim>\<open>%w\<close> chain.\<close>

primrec errors_is_exist :: "go_err \<Rightarrow> bool" where
  "errors_is_exist (Sys e) = errno_is_exist e"
| "errors_is_exist (Ext s) = False"
| "errors_is_exist (New s) = False"
| "errors_is_exist (Errorf f as) = False"
| "errors_is_exist (Wrapf f as e) = errors_is_exist e"

text \<open>
  \<^verbatim>\<open>os.IsNotExist\<close> predates wrapping: it looks into the \<^verbatim>\<open>os\<close> error itself and not
  through \<^verbatim>\<open>%w\<close>.
\<close>

fun os_is_not_exist :: "go_err \<Rightarrow> bool" where
  "os_is_not_exist (Sys e) = (e = ENOENT)"
| "os_is_not_exist _ = False"

section \<open>Go calls\<close>

datatype 'a outcome = Ret 'a | Fail go_err | Panic string

type_synonym ('w, 'a) go = "'w \<Rightarrow> 'a outcome \<times> 'w"

fun returned :: "'a outcome \<Rightarrow> bool" where
  "returned (Ret _) = True"
| "returned _ = False"

lemma returned_iff: "returned r \<longleftrightarrow> (\<exists>x. r = Ret x)"
  by (cases r) auto

definition ret :: "'a \<Rightarrow> ('w, 'a) go" where
  "ret x w = (Ret x, w)"

definition fail :: "go_err \<Rightarrow> ('w, 'a) go" where
  "fail e w = (Fail e, w)"

definition panic :: "string \<Rightarrow> ('w, 'a) go" where
  "panic s w = (Panic s, w)"

definition gbind :: "('w, 'a) go \<Rightarrow> ('a \<Rightarrow> ('w, 'b) go) \<Rightarrow> ('w, 'b) go" where
  "gbind f g w =
     (case f w of
        (Ret x, w') \<Rightarrow> g x w'
      | (Fail e, w') \<Rightarrow> (Fail e, w')
      | (Panic s, w') \<Rightarrow> (Panic s, w'))"

text \<open>\<^verbatim>\<open>if err != nil { return ..., fmt.Errorf("...: %w", err) }\<close>.\<close>

definition on_err :: "(go_err \<Rightarrow> go_err) \<Rightarrow> ('w, 'a) go \<Rightarrow> ('w, 'a) go" where
  "on_err h f w =
     (case f w of
        (Fail e, w') \<Rightarrow> (Fail (h e), w')
      | rw \<Rightarrow> rw)"

text \<open>\<^verbatim>\<open>defer d()\<close>: runs on return, on an error return and on a panic.\<close>

definition deferred :: "('a outcome \<Rightarrow> 'w \<Rightarrow> 'w) \<Rightarrow> ('w, 'a) go \<Rightarrow> ('w, 'a) go" where
  "deferred d f w = (case f w of (r, w') \<Rightarrow> (r, d r w'))"

text \<open>
  The scope of a local variable that a deferred closure captures by reference: the body
  runs on the pair of the variable and the world, the closure reads the value it has on exit.
\<close>

definition local_var ::
    "'v \<Rightarrow> ('v \<Rightarrow> 'a outcome \<Rightarrow> 'w \<Rightarrow> 'w) \<Rightarrow> ('v \<times> 'w, 'a) go \<Rightarrow> ('w, 'a) go" where
  "local_var v0 d body w = (case body (v0, w) of (r, v, w') \<Rightarrow> (r, d v r w'))"

definition set_var :: "'v \<Rightarrow> ('v \<times> 'w, unit) go" where
  "set_var x vw = (Ret (), x, snd vw)"

definition lift_go :: "('w, 'a) go \<Rightarrow> ('v \<times> 'w, 'a) go" where
  "lift_go f vw = (case f (snd vw) of (r, w') \<Rightarrow> (r, fst vw, w'))"

text \<open>The call whose result is ignored.\<close>

definition ignore :: "('w, 'a) go \<Rightarrow> ('w, unit) go" where
  "ignore f w = (Ret (), snd (f w))"

text \<open>A pure function that may fail, used as a call.\<close>

definition of_sum :: "go_err + 'a \<Rightarrow> ('w, 'a) go" where
  "of_sum x = (case x of Inl e \<Rightarrow> fail e | Inr v \<Rightarrow> ret v)"

lemmas go_unfold [go_defs] =
  ret_def fail_def panic_def gbind_def on_err_def deferred_def local_var_def set_var_def
  lift_go_def of_sum_def

lemma gbind_Ret [simp]: "gbind (ret x) g w = g x w"
  by (simp add: go_defs)

lemma gbind_Fail [simp]: "gbind (fail e) g w = (Fail e, w)"
  by (simp add: go_defs)

lemma ret_gbind: "gbind (ret x) k = k x"
  by (rule ext) simp

lemma gbind_ret: "gbind f ret = f"
  by (rule ext) (auto simp: gbind_def ret_def split: prod.split outcome.split)

lemma panic_gbind: "gbind (panic p) k = panic p"
  by (rule ext) (simp add: gbind_def panic_def)

lemma gbind_assoc: "gbind (gbind f g) h = gbind f (\<lambda>x. gbind (g x) h)"
  by (rule ext) (simp add: gbind_def split: prod.split outcome.split)

lemma gbind_eq_Ret:
  "gbind f g w = (Ret y, w'') \<longleftrightarrow> (\<exists>x w'. f w = (Ret x, w') \<and> g x w' = (Ret y, w''))"
  by (auto simp: gbind_def split: prod.splits outcome.splits)

lemma on_err_eq_Ret: "on_err h f w = (Ret y, w') \<longleftrightarrow> f w = (Ret y, w')"
  by (auto simp: on_err_def split: prod.splits outcome.splits)

lemma of_sum_eq_Ret: "of_sum x w = (Ret y, w') \<longleftrightarrow> x = Inr y \<and> w' = w"
  by (auto simp: of_sum_def ret_def fail_def split: sum.splits)

lemma lift_go_eq_Ret: "lift_go f (v, w) = (Ret y, vw') \<longleftrightarrow> (\<exists>w'. f w = (Ret y, w') \<and> vw' = (v, w'))"
  by (auto simp: lift_go_def split: prod.splits)

lemma ret_eq_Ret: "ret x w = (Ret y, w') \<longleftrightarrow> x = y \<and> w' = w"
  by (auto simp: ret_def)

lemma fail_eq_Ret: "fail e w = (Ret y, w') \<longleftrightarrow> False"
  by (simp add: fail_def)

lemma set_var_eq_Ret: "set_var x (v, w) = (Ret y, vw') \<longleftrightarrow> vw' = (x, w)"
  by (auto simp: set_var_def)

lemmas go_Ret = gbind_eq_Ret on_err_eq_Ret of_sum_eq_Ret lift_go_eq_Ret ret_eq_Ret fail_eq_Ret
  set_var_eq_Ret

section \<open>The resource ledger\<close>

datatype 'r event = Acq 'r | Use 'r | Rel 'r

text \<open>
  \<open>run_log M es\<close> replays \<open>es\<close> from the held resources \<open>M\<close>; \<open>None\<close> is a use or a release of
  something that is not held (use after release, double release).
\<close>

fun run_log :: "'r multiset \<Rightarrow> 'r event list \<Rightarrow> 'r multiset option" where
  "run_log M [] = Some M"
| "run_log M (Acq r # es) = run_log (add_mset r M) es"
| "run_log M (Use r # es) = (if r \<in># M then run_log M es else None)"
| "run_log M (Rel r # es) = (if r \<in># M then run_log (M - {#r#}) es else None)"

text \<open>\<open>replays lg w w' M N\<close>: between \<open>w\<close> and \<open>w'\<close> the resources went from \<open>M\<close> to \<open>N\<close>.\<close>

abbreviation replays :: "('w \<Rightarrow> 'r event list) \<Rightarrow> 'w \<Rightarrow> 'w \<Rightarrow> 'r multiset \<Rightarrow> 'r multiset \<Rightarrow> bool" where
  "replays lg w w' M N \<equiv> \<exists>es. lg w' = lg w @ es \<and> run_log M es = Some N"

lemma run_log_append:
  "run_log M (xs @ ys) = (case run_log M xs of None \<Rightarrow> None | Some N \<Rightarrow> run_log N ys)"
  by (induction M xs rule: run_log.induct) auto

text \<open>
  \<open>owns lg P f Q\<close>: run from a state and a bag of resources that satisfy \<open>P\<close>, the call replays,
  whatever else (\<open>F\<close>) is held, and ends with a bag that satisfies \<open>Q\<close>; it touches nothing of \<open>F\<close>.
\<close>

definition owns ::
    "('w \<Rightarrow> 'r event list) \<Rightarrow> ('w \<Rightarrow> 'r multiset \<Rightarrow> bool) \<Rightarrow> ('w, 'a) go
     \<Rightarrow> ('a outcome \<Rightarrow> 'w \<Rightarrow> 'r multiset \<Rightarrow> bool) \<Rightarrow> bool" where
  "owns lg P f Q \<longleftrightarrow>
     (\<forall>w M. P w M \<longrightarrow> (\<exists>es M'. lg (snd (f w)) = lg w @ es \<and> Q (fst (f w)) (snd (f w)) M' \<and>
          (\<forall>F. run_log (M + F) es = Some (M' + F))))"

lemma ownsI:
  assumes "\<And>w M r w'. P w M \<Longrightarrow> f w = (r, w') \<Longrightarrow> \<exists>es M'. lg w' = lg w @ es \<and> Q r w' M' \<and>
    (\<forall>F. run_log (M + F) es = Some (M' + F))"
  shows "owns lg P f Q"
  unfolding owns_def using assms by (metis prod.collapse)

lemma ownsD:
  assumes "owns lg P f Q" and "f w = (r, w')" and "P w M"
  obtains es M' where "lg w' = lg w @ es" and "Q r w' M'" and "\<And>F. run_log (M + F) es = Some (M' + F)"
  using assms by (fastforce simp: owns_def dest!: spec [of _ w])

lemma owns_conseq:
  "owns lg P f Q \<Longrightarrow> (\<And>w M. P' w M \<Longrightarrow> P w M) \<Longrightarrow> (\<And>r w M. Q r w M \<Longrightarrow> Q' r w M) \<Longrightarrow> owns lg P' f Q'"
  unfolding owns_def by blast

text \<open>The frame rule: what the call does not own stays as it is.\<close>

lemma owns_frame:
  assumes "owns lg P f Q"
  shows "owns lg (\<lambda>w M. \<exists>N. P w N \<and> M = N + R) f (\<lambda>r w M. \<exists>N. Q r w N \<and> M = N + R)"
proof (rule ownsI)
  fix w M r w'
  assume "\<exists>N. P w N \<and> M = N + R" and f: "f w = (r, w')"
  then obtain N where N: "P w N" "M = N + R" by blast
  from ownsD [OF assms f N(1)] obtain es M' where es:
    "lg w' = lg w @ es" "Q r w' M'" "\<And>F. run_log (N + F) es = Some (M' + F)" by metis
  from es(3) [of "R + _"] es(1,2) N(2) show "\<exists>es M'. lg w' = lg w @ es \<and>
      (\<exists>N. Q r w' N \<and> M' = N + R) \<and> (\<forall>F. run_log (M + F) es = Some (M' + F))"
    by (intro exI [of _ es] exI [of _ "M' + R"]) (auto simp: add.assoc)
qed

text \<open>Two runs after another.\<close>

lemma run_log_seq:
  assumes "\<And>F. run_log (M + F) es = Some (N + F)" and "\<And>F. run_log (N + F) es2 = Some (K + F)"
  shows "run_log (M + F) (es @ es2) = Some (K + F)"
  by (simp add: run_log_append assms)

lemma owns_ret: "(\<And>w M. P w M \<Longrightarrow> Q (Ret x) w M) \<Longrightarrow> owns lg P (ret x) Q"
  and owns_fail: "(\<And>w M. P w M \<Longrightarrow> Q (Fail e) w M) \<Longrightarrow> owns lg P (fail e) Q"
  and owns_panic: "(\<And>w M. P w M \<Longrightarrow> Q (Panic s) w M) \<Longrightarrow> owns lg P (panic s) Q"
  unfolding owns_def ret_def fail_def panic_def
  by (metis append_Nil2 fst_conv run_log.simps(1) snd_conv)+

lemma owns_gbind:
  assumes f: "owns lg P f R"
    and g: "\<And>x. owns lg (R (Ret x)) (g x) Q"
    and e: "\<And>e w M. R (Fail e) w M \<Longrightarrow> Q (Fail e) w M"
    and p: "\<And>s w M. R (Panic s) w M \<Longrightarrow> Q (Panic s) w M"
  shows "owns lg P (gbind f g) Q"
proof (rule ownsI)
  fix w M r w'
  assume M: "P w M" and b: "gbind f g w = (r, w')"
  obtain r1 w1 where fw: "f w = (r1, w1)" by (cases "f w")
  from ownsD [OF f fw M] obtain es N where
    es: "lg w1 = lg w @ es" "R r1 w1 N" "\<And>F. run_log (M + F) es = Some (N + F)" by metis
  show "\<exists>es M'. lg w' = lg w @ es \<and> Q r w' M' \<and> (\<forall>F. run_log (M + F) es = Some (M' + F))"
  proof (cases r1)
    case (Ret x)
    with b fw have gw: "g x w1 = (r, w')" by (simp add: gbind_def)
    from ownsD [OF g gw es(2) [unfolded Ret]] obtain es2 M' where
      "lg w' = lg w1 @ es2" "Q r w' M'" "\<And>F. run_log (N + F) es2 = Some (M' + F)" by metis
    with es run_log_seq [OF es(3)] show ?thesis by (metis append.assoc)
  qed (use b fw es e p in \<open>auto simp: gbind_def\<close>)
qed

lemma owns_on_err:
  assumes f: "owns lg P f R"
    and "\<And>x w M. R (Ret x) w M \<Longrightarrow> Q (Ret x) w M" and "\<And>e w M. R (Fail e) w M \<Longrightarrow> Q (Fail (h e)) w M"
    and "\<And>s w M. R (Panic s) w M \<Longrightarrow> Q (Panic s) w M"
  shows "owns lg P (on_err h f) Q"
proof (rule ownsI)
  fix w M r w'
  assume M: "P w M" and b: "on_err h f w = (r, w')"
  obtain r1 w1 where fw: "f w = (r1, w1)" by (cases "f w")
  from ownsD [OF f fw M] obtain es N where
    "lg w1 = lg w @ es" "R r1 w1 N" "\<And>F. run_log (M + F) es = Some (N + F)" by metis
  with assms(2-) b fw show "\<exists>es M'. lg w' = lg w @ es \<and> Q r w' M' \<and>
      (\<forall>F. run_log (M + F) es = Some (M' + F))"
    by (cases r1) (auto simp: on_err_def)
qed

lemma owns_of_sum:
  assumes "\<And>e w M. P w M \<Longrightarrow> Q (Fail e) w M" and "\<And>y w M. P w M \<Longrightarrow> Q (Ret y) w M"
  shows "owns lg P (of_sum x) Q"
  using assms by (cases x) (auto simp: of_sum_def intro!: owns_ret owns_fail)

text \<open>A deferred action is itself judged as a state transformer.\<close>

definition owns_st :: "('w \<Rightarrow> 'r event list) \<Rightarrow> ('w \<Rightarrow> 'r multiset \<Rightarrow> bool) \<Rightarrow> ('w \<Rightarrow> 'w)
    \<Rightarrow> ('w \<Rightarrow> 'r multiset \<Rightarrow> bool) \<Rightarrow> bool" where
  "owns_st lg P d Q \<longleftrightarrow> owns lg P (\<lambda>w. (Ret (), d w)) (\<lambda>_. Q)"

lemma owns_st_snd: "owns lg P f (\<lambda>_. Q) \<Longrightarrow> owns_st lg P (\<lambda>w. snd (f w)) Q"
  by (simp add: owns_st_def owns_def)

lemma owns_st_conseq:
  "owns_st lg P d Q \<Longrightarrow> (\<And>w M. P' w M \<Longrightarrow> P w M) \<Longrightarrow> (\<And>w M. Q w M \<Longrightarrow> Q' w M) \<Longrightarrow> owns_st lg P' d Q'"
  unfolding owns_st_def by (rule owns_conseq)

lemma owns_st_id: "(\<And>w M. P w M \<Longrightarrow> Q w M) \<Longrightarrow> owns_st lg P (\<lambda>w. w) Q"
  unfolding owns_st_def owns_def by (auto intro!: exI [of _ "[]"])

lemma owns_st_never: "(\<And>w M. \<not> P w M) \<Longrightarrow> owns_st lg P d Q"
  by (simp add: owns_st_def owns_def)

lemma owns_deferred:
  assumes f: "owns lg P f R" and d: "\<And>r. owns_st lg (R r) (d r) (Q r)"
  shows "owns lg P (deferred d f) Q"
proof (rule ownsI)
  fix w M r w'
  assume M: "P w M" and b: "deferred d f w = (r, w')"
  obtain r1 w1 where fw: "f w = (r1, w1)" by (cases "f w")
  with b have r: "r1 = r" "w' = d r w1" by (auto simp: deferred_def)
  from ownsD [OF f fw M] obtain es N where
    es: "lg w1 = lg w @ es" "R r w1 N" "\<And>F. run_log (M + F) es = Some (N + F)" unfolding r(1) by metis
  from ownsD [OF d [of r, unfolded owns_st_def] _ es(2)] obtain es2 M' where
    "lg w' = lg w1 @ es2" "Q r w' M'" "\<And>F. run_log (N + F) es2 = Some (M' + F)"
    unfolding r(2) by metis
  with es run_log_seq [OF es(3)] show "\<exists>es M'. lg w' = lg w @ es \<and> Q r w' M' \<and>
      (\<forall>F. run_log (M + F) es = Some (M' + F))" by (metis append.assoc)
qed

lemma owns_lift:
  assumes "\<And>v. owns lg (\<lambda>w. P (v, w)) f (\<lambda>r w. Q r (v, w))"
  shows "owns (lg \<circ> snd) P (lift_go f) Q"
proof (rule ownsI)
  fix vw M r vw'
  assume M: "P vw M" and b: "lift_go f vw = (r, vw')"
  obtain v w where vw: "vw = (v, w)" by (cases vw)
  with b obtain w' where "f w = (r, w')" "vw' = (v, w')" by (auto simp: lift_go_def split: prod.splits)
  with ownsD [OF assms [of v] this(1) M [unfolded vw]] vw show "\<exists>es M'. (lg \<circ> snd) vw' = (lg \<circ> snd) vw @ es \<and>
      Q r vw' M' \<and> (\<forall>F. run_log (M + F) es = Some (M' + F))" by (metis comp_apply snd_conv)
qed

lemma owns_set_var:
  assumes "\<And>v w M. P (v, w) M \<Longrightarrow> Q (Ret ()) (x, w) M"
  shows "owns (lg \<circ> snd) P (set_var x) Q"
  by (rule ownsI) (use assms in \<open>auto simp: set_var_def intro!: exI [of _ "[]"]\<close>)

lemma owns_local_var:
  assumes b: "owns (lg \<circ> snd) P' body R" and P: "\<And>w M. P w M \<Longrightarrow> P' (v0, w) M"
    and d: "\<And>v r. owns_st lg (\<lambda>w. R r (v, w)) (d v r) (Q r)"
  shows "owns lg P (local_var v0 d body) Q"
proof (rule ownsI)
  fix w M r w'
  assume M: "P w M" and l: "local_var v0 d body w = (r, w')"
  obtain r1 v w1 where fw: "body (v0, w) = (r1, v, w1)" by (cases "body (v0, w)") auto
  with l have r: "r1 = r" "w' = d v r w1" by (auto simp: local_var_def)
  from ownsD [OF b fw P [OF M]] obtain es N where
    es: "lg w1 = lg w @ es" "R r (v, w1) N" "\<And>F. run_log (M + F) es = Some (N + F)"
    unfolding r(1) comp_apply snd_conv by metis
  from ownsD [OF d [of r v, unfolded owns_st_def] _ es(2)] obtain es2 M' where
    "lg w' = lg w1 @ es2" "Q r w' M'" "\<And>F. run_log (N + F) es2 = Some (M' + F)"
    unfolding r(2) by metis
  with es run_log_seq [OF es(3)] show "\<exists>es M'. lg w' = lg w @ es \<and> Q r w' M' \<and>
      (\<forall>F. run_log (M + F) es = Some (M' + F))" by (metis append.assoc)
qed

text \<open>The judgement when the resources are a function of the state: \<open>P w\<close> before, \<open>Q r w\<close> after.\<close>

definition moves ::
    "('w \<Rightarrow> 'r event list) \<Rightarrow> ('w \<Rightarrow> 'r multiset) \<Rightarrow> ('w, 'a) go
     \<Rightarrow> ('a outcome \<Rightarrow> 'w \<Rightarrow> 'r multiset) \<Rightarrow> bool" where
  "moves lg P f Q \<longleftrightarrow> owns lg (\<lambda>w M. M = P w) f (\<lambda>r w M. M = Q r w)"

lemma movesI:
  assumes "\<And>w. \<exists>es. lg (snd (f w)) = lg w @ es \<and>
    (\<forall>F. run_log (P w + F) es = Some (Q (fst (f w)) (snd (f w)) + F))"
  shows "moves lg P f Q"
  using assms by (simp add: moves_def owns_def)

lemma movesD:
  assumes "moves lg P f Q" and "f w = (r, w')"
  obtains es where "lg w' = lg w @ es" and "\<And>F. run_log (P w + F) es = Some (Q r w' + F)"
  using ownsD [OF assms(1) [unfolded moves_def] assms(2) refl] by metis

lemma moves_frame:
  assumes "moves lg P f Q"
  shows "moves lg (\<lambda>w. P w + R) f (\<lambda>r w. Q r w + R)"
  using owns_frame [OF assms [unfolded moves_def], of R] unfolding moves_def
  by (rule owns_conseq) auto

lemma moves_ret [ledger]: "(\<And>w. P w = Q (Ret x) w) \<Longrightarrow> moves lg P (ret x) Q"
  and moves_fail [ledger]: "(\<And>w. P w = Q (Fail e) w) \<Longrightarrow> moves lg P (fail e) Q"
  and moves_panic [ledger]: "(\<And>w. P w = Q (Panic s) w) \<Longrightarrow> moves lg P (panic s) Q"
  unfolding moves_def by (auto intro: owns_ret owns_fail owns_panic)

lemma moves_gbind:
  assumes "moves lg P f R" and "\<And>x. moves lg (R (Ret x)) (g x) Q"
    and "\<And>e w. R (Fail e) w = Q (Fail e) w" and "\<And>s w. R (Panic s) w = Q (Panic s) w"
  shows "moves lg P (gbind f g) Q"
  unfolding moves_def
  by (rule owns_gbind [OF assms(1,2) [unfolded moves_def]]) (simp_all add: assms(3,4))

lemma moves_on_err:
  assumes f: "moves lg P f R"
    and "\<And>x w. R (Ret x) w = Q (Ret x) w" and "\<And>e w. R (Fail e) w = Q (Fail (h e)) w"
    and "\<And>s w. R (Panic s) w = Q (Panic s) w"
  shows "moves lg P (on_err h f) Q"
  unfolding moves_def by (rule owns_on_err [OF f [unfolded moves_def]]) (simp_all add: assms(2-))

lemma moves_of_sum [ledger]:
  assumes "\<And>e w. P w = Q (Fail e) w" and "\<And>y w. P w = Q (Ret y) w"
  shows "moves lg P (of_sum x) Q"
  unfolding moves_def by (rule owns_of_sum) (simp_all add: assms)

lemma moves_weaken:
  assumes "moves lg P f Q" and "\<And>w. P' w = P w" and "\<And>r w. Q r w = Q' r w"
  shows "moves lg P' f Q'"
  using assms by (simp add: moves_def)

definition moves_st :: "('w \<Rightarrow> 'r event list) \<Rightarrow> ('w \<Rightarrow> 'r multiset) \<Rightarrow> ('w \<Rightarrow> 'w) \<Rightarrow> ('w \<Rightarrow> 'r multiset) \<Rightarrow> bool" where
  "moves_st lg P d Q \<longleftrightarrow> owns_st lg (\<lambda>w M. M = P w) d (\<lambda>w M. M = Q w)"

lemma moves_st_iff:
  "moves_st lg P d Q \<longleftrightarrow>
     (\<forall>w. \<exists>es. lg (d w) = lg w @ es \<and> (\<forall>F. run_log (P w + F) es = Some (Q (d w) + F)))"
  by (simp add: moves_st_def owns_st_def owns_def)

lemma moves_st_snd: "moves lg P f (\<lambda>_. Q) \<Longrightarrow> moves_st lg P (\<lambda>w. snd (f w)) Q"
  unfolding moves_def moves_st_def by (rule owns_st_snd)

lemma moves_st_id [ledger]: "(\<And>w. P w = Q w) \<Longrightarrow> moves_st lg P (\<lambda>w. w) Q"
  unfolding moves_st_def by (rule owns_st_id) simp

lemma moves_deferred:
  assumes "moves lg P f R" and "\<And>r. moves_st lg (R r) (d r) (Q r)"
  shows "moves lg P (deferred d f) Q"
  using owns_deferred [OF assms(1) [unfolded moves_def], of d "\<lambda>r w M. M = Q r w"] assms(2)
  by (simp add: moves_def moves_st_def)

lemma owns_pure: "(B \<Longrightarrow> owns lg P f Q) \<Longrightarrow> owns lg (\<lambda>w M. B \<and> P w M) f Q"
  by (simp add: owns_def)

lemma owns_st_pair:
  assumes "\<And>v. owns_st lg (\<lambda>w. P (v, w)) d (\<lambda>w. Q (v, w))"
  shows "owns_st (lg \<circ> snd) P (\<lambda>vw. (fst vw, d (snd vw))) Q"
  unfolding owns_st_def owns_def
proof (intro allI impI, goal_cases)
  case (1 vw M)
  obtain v w where vw: "vw = (v, w)" by (cases vw)
  from ownsD [OF assms [of v, unfolded owns_st_def] refl] 1 vw
  show ?case by (metis comp_apply fst_conv snd_conv)
qed

text \<open>
  A call under a local variable: what it needs is \<open>A\<close>, what it leaves is \<open>B\<close>; the facts \<open>S\<close> about the
  variable and the resources \<open>R\<close> it stands for stay.
\<close>

lemma owns_lift_moves:
  assumes f: "moves lg (\<lambda>_. A) f (\<lambda>r _. B r)" and "\<And>e. B (Fail (h e)) = B (Fail e)"
    and P: "\<And>v w M. P (v, w) M \<Longrightarrow> S v \<and> M = A + R v"
    and Q: "\<And>r v w. S v \<Longrightarrow> Q r (v, w) (B r + R v)"
  shows "owns (lg \<circ> snd) P (lift_go (on_err h f)) Q"
proof (rule owns_lift)
  fix v
  have "moves lg (\<lambda>_. A) (on_err h f) (\<lambda>r _. B r)"
    by (rule moves_on_err [OF f]) (simp_all add: assms(2))
  from owns_frame [OF this [unfolded moves_def], of "R v"]
  have "owns lg (\<lambda>w M. M = A + R v) (on_err h f) (\<lambda>r w M. M = B r + R v)"
    by (rule owns_conseq) auto
  then have "owns lg (\<lambda>w M. S v \<and> M = A + R v) (on_err h f) (\<lambda>r w. Q r (v, w))"
    by (intro owns_pure) (erule owns_conseq, auto intro: Q)
  then show "owns lg (\<lambda>w. P (v, w)) (on_err h f) (\<lambda>r w. Q r (v, w))"
    by (rule owns_conseq) (auto dest: P)
qed

text \<open>What holds of the results anyway.\<close>

lemma owns_result:
  assumes "owns lg P f Q" and "\<And>w r w'. f w = (r, w') \<Longrightarrow> S r"
  shows "owns lg P f (\<lambda>r w M. Q r w M \<and> S r)"
proof (rule ownsI)
  fix w M r w'
  assume "P w M" and f: "f w = (r, w')"
  from ownsD [OF assms(1) f this(1)] assms(2) [OF f] show "\<exists>es M'. lg w' = lg w @ es \<and>
      (Q r w' M' \<and> S r) \<and> (\<forall>F. run_log (M + F) es = Some (M' + F))" by metis
qed

lemma owns_ignore: "owns lg P f (\<lambda>_. Q (Ret ())) \<Longrightarrow> owns lg P (ignore f) Q"
  by (simp add: owns_def ignore_def)

lemma moves_ignore: "moves lg P f (\<lambda>_. Q (Ret ())) \<Longrightarrow> moves lg P (ignore f) Q"
  unfolding moves_def by (rule owns_ignore)

section \<open>Hoare triples\<close>

text \<open>Total by construction: every Go call of the model returns an outcome.\<close>

definition triple :: "('w \<Rightarrow> bool) \<Rightarrow> ('w, 'a) go \<Rightarrow> ('a outcome \<Rightarrow> 'w \<Rightarrow> bool) \<Rightarrow> bool" where
  "triple P f Q \<longleftrightarrow> (\<forall>w. P w \<longrightarrow> Q (fst (f w)) (snd (f w)))"

lemma tripleI: "(\<And>w r w'. P w \<Longrightarrow> f w = (r, w') \<Longrightarrow> Q r w') \<Longrightarrow> triple P f Q"
  by (simp add: triple_def)

lemma tripleD: "triple P f Q \<Longrightarrow> f w = (r, w') \<Longrightarrow> P w \<Longrightarrow> Q r w'"
  by (auto simp: triple_def dest!: spec [of _ w])

lemma triple_conseq:
  "triple P f Q \<Longrightarrow> (\<And>w. P' w \<Longrightarrow> P w) \<Longrightarrow> (\<And>r w. Q r w \<Longrightarrow> Q' r w) \<Longrightarrow> triple P' f Q'"
  by (simp add: triple_def)

lemma triple_gbind:
  assumes "triple P f R" and "\<And>x. triple (R (Ret x)) (g x) Q"
    and "\<And>e w. R (Fail e) w \<Longrightarrow> Q (Fail e) w" and "\<And>s w. R (Panic s) w \<Longrightarrow> Q (Panic s) w"
  shows "triple P (gbind f g) Q"
  using assms by (auto simp: triple_def gbind_def split: prod.splits outcome.splits)

text \<open>A fact \<open>C\<close> about the value, next to an assertion \<open>I\<close> about the state.\<close>

lemma triple_gbind_pure:
  assumes "triple P f (\<lambda>r w. I w \<and> (\<forall>x. r = Ret x \<longrightarrow> C x))" and "\<And>x. C x \<Longrightarrow> triple I (g x) Q"
    and "\<And>r w. \<not> returned r \<Longrightarrow> I w \<Longrightarrow> Q r w"
  shows "triple P (gbind f g) Q"
proof (rule triple_gbind [OF assms(1)])
  show "triple (\<lambda>w. I w \<and> (\<forall>y. Ret x = Ret y \<longrightarrow> C y)) (g x) Q" for x
  proof (cases "C x")
    case True
    show ?thesis by (rule triple_conseq [OF assms(2) [OF True]]) simp_all
  qed (simp add: triple_def)
qed (simp_all add: assms(3))

lemma triple_on_err:
  assumes "triple P f R"
    and "\<And>x w. R (Ret x) w \<Longrightarrow> Q (Ret x) w" and "\<And>e w. R (Fail e) w \<Longrightarrow> Q (Fail (h e)) w"
    and "\<And>s w. R (Panic s) w \<Longrightarrow> Q (Panic s) w"
  shows "triple P (on_err h f) Q"
  using assms by (auto simp: triple_def on_err_def split: prod.splits outcome.splits)

lemma triple_ret: "(\<And>w. P w \<Longrightarrow> Q (Ret x) w) \<Longrightarrow> triple P (ret x) Q"
  by (simp add: triple_def ret_def)

lemma triple_fail: "(\<And>w. P w \<Longrightarrow> Q (Fail e) w) \<Longrightarrow> triple P (fail e) Q"
  by (simp add: triple_def fail_def)

lemma triple_lift:
  "(\<And>v. triple (\<lambda>w. P (v, w)) f (\<lambda>r w. Q r (v, w))) \<Longrightarrow> triple P (lift_go f) Q"
  by (simp add: triple_def lift_go_def split: prod.splits) (metis fst_conv snd_conv)

lemma triple_set_var:
  "(\<And>v w. P (v, w) \<Longrightarrow> Q (Ret ()) (x, w)) \<Longrightarrow> triple P (set_var x) Q"
  by (auto simp: triple_def set_var_def)

lemma triple_local_var:
  assumes "triple P' body R" and "\<And>w. P w \<Longrightarrow> P' (v0, w)"
    and "\<And>r v w. R r (v, w) \<Longrightarrow> Q r (d v r w)"
  shows "triple P (local_var v0 d body) Q"
  using assms by (auto simp: triple_def local_var_def split: prod.splits) (metis fst_conv snd_conv)

lemma triple_deferred:
  assumes "triple P f R" and "\<And>r w. R r w \<Longrightarrow> Q r (d r w)"
  shows "triple P (deferred d f) Q"
  using assms by (auto simp: triple_def deferred_def split: prod.splits)

end
