(* ===== verification/GoCrypto.thy ===== *)
theory GoCrypto
  imports Prelude
begin

text \<open>
  The parts of Go's \<^verbatim>\<open>crypto\<close> packages the three backends share: the hash numbers of \<^verbatim>\<open>crypto.Hash\<close>
  the signers tell apart, the options of \<^verbatim>\<open>crypto.Signer.Sign\<close>, ECDSA public keys and the P-256
  curve.
\<close>

section \<open>Hashes and signer options\<close>

text \<open>\<open>OtherHash\<close> is any other value of the integer type \<^verbatim>\<open>crypto.Hash\<close>.\<close>

datatype chash = SHA256 | SHA384 | SHA512 | OtherHash nat

text \<open>
  What a \<^verbatim>\<open>crypto.SignerOpts\<close> argument can be: nil, RSA-PSS options, or something else with a
  \<^verbatim>\<open>HashFunc\<close> (a \<^verbatim>\<open>crypto.Hash\<close> itself, for instance).
\<close>

datatype signer_opts = NilOpts | PSSOptions chash | HashOpts chash

text \<open>The value of the integer type that an error message is formatted from.\<close>

fun hash_number :: "chash \<Rightarrow> int" where
  "hash_number SHA256 = 5"
| "hash_number SHA384 = 6"
| "hash_number SHA512 = 7"
| "hash_number (OtherHash n) = int n"

text \<open>\<^verbatim>\<open>Hash.Size\<close> for the hashes the signers accept.\<close>

fun hash_size :: "chash \<Rightarrow> nat" where
  "hash_size SHA256 = 32"
| "hash_size SHA384 = 48"
| "hash_size SHA512 = 64"
| "hash_size (OtherHash n) = 0"

definition supported_hash :: "chash \<Rightarrow> bool" where
  "supported_hash h \<longleftrightarrow> h = SHA256 \<or> h = SHA384 \<or> h = SHA512"

lemma supported_hash_simps [simp]:
  "supported_hash SHA256" "supported_hash SHA384" "supported_hash SHA512" "\<not> supported_hash (OtherHash n)"
  by (simp_all add: supported_hash_def)

text \<open>The options under which a backend may reach the chip.\<close>

definition good_opts :: "bytes \<Rightarrow> signer_opts \<Rightarrow> bool" where
  "good_opts digest opts \<longleftrightarrow>
     (case opts of HashOpts h \<Rightarrow> supported_hash h \<and> length digest = hash_size h | _ \<Rightarrow> False)"

section \<open>ECDSA public keys\<close>

datatype curve = P256 | OtherCurve string

record ecdsa_pub =
  pk_curve :: curve
  pk_x :: int
  pk_y :: int

end
