(* ===== verification/KeyBackend.thy ===== *)
theory KeyBackend
  imports GoCrypto
begin

text \<open>
  What \<^verbatim>\<open>main.go\<close> sees of a backend: the three functions \<^verbatim>\<open>key.go\<close> lists and the methods of
  \<^verbatim>\<open>signCloser\<close>. The build picks one of three implementations; \<open>backend\<close> is the record of their
  operations over a world \<open>'w\<close> and a signer \<open>'s\<close>.

  The locale \<open>key_backend\<close> is the resource contract the three share: \<open>res s\<close> is what the signer \<open>s\<close>
  owns, opening a key hands over exactly that or nothing, signing keeps it, \<^verbatim>\<open>Close\<close> gives it back and
  leaves a signer that owns nothing, deleting holds nothing. Its lemmas are about whole lives of keys. The locale \<open>key_store\<close> is the contract about
  what is stored.
\<close>

record ('w, 's) backend =
  bk_name :: string
  bk_create :: "string \<Rightarrow> ('w, 's) go"
  bk_load :: "string \<Rightarrow> ('w, 's) go"
  bk_delete :: "string \<Rightarrow> ('w, unit) go"
  bk_public :: "'s \<Rightarrow> ecdsa_pub"
  bk_sign :: "'s \<Rightarrow> bytes \<Rightarrow> signer_opts \<Rightarrow> ('w, bytes) go"
  bk_close :: "('s \<times> 'w, unit) go"

text \<open>What the result of an opening call owns.\<close>

definition made :: "('s \<Rightarrow> 'r multiset) \<Rightarrow> 's outcome \<Rightarrow> 'r multiset" where
  "made res r = (case r of Ret s \<Rightarrow> res s | _ \<Rightarrow> {#})"

lemma made_simps [simp]:
  "made res (Ret s) = res s" "made res (Fail e) = {#}" "made res (Panic p) = {#}"
  by (simp_all add: made_def)

lemma made_none: "\<not> returned r \<Longrightarrow> made res r = {#}"
  by (cases r) simp_all

text \<open>A run of \<^verbatim>\<open>Sign\<close> calls whose results do not matter.\<close>

fun sign_all :: "('w, 's) backend \<Rightarrow> 's \<Rightarrow> (bytes \<times> signer_opts) list \<Rightarrow> ('w, unit) go" where
  "sign_all bk s [] = ret ()"
| "sign_all bk s (q # qs) = gbind (ignore (bk_sign bk s (fst q) (snd q))) (\<lambda>_. sign_all bk s qs)"

text \<open>A signer's life: \<^verbatim>\<open>Sign\<close> any number of times, \<^verbatim>\<open>Close\<close> twice, \<^verbatim>\<open>Sign\<close> again.\<close>

definition close_twice_then :: "('w, 's) backend \<Rightarrow> 's \<Rightarrow> (bytes \<times> signer_opts) list \<Rightarrow> ('w, unit) go" where
  "close_twice_then bk s qs w =
     (case bk_close bk (s, w) of
        (_, s1, w1) \<Rightarrow> (case bk_close bk (s1, w1) of (_, s2, w2) \<Rightarrow> sign_all bk s2 qs w2))"

definition signer_life ::
    "('w, 's) backend \<Rightarrow> ('w, 's) go \<Rightarrow> (bytes \<times> signer_opts) list \<Rightarrow> (bytes \<times> signer_opts) list
     \<Rightarrow> ('w, unit) go" where
  "signer_life bk mk qs qs' =
     gbind mk (\<lambda>s. gbind (sign_all bk s qs) (\<lambda>_. close_twice_then bk s qs'))"

locale key_backend =
  fixes lg :: "'w \<Rightarrow> 'r event list"
    and bk :: "('w, 's) backend"
    and res :: "'s \<Rightarrow> 'r multiset"
  assumes create_moves: "moves lg (\<lambda>_. {#}) (bk_create bk n) (\<lambda>r _. made res r)"
    and load_moves: "moves lg (\<lambda>_. {#}) (bk_load bk n) (\<lambda>r _. made res r)"
    and delete_moves: "moves lg (\<lambda>_. {#}) (bk_delete bk n) (\<lambda>_ _. {#})"
    and sign_moves: "moves lg (\<lambda>_. res s) (bk_sign bk s d opts) (\<lambda>_ _. res s)"
    and close_moves: "moves (lg \<circ> snd) (\<lambda>sw. res (fst sw)) (bk_close bk) (\<lambda>_ _. {#})"
    and close_empty: "bk_close bk (s, w) = (r, s', w') \<Longrightarrow> res s' = {#}"
begin

lemma sign_all_moves:
  "moves lg (\<lambda>_. res s) (sign_all bk s qs) (\<lambda>r _. if returned r then res s else {#})"
proof (induction qs)
  case (Cons q qs)
  have "moves lg (\<lambda>_. res s) (ignore (bk_sign bk s (fst q) (snd q)))
      (\<lambda>r _. if returned r then res s else {#})"
    by (rule moves_ignore) (simp add: sign_moves)
  then show ?case unfolding sign_all.simps
    by (rule moves_gbind) (simp_all add: Cons.IH)
qed (auto intro: moves_ret)

text \<open>One \<^verbatim>\<open>Close\<close> of a signer that is not kept.\<close>

lemma close_once: "moves lg (\<lambda>_. res s) (\<lambda>w. case bk_close bk (s, w) of (r, _, w1) \<Rightarrow> (r, w1)) (\<lambda>_ _. {#})"
proof (rule movesI)
  fix w
  obtain r s1 w1 where c: "bk_close bk (s, w) = (r, s1, w1)" by (metis prod.exhaust)
  from movesD [OF close_moves c] show "\<exists>es. lg (snd (case bk_close bk (s, w) of (r, _, w1) \<Rightarrow> (r, w1))) = lg w @ es \<and>
      (\<forall>F. run_log (res s + F) es = Some ({#} + F))" by (auto simp: c)
qed

lemma close_twice_moves: "moves lg (\<lambda>_. res s) (close_twice_then bk s qs) (\<lambda>_ _. {#})"
proof (rule movesI)
  fix w
  obtain r1 s1 w1 where c1: "bk_close bk (s, w) = (r1, s1, w1)" by (metis prod.exhaust)
  obtain r2 s2 w2 where c2: "bk_close bk (s1, w1) = (r2, s2, w2)" by (metis prod.exhaust)
  obtain r3 w3 where a: "sign_all bk s2 qs w2 = (r3, w3)" by fastforce
  have e: "res s1 = {#}" "res s2 = {#}" using close_empty c1 c2 by blast+
  from movesD [OF close_moves c1] obtain e1 where "lg w1 = lg w @ e1"
    "\<And>F. run_log (res s + F) e1 = Some ({#} + F)" by auto
  moreover from movesD [OF close_moves c2] obtain e2 where "lg w2 = lg w1 @ e2"
    "\<And>F. run_log F e2 = Some F" by (auto simp: e)
  moreover from movesD [OF sign_all_moves a] obtain e3 where "lg w3 = lg w2 @ e3"
    "\<And>F. run_log F e3 = Some F" unfolding e by (metis add.left_neutral)
  ultimately show "\<exists>es. lg (snd (close_twice_then bk s qs w)) = lg w @ es \<and>
      (\<forall>F. run_log (res s + F) es = Some ({#} + F))"
    by (intro exI [of _ "e1 @ e2 @ e3"]) (simp add: close_twice_then_def c1 c2 a run_log_append)
qed

lemma life_moves:
  assumes "moves lg (\<lambda>_. {#}) mk (\<lambda>r _. made res r)"
  shows "moves lg (\<lambda>_. {#}) (signer_life bk mk qs qs') (\<lambda>_ _. {#})"
  unfolding signer_life_def
proof (rule moves_gbind [OF assms])
  fix s
  show "moves lg (\<lambda>_. made res (Ret s)) (gbind (sign_all bk s qs) (\<lambda>_. close_twice_then bk s qs')) (\<lambda>_ _. {#})"
    using close_twice_moves [of s qs'] by (simp only: made_simps) (rule moves_gbind [OF sign_all_moves], simp_all)
qed simp_all

lemma life_balanced:
  "\<exists>es. lg (snd (signer_life bk (bk_create bk n) qs qs' w)) = lg w @ es \<and> run_log F es = Some F"
  "\<exists>es. lg (snd (signer_life bk (bk_load bk n) qs qs' w)) = lg w @ es \<and> run_log F es = Some F"
  using movesD [OF life_moves [OF create_moves] surjective_pairing]
    movesD [OF life_moves [OF load_moves] surjective_pairing] by (metis add.left_neutral)+

lemma open_balanced:
  "\<exists>es. lg (snd (bk_create bk n w)) = lg w @ es \<and> run_log F es = Some (F + made res (fst (bk_create bk n w)))"
  "\<exists>es. lg (snd (bk_load bk n w)) = lg w @ es \<and> run_log F es = Some (F + made res (fst (bk_load bk n w)))"
  "\<exists>es. lg (snd (bk_delete bk n w)) = lg w @ es \<and> run_log F es = Some F"
  using movesD [OF create_moves surjective_pairing] movesD [OF load_moves surjective_pairing]
    movesD [OF delete_moves surjective_pairing] by (metis add.left_neutral add.commute)+

end

section \<open>The stored keys\<close>

text \<open>
  The contract about stored keys: \<open>view w\<close> is what is stored, \<open>added n\<close> and \<open>gone n\<close> say what a successful
  creation or deletion of \<open>n\<close> does to it, \<open>stray n\<close> what a failed creation may leave. Loading, signing and
  closing change nothing, and neither deleting nor closing panics.
\<close>

locale key_store =
  fixes bk :: "('w, 's) backend"
    and view :: "'w \<Rightarrow> 'v" and inv :: "'w \<Rightarrow> bool"
    and added :: "string \<Rightarrow> 'v \<Rightarrow> 'v \<Rightarrow> bool" and stray :: "string \<Rightarrow> 'v \<Rightarrow> 'v \<Rightarrow> bool"
    and gone :: "string \<Rightarrow> 'v \<Rightarrow> 'v \<Rightarrow> bool"
  assumes create_store: "inv w \<Longrightarrow> bk_create bk n w = (r, w') \<Longrightarrow>
      inv w' \<and> (if returned r then added n (view w) (view w') else stray n (view w) (view w'))"
    and load_store: "inv w \<Longrightarrow> bk_load bk n w = (r, w') \<Longrightarrow> inv w' \<and> view w' = view w"
    and delete_store: "inv w \<Longrightarrow> bk_delete bk n w = (q, w') \<Longrightarrow>
      inv w' \<and> (\<forall>m. q \<noteq> Panic m) \<and> (if returned q then gone n (view w) (view w') else view w' = view w)"
    and sign_store: "inv w \<Longrightarrow> bk_sign bk s d opts w = (sig, w') \<Longrightarrow> inv w' \<and> view w' = view w"
    and close_store: "inv w \<Longrightarrow> bk_close bk (s, w) = (q, s', w') \<Longrightarrow>
      inv w' \<and> view w' = view w \<and> (\<forall>m. q \<noteq> Panic m)"
begin

text \<open>A call that leaves the stored keys alone.\<close>

definition keeps_store :: "('w, 'a) go \<Rightarrow> bool" where
  "keeps_store f \<longleftrightarrow> (\<forall>w. inv w \<longrightarrow> inv (snd (f w)) \<and> view (snd (f w)) = view w)"

lemma keeps_storeD: "keeps_store f \<Longrightarrow> inv w \<Longrightarrow> f w = (r, w') \<Longrightarrow> inv w' \<and> view w' = view w"
  by (metis keeps_store_def snd_conv)

lemma keeps_store_sign: "keeps_store (bk_sign bk s d opts)"
  unfolding keeps_store_def using sign_store by (metis surjective_pairing)

lemma keeps_store_gbind: "keeps_store f \<Longrightarrow> (\<And>x. keeps_store (g x)) \<Longrightarrow> keeps_store (gbind f g)"
  by (fastforce simp: keeps_store_def gbind_def split: prod.split outcome.split)

lemma keeps_store_on_err: "keeps_store f \<Longrightarrow> keeps_store (on_err h f)"
  by (fastforce simp: keeps_store_def on_err_def split: prod.split outcome.split)

lemma keeps_store_of_sum: "keeps_store (of_sum x)"
  by (cases x) (simp_all add: keeps_store_def of_sum_def ret_def fail_def)

text \<open>A signer's life after its creation changes nothing.\<close>

lemma keeps_store_sign_all: "keeps_store (sign_all bk s qs)"
proof (induction qs)
  case (Cons q qs)
  have "keeps_store (ignore (bk_sign bk s (fst q) (snd q)))"
    using keeps_store_sign by (simp add: keeps_store_def ignore_def)
  then show ?case using Cons.IH by (simp add: keeps_store_gbind)
qed (simp add: keeps_store_def ret_def)

lemma keeps_store_close_twice: "keeps_store (close_twice_then bk s qs)"
  unfolding keeps_store_def
proof (intro allI impI)
  fix w assume "inv w"
  obtain r1 s1 w1 where c1: "bk_close bk (s, w) = (r1, s1, w1)" by (metis prod.exhaust)
  obtain r2 s2 w2 where c2: "bk_close bk (s1, w1) = (r2, s2, w2)" by (metis prod.exhaust)
  from close_store [OF \<open>inv w\<close> c1] have w1: "inv w1" "view w1 = view w" by simp_all
  from close_store [OF w1(1) c2] have w2: "inv w2" "view w2 = view w" by (simp_all add: w1)
  from keeps_store_sign_all [of s2 qs] w2
  show "inv (snd (close_twice_then bk s qs w)) \<and> view (snd (close_twice_then bk s qs w)) = view w"
    by (simp add: close_twice_then_def c1 c2 keeps_store_def)
qed

lemma life_store:
  assumes "inv w"
  shows "case bk_create bk n w of (r, w1) \<Rightarrow> view (snd (signer_life bk (bk_create bk n) qs qs' w)) = view w1"
    and "view (snd (signer_life bk (bk_load bk n) qs qs' w)) = view w"
proof -
  have k: "keeps_store (gbind (sign_all bk s qs) (\<lambda>_. close_twice_then bk s qs'))" for s
    by (intro keeps_store_gbind keeps_store_sign_all keeps_store_close_twice)
  show "case bk_create bk n w of (r, w1) \<Rightarrow> view (snd (signer_life bk (bk_create bk n) qs qs' w)) = view w1"
    using create_store [OF assms, of n] k
    by (auto simp: signer_life_def gbind_def [of "bk_create bk n"] keeps_store_def split: prod.split outcome.split)
  have "keeps_store (bk_load bk n)" unfolding keeps_store_def using load_store by (metis surjective_pairing)
  then have "keeps_store (signer_life bk (bk_load bk n) qs qs')"
    unfolding signer_life_def by (rule keeps_store_gbind) (rule k)
  with assms show "view (snd (signer_life bk (bk_load bk n) qs qs' w)) = view w" by (simp add: keeps_store_def)
qed

end

end
