(* ===== verification/GoBytes.thy ===== *)
theory GoBytes
  imports Prelude
begin

text \<open>
  The byte-level parts of Go's standard library that the repository calls, as the source uses
  them: \<^verbatim>\<open>big.Int.SetBytes\<close> and \<^verbatim>\<open>Bytes\<close>, \<^verbatim>\<open>binary.BigEndian\<close> on 32-bit numbers, and
  \<^verbatim>\<open>bytes.Reader\<close> with \<^verbatim>\<open>io.ReadFull\<close>. The lemmas are the round trips.
\<close>

unbundle bit_operations_syntax

section \<open>Big-endian numbers\<close>

text \<open>\<^verbatim>\<open>new(big.Int).SetBytes(b)\<close>.\<close>

fun nat_of_bytes :: "bytes \<Rightarrow> nat" where
  "nat_of_bytes [] = 0"
| "nat_of_bytes (b # bs) = unat b * 256 ^ length bs + nat_of_bytes bs"

text \<open>\<^verbatim>\<open>big.Int.Bytes\<close>: no leading zero, empty for zero.\<close>

fun bytes_of_nat :: "nat \<Rightarrow> bytes" where
  "bytes_of_nat n = (if n = 0 then [] else bytes_of_nat (n div 256) @ [word_of_nat (n mod 256)])"

declare bytes_of_nat.simps [simp del]

lemma bytes_of_nat_0 [simp]: "bytes_of_nat 0 = []"
  by (simp add: bytes_of_nat.simps)

lemma bytes_of_nat_pos:
  "0 < n \<Longrightarrow> bytes_of_nat n = bytes_of_nat (n div 256) @ [word_of_nat (n mod 256)]"
  by (simp add: bytes_of_nat.simps [of n])

lemma nat_of_bytes_append:
  "nat_of_bytes (xs @ ys) = nat_of_bytes xs * 256 ^ length ys + nat_of_bytes ys"
  by (induction xs) (auto simp: algebra_simps power_add)

lemma unat_byte_less [simp]: "unat (b :: byte) < 256"
  using unsigned_less [of b] by simp

lemma unat_byte_of_nat [simp]: "n < 256 \<Longrightarrow> unat (word_of_nat n :: byte) = n"
  by (simp add: unat_of_nat)

lemma nat_of_bytes_bound: "nat_of_bytes bs < 256 ^ length bs"
proof (induction bs)
  case (Cons b bs)
  have "unat b * 256 ^ length bs + nat_of_bytes bs < unat b * 256 ^ length bs + 256 ^ length bs"
    using Cons by simp
  also have "\<dots> = Suc (unat b) * 256 ^ length bs" by simp
  also have "\<dots> \<le> 256 * 256 ^ length bs"
    by (rule mult_right_mono) (use unat_byte_less [of b] in linarith, simp)
  finally show ?case by simp
qed simp

lemma nat_of_bytes_of_nat [simp]: "nat_of_bytes (bytes_of_nat n) = n"
proof (induction n rule: less_induct)
  case (less n)
  show ?case
  proof (cases "n = 0")
    case False
    with less [of "n div 256"] show ?thesis
      by (simp add: bytes_of_nat_pos [of n] nat_of_bytes_append)
  qed simp
qed

lemma bytes_of_nat_eq_Nil [simp]: "bytes_of_nat n = [] \<longleftrightarrow> n = 0"
  by (cases "n = 0") (simp_all add: bytes_of_nat_pos)

lemma hd_bytes_of_nat: "0 < n \<Longrightarrow> hd (bytes_of_nat n) \<noteq> 0"
proof (induction n rule: less_induct)
  case (less n)
  show ?case
  proof (cases "n < 256")
    case True
    with less.prems have "unat (word_of_nat n :: byte) \<noteq> 0" by simp
    with True less.prems show ?thesis
      by (subst bytes_of_nat_pos) (auto simp: bytes_of_nat.simps [of 0] simp flip: unat_eq_0)
  next
    case False
    then have "0 < n div 256" "n div 256 < n" by auto
    with less.IH [of "n div 256"] show ?thesis
      by (simp add: bytes_of_nat_pos [of n] hd_append)
  qed
qed

lemma length_bytes_of_nat: "n < 256 ^ k \<Longrightarrow> length (bytes_of_nat n) \<le> k"
proof (induction k arbitrary: n)
  case (Suc k)
  show ?case
  proof (cases "n = 0")
    case False
    from Suc.prems have "n div 256 < 256 ^ k" by (simp add: less_mult_imp_div_less mult.commute)
    with Suc.IH False show ?thesis by (simp add: bytes_of_nat_pos [of n])
  qed simp
qed simp

text \<open>Removing leading zeros does not change the number.\<close>

lemma nat_of_bytes_zero_Cons [simp]: "nat_of_bytes (0 # bs) = nat_of_bytes bs"
  by simp

lemma nat_of_bytes_eq_0: "nat_of_bytes bs = 0 \<longleftrightarrow> (\<forall>b \<in> set bs. b = 0)"
  by (induction bs) (auto simp: unat_eq_0)

section \<open>32-bit big-endian numbers\<close>

text \<open>\<^verbatim>\<open>binary.BigEndian.PutUint32\<close> and \<^verbatim>\<open>Uint32\<close>.\<close>

definition put_be32 :: "32 word \<Rightarrow> bytes" where
  "put_be32 v = [ucast (drop_bit 24 v), ucast (drop_bit 16 v), ucast (drop_bit 8 v), ucast v]"

definition get_be32 :: "byte \<Rightarrow> byte \<Rightarrow> byte \<Rightarrow> byte \<Rightarrow> 32 word" where
  "get_be32 b0 b1 b2 b3 =
     ucast b3 OR push_bit 8 (ucast b2) OR push_bit 16 (ucast b1) OR push_bit 24 (ucast b0)"

lemma length_put_be32 [simp]: "length (put_be32 v) = 4"
  by (simp add: put_be32_def)

lemma bit_byte_bound [simp]: "8 \<le> n \<Longrightarrow> \<not> bit (b :: byte) n"
  using bit_imp_le_length [of b n] by auto

lemma bit_get_be32:
  "bit (get_be32 b0 b1 b2 b3) n \<longleftrightarrow>
     (if n < 8 then bit b3 n else if n < 16 then bit b2 (n - 8)
      else if n < 24 then bit b1 (n - 16) else n < 32 \<and> bit b0 (n - 24))"
proof -
  consider "n < 8" | "8 \<le> n" "n < 16" | "16 \<le> n" "n < 24" | "24 \<le> n" "n < 32" | "32 \<le> n"
    by linarith
  then show ?thesis
    by cases (auto simp: get_be32_def bit_or_iff bit_push_bit_iff bit_ucast_iff)
qed

lemma get_put_be32:
  "get_be32 (ucast (drop_bit 24 v)) (ucast (drop_bit 16 v)) (ucast (drop_bit 8 v)) (ucast v) = v"
proof (rule bit_word_eqI)
  fix n assume "n < LENGTH(32)"
  then consider "n < 8" | "8 \<le> n" "n < 16" | "16 \<le> n" "n < 24" | "24 \<le> n" "n < 32"
    by fastforce
  then show "bit (get_be32 (ucast (drop_bit 24 v)) (ucast (drop_bit 16 v))
      (ucast (drop_bit 8 v)) (ucast v)) n \<longleftrightarrow> bit v n"
    by cases (auto simp: bit_get_be32 bit_ucast_iff bit_drop_bit_eq)
qed

lemma put_get_be32: "put_be32 (get_be32 b0 b1 b2 b3) = [b0, b1, b2, b3]"
proof -
  have "ucast (drop_bit 24 (get_be32 b0 b1 b2 b3)) = b0"
    by (rule bit_word_eqI) (simp add: bit_ucast_iff bit_drop_bit_eq bit_get_be32)
  moreover have "ucast (drop_bit 16 (get_be32 b0 b1 b2 b3)) = b1"
    by (rule bit_word_eqI) (simp add: bit_ucast_iff bit_drop_bit_eq bit_get_be32)
  moreover have "ucast (drop_bit 8 (get_be32 b0 b1 b2 b3)) = b2"
    by (rule bit_word_eqI) (simp add: bit_ucast_iff bit_drop_bit_eq bit_get_be32)
  moreover have "ucast (get_be32 b0 b1 b2 b3) = b3"
    by (rule bit_word_eqI) (simp add: bit_ucast_iff bit_get_be32)
  ultimately show ?thesis by (simp add: put_be32_def)
qed

lemma put_be32_inject: "put_be32 v = put_be32 v' \<longleftrightarrow> v = v'"
proof
  let ?get = "\<lambda>bs. case bs of [a, b, c, d] \<Rightarrow> get_be32 a b c d | _ \<Rightarrow> 0"
  have r: "?get (put_be32 u) = u" for u
    unfolding put_be32_def list.case by (rule get_put_be32)
  assume "put_be32 v = put_be32 v'"
  then have "?get (put_be32 v) = ?get (put_be32 v')" by (rule arg_cong)
  then show "v = v'" by (simp only: r)
qed simp

section \<open>Reading from a \<^verbatim>\<open>bytes.Reader\<close>\<close>

text \<open>
  The state of a \<^verbatim>\<open>bytes.Reader\<close> is what is left to read; \<open>length\<close> of it is \<^verbatim>\<open>r.Len()\<close>. A
  short read consumes what there is.
\<close>

definition eof :: go_err where "eof = New ''EOF''"
definition unexpected_eof :: go_err where "unexpected_eof = New ''unexpected EOF''"

definition read_full :: "nat \<Rightarrow> (bytes, bytes) go" where
  "read_full n r =
     (if n = 0 then (Ret [], r)
      else if r = [] then (Fail eof, [])
      else if length r < n then (Fail unexpected_eof, [])
      else (Ret (take n r), drop n r))"

definition read_byte :: "(bytes, byte) go" where
  "read_byte r = (case r of [] \<Rightarrow> (Fail eof, []) | b # r' \<Rightarrow> (Ret b, r'))"

definition read_be32 :: "(bytes, 32 word) go" where
  "read_be32 =
     gbind (read_full 4) (\<lambda>bs. case bs of
         [b0, b1, b2, b3] \<Rightarrow> ret (get_be32 b0 b1 b2 b3)
       | _ \<Rightarrow> fail unexpected_eof)"

lemma read_full_Ret: "read_full n r = (Ret b, r') \<longleftrightarrow> r = b @ r' \<and> length b = n"
  by (auto simp: read_full_def)

lemma read_full_append [simp]: "length b = n \<Longrightarrow> read_full n (b @ r) = (Ret b, r)"
  by (simp add: read_full_Ret)

lemma read_byte_Ret: "read_byte r = (Ret b, r') \<longleftrightarrow> r = b # r'"
  by (cases r) (auto simp: read_byte_def)

lemma read_be32_Ret: "read_be32 r = (Ret n, r') \<longleftrightarrow> r = put_be32 n @ r'"
proof
  assume "read_be32 r = (Ret n, r')"
  then obtain bs s where "read_full 4 r = (Ret bs, s)"
    and c: "(case bs of [b0, b1, b2, b3] \<Rightarrow> ret (get_be32 b0 b1 b2 b3)
       | _ \<Rightarrow> fail unexpected_eof) s = (Ret n, r')"
    unfolding read_be32_def gbind_eq_Ret by blast
  then have "r = bs @ s" and "length bs = 4" by (auto simp: read_full_Ret)
  from \<open>length bs = 4\<close> obtain b0 b1 b2 b3 where bs: "bs = [b0, b1, b2, b3]"
    by (auto simp: length_Suc_conv numeral_eq_Suc)
  with c have "n = get_be32 b0 b1 b2 b3" and "s = r'" by (auto simp: ret_def)
  with \<open>r = bs @ s\<close> bs show "r = put_be32 n @ r'" by (simp add: put_get_be32)
next
  assume "r = put_be32 n @ r'"
  then show "read_be32 r = (Ret n, r')"
    by (simp add: read_be32_def gbind_def) (simp add: put_be32_def ret_def get_put_be32)
qed

lemma read_full_no_panic: "read_full n r \<noteq> (Panic s, r')"
  by (simp add: read_full_def)

lemma read_be32_no_panic: "read_be32 r \<noteq> (Panic s, r')"
  by (auto simp: read_be32_def gbind_def read_full_no_panic ret_def fail_def
      split: prod.splits outcome.splits list.splits)

end
