(* ===== verification/Cert.thy ===== *)
theory Cert
  imports KeyBackend GoBytes
begin

text \<open>
  The certificate self-test (\<^verbatim>\<open>cert.go\<close>). What the test gets from outside is a record of inputs:
  the random bytes of the two serial numbers, the two clock readings, the leaf key pair, and the
  functions of \<^verbatim>\<open>crypto/x509\<close>, \<^verbatim>\<open>encoding/asn1\<close> and \<^verbatim>\<open>crypto/sha1\<close> it calls. \<^verbatim>\<open>x509.CreateCertificate\<close>
  is split where it calls back into the signer: \<open>x509_TBS\<close> builds the digest to be signed,
  \<open>x509_Assemble\<close> checks the signature it got and encodes the certificate.
\<close>

section \<open>Certificates\<close>

datatype key_usage = NoKeyUsage | KeyUsageDigitalSignature | KeyUsageCertSign

datatype ext_key_usage = ExtKeyUsageServerAuth | OtherExtKeyUsage nat

record certificate =
  SerialNumber :: nat
  Organization :: "string list"
  CommonName :: string
  SubjectKeyId :: bytes
  NotBefore :: int
  NotAfter :: int
  KeyUsage :: key_usage
  ExtKeyUsage :: "ext_key_usage list"
  BasicConstraintsValid :: bool
  IsCA :: bool
  MaxPathLenZero :: bool
  DNSNames :: "string list"
  RawCert :: bytes

record verify_options =
  vo_Roots :: "certificate list"
  vo_DNSName :: string
  vo_KeyUsages :: "ext_key_usage list"

record cert_lib =
  root_random :: "go_err + bytes"
  leaf_random :: "go_err + bytes"
  root_now :: int
  leaf_now :: int
  leaf_key :: "go_err + ecdsa_pub"
  MarshalPKIXPublicKey :: "ecdsa_pub \<Rightarrow> go_err + bytes"
  asn1_SubjectPublicKey :: "bytes \<Rightarrow> go_err + bytes"
  sha1_Sum :: "bytes \<Rightarrow> bytes"
  x509_TBS :: "certificate \<Rightarrow> certificate \<Rightarrow> ecdsa_pub \<Rightarrow> ecdsa_pub \<Rightarrow> go_err + bytes"
  x509_Assemble :: "certificate \<Rightarrow> certificate \<Rightarrow> ecdsa_pub \<Rightarrow> ecdsa_pub \<Rightarrow> bytes \<Rightarrow> go_err + bytes"
  x509_Parse :: "bytes \<Rightarrow> go_err + certificate"
  CheckSignatureFrom :: "certificate \<Rightarrow> certificate \<Rightarrow> go_err + unit"
  Verify :: "certificate \<Rightarrow> verify_options \<Rightarrow> go_err + unit"

definition orgName :: string where "orgName = ''key-protecc''"

text \<open>Nanoseconds.\<close>

definition hour :: int where "hour = 3600 * 10 ^ 9"

section \<open>The test\<close>

text \<open>\<^verbatim>\<open>rand.Int(rand.Reader, 1 << 128)\<close> reads 16 bytes; every value they have is below the limit.\<close>

definition randomSerial :: "go_err + bytes \<Rightarrow> go_err + nat" where
  "randomSerial r =
     (case r of Inl err \<Rightarrow> Inl (Wrapf ''generate serial number: %w'' [] err)
      | Inr bs \<Rightarrow> Inr (nat_of_bytes (take 16 bs)))"

definition subjectKeyID :: "cert_lib \<Rightarrow> ecdsa_pub \<Rightarrow> go_err + bytes" where
  "subjectKeyID cl pub =
     (case MarshalPKIXPublicKey cl pub of
        Inl err \<Rightarrow> Inl (Wrapf ''marshal public key: %w'' [] err)
      | Inr spki \<Rightarrow>
          (case asn1_SubjectPublicKey cl spki of
             Inl err \<Rightarrow> Inl (Wrapf ''unmarshal public key: %w'' [] err)
           | Inr bits \<Rightarrow> Inr (sha1_Sum cl bits)))"

definition rootTemplate :: "cert_lib \<Rightarrow> nat \<Rightarrow> bytes \<Rightarrow> certificate" where
  "rootTemplate cl serial skid =
     \<lparr>SerialNumber = serial, Organization = [orgName], CommonName = orgName @ '' Root'',
      SubjectKeyId = skid, NotBefore = root_now cl, NotAfter = root_now cl + 7 * 24 * hour,
      KeyUsage = KeyUsageCertSign, ExtKeyUsage = [], BasicConstraintsValid = True, IsCA = True,
      MaxPathLenZero = True, DNSNames = [], RawCert = []\<rparr>"

definition leafTemplate :: "cert_lib \<Rightarrow> nat \<Rightarrow> certificate" where
  "leafTemplate cl serial =
     \<lparr>SerialNumber = serial, Organization = [orgName], CommonName = [],
      SubjectKeyId = [], NotBefore = leaf_now cl, NotAfter = leaf_now cl + 24 * hour,
      KeyUsage = KeyUsageDigitalSignature, ExtKeyUsage = [ExtKeyUsageServerAuth],
      BasicConstraintsValid = True, IsCA = False, MaxPathLenZero = False,
      DNSNames = [''example.net''], RawCert = []\<rparr>"

text \<open>\<^verbatim>\<open>x509.CreateCertificate\<close> signs the SHA-256 digest of the certificate body for a P-256 key.\<close>

definition createCertificate ::
    "cert_lib \<Rightarrow> ('w, 's) backend \<Rightarrow> 's \<Rightarrow> certificate \<Rightarrow> certificate \<Rightarrow> ecdsa_pub \<Rightarrow> ('w, bytes) go" where
  "createCertificate cl bk s tpl parent pub =
     gbind (of_sum (x509_TBS cl tpl parent pub (bk_public bk s))) (\<lambda>digest.
     gbind (bk_sign bk s digest (HashOpts SHA256)) (\<lambda>sig.
     of_sum (x509_Assemble cl tpl parent pub (bk_public bk s) sig)))"

definition createRootCert :: "cert_lib \<Rightarrow> ('w, 's) backend \<Rightarrow> 's \<Rightarrow> ('w, certificate) go" where
  "createRootCert cl bk s =
     gbind (of_sum (randomSerial (root_random cl))) (\<lambda>serial.
     gbind (of_sum (subjectKeyID cl (bk_public bk s))) (\<lambda>skid.
     gbind (on_err (Wrapf ''create certificate: %w'' [])
       (createCertificate cl bk s (rootTemplate cl serial skid) (rootTemplate cl serial skid) (bk_public bk s)))
       (\<lambda>der. of_sum (x509_Parse cl der))))"

definition createLeafCert ::
    "cert_lib \<Rightarrow> ('w, 's) backend \<Rightarrow> 's \<Rightarrow> certificate \<Rightarrow> ecdsa_pub \<Rightarrow> ('w, certificate) go" where
  "createLeafCert cl bk s rootCert leafPub =
     gbind (of_sum (randomSerial (leaf_random cl))) (\<lambda>serial.
     gbind (on_err (Wrapf ''create certificate: %w'' [])
       (createCertificate cl bk s (leafTemplate cl serial) rootCert leafPub))
       (\<lambda>der. of_sum (x509_Parse cl der)))"

definition runCertTest :: "cert_lib \<Rightarrow> ('w, 's) backend \<Rightarrow> 's \<Rightarrow> ('w, unit) go" where
  "runCertTest cl bk s =
     gbind (on_err (Wrapf ''create root certificate: %w'' []) (createRootCert cl bk s)) (\<lambda>rootCert.
     gbind (on_err (Wrapf ''generate leaf key: %w'' []) (of_sum (leaf_key cl))) (\<lambda>leafPub.
     gbind (on_err (Wrapf ''create leaf certificate: %w'' []) (createLeafCert cl bk s rootCert leafPub)) (\<lambda>leafCert.
     gbind (on_err (Wrapf ''leaf signature check: %w'' []) (of_sum (CheckSignatureFrom cl leafCert rootCert))) (\<lambda>_.
     on_err (Wrapf ''verify leaf chain: %w'' [])
       (of_sum (Verify cl leafCert
          \<lparr>vo_Roots = [rootCert], vo_DNSName = ''example.net'', vo_KeyUsages = [ExtKeyUsageServerAuth]\<rparr>))))))"

section \<open>Ownership\<close>

text \<open>The test uses the signer and keeps it.\<close>

context key_backend
begin

lemma createCertificate_moves:
  "moves lg (\<lambda>_. res s) (createCertificate cl bk s tpl parent pub) (\<lambda>_ _. res s)"
  unfolding createCertificate_def
  by (intro moves_gbind [where R = "\<lambda>_ _. res s"] moves_of_sum sign_moves) simp_all

lemma wrap_moves: "moves lg (\<lambda>_. M) f (\<lambda>_ _. M) \<Longrightarrow> moves lg (\<lambda>_. M) (on_err h f) (\<lambda>_ _. M)"
  by (erule moves_on_err) simp_all

lemma runCertTest_moves: "moves lg (\<lambda>_. res s) (runCertTest cl bk s) (\<lambda>_ _. res s)"
  unfolding runCertTest_def createRootCert_def createLeafCert_def
  by (intro moves_gbind [where R = "\<lambda>_ _. res s"] wrap_moves moves_of_sum createCertificate_moves) simp_all

end

section \<open>Properties\<close>

text \<open>
  What \<^verbatim>\<open>x509.CreateCertificate\<close> documents about the signature it is given: a certificate comes
  out only if the signature verifies under the signer's public key.
\<close>

definition x509_checks :: "cert_lib \<Rightarrow> (ecdsa_pub \<Rightarrow> bytes \<Rightarrow> bytes \<Rightarrow> bool) \<Rightarrow> bool" where
  "x509_checks cl verify \<longleftrightarrow>
     (\<forall>tpl parent pub spub digest sig der.
        x509_TBS cl tpl parent pub spub = Inr digest \<longrightarrow>
        x509_Assemble cl tpl parent pub spub sig = Inr der \<longrightarrow> verify spub digest sig)"

lemma createCertificate_verified:
  assumes "x509_checks cl verify" and "createCertificate cl bk s tpl parent pub w = (Ret der, w')"
  shows "\<exists>digest sig. bk_sign bk s digest (HashOpts SHA256) w = (Ret sig, w') \<and>
    verify (bk_public bk s) digest sig"
  using assms by (fastforce simp: createCertificate_def go_Ret x509_checks_def)

lemma createRootCert_verified:
  assumes "x509_checks cl verify" and "createRootCert cl bk s w = (Ret c, w')"
  shows "\<exists>digest sig. bk_sign bk s digest (HashOpts SHA256) w = (Ret sig, w') \<and>
    verify (bk_public bk s) digest sig"
  using assms(2) by (auto simp: createRootCert_def go_Ret intro: createCertificate_verified [OF assms(1)])

lemma createLeafCert_verified:
  assumes "x509_checks cl verify" and "createLeafCert cl bk s root pub w = (Ret c, w')"
  shows "\<exists>digest sig. bk_sign bk s digest (HashOpts SHA256) w = (Ret sig, w') \<and>
    verify (bk_public bk s) digest sig"
  using assms(2) by (auto simp: createLeafCert_def go_Ret intro: createCertificate_verified [OF assms(1)])


text \<open>A signer that answers a digest with itself, checked by equality.\<close>

definition echo_backend :: "(unit, unit) backend" where
  "echo_backend =
     \<lparr>bk_name = [], bk_create = (\<lambda>_. ret ()), bk_load = (\<lambda>_. ret ()), bk_delete = (\<lambda>_. ret ()),
      bk_public = (\<lambda>_. \<lparr>pk_curve = P256, pk_x = 1, pk_y = 2\<rparr>), bk_sign = (\<lambda>_ d _. ret d), bk_close = ret ()\<rparr>"

definition echo_lib :: cert_lib where
  "echo_lib =
     \<lparr>root_random = Inr [1], leaf_random = Inr [2], root_now = 0, leaf_now = 1,
      leaf_key = Inr \<lparr>pk_curve = P256, pk_x = 3, pk_y = 4\<rparr>, MarshalPKIXPublicKey = (\<lambda>_. Inr [5]),
      asn1_SubjectPublicKey = Inr, sha1_Sum = (\<lambda>b. b),
      x509_TBS = (\<lambda>c _ _ _. Inr [word_of_nat (SerialNumber c)]),
      x509_Assemble = (\<lambda>c _ _ _ sig. if sig = [word_of_nat (SerialNumber c)] then Inr sig else Inl (Ext [])),
      x509_Parse = (\<lambda>der. Inr (leafTemplate undefined (nat_of_bytes der))),
      CheckSignatureFrom = (\<lambda>_ _. Inr ()), Verify = (\<lambda>_ _. Inr ())\<rparr>"


text \<open>
  The leaf is valid within the root's life when it is issued within six days of the root
  (the test issues it at once), the root may sign certificates but has no subordinate
  authorities, and the leaf may not sign certificates and is for TLS servers of the tested name only;
  serial numbers have at most 128 bits.
\<close>

lemma templates_sound:
  "(let r = rootTemplate cl n skid; l = leafTemplate cl m in
     (if root_now cl \<le> leaf_now cl \<and> leaf_now cl \<le> root_now cl + 6 * 24 * hour
      then NotBefore r \<le> NotBefore l \<and> NotAfter l \<le> NotAfter r else True) \<and>
     NotAfter r - NotBefore r = 7 * 24 * hour \<and> NotAfter l - NotBefore l = 24 * hour \<and>
     IsCA r \<and> MaxPathLenZero r \<and> KeyUsage r = KeyUsageCertSign \<and> SubjectKeyId r = skid \<and>
     \<not> IsCA l \<and> KeyUsage l = KeyUsageDigitalSignature \<and> ExtKeyUsage l = [ExtKeyUsageServerAuth] \<and>
     DNSNames l = [''example.net''] \<and> BasicConstraintsValid r \<and> BasicConstraintsValid l) \<and>
   (case randomSerial rnd of Inl e \<Rightarrow> True | Inr k \<Rightarrow> k < 2 ^ 128)"
proof -
  have "nat_of_bytes (take 16 bs) < 2 ^ 128" for bs
  proof -
    have "(256 :: nat) ^ length (take 16 bs) \<le> 256 ^ 16" by (intro power_increasing) simp_all
    with nat_of_bytes_bound [of "take 16 bs"] show ?thesis by simp
  qed
  then have "case randomSerial rnd of Inl e \<Rightarrow> True | Inr k \<Rightarrow> k < 2 ^ 128"
    by (simp add: randomSerial_def split: sum.split)
  then show ?thesis
    by (simp add: Let_def rootTemplate_def leafTemplate_def hour_def)
qed

end
