(* ===== verification/GoPath.thy ===== *)
theory GoPath
  imports Prelude "HOL-Library.Sublist"
begin

text \<open>
  \<^verbatim>\<open>path/filepath\<close> on Unix, as the Linux backend uses it: \<^verbatim>\<open>Clean\<close>, \<^verbatim>\<open>Join\<close> and \<^verbatim>\<open>Dir\<close>
  on path strings. \<^verbatim>\<open>Clean\<close> is written over the list of the path's elements: empty elements
  and \<^verbatim>\<open>.\<close> are dropped, \<^verbatim>\<open>..\<close> takes back the element before it (it is dropped at the root and
  kept at the front of a relative path).
\<close>

abbreviation slash :: char where "slash \<equiv> CHR ''/''"

text \<open>\<^verbatim>\<open>strings.Split(s, "/")\<close>.\<close>

fun split_path :: "string \<Rightarrow> string list" where
  "split_path [] = [[]]"
| "split_path (c # cs) =
     (if c = slash then [] # split_path cs
      else (case split_path cs of [] \<Rightarrow> [[c]] | e # es \<Rightarrow> (c # e) # es))"

text \<open>\<^verbatim>\<open>strings.Join(elems, "/")\<close>.\<close>

fun join_path :: "string list \<Rightarrow> string" where
  "join_path [] = []"
| "join_path [e] = e"
| "join_path (e # es) = e @ slash # join_path es"

definition rooted :: "string \<Rightarrow> bool" where
  "rooted p = (p \<noteq> [] \<and> hd p = slash)"

text \<open>One element onto the cleaned elements before it, the last one first.\<close>

fun clean_step :: "bool \<Rightarrow> string list \<Rightarrow> string \<Rightarrow> string list" where
  "clean_step root stack e =
     (if e = [] \<or> e = ''.'' then stack
      else if e = ''..'' then
        (case stack of
           [] \<Rightarrow> if root then [] else [''..'']
         | t # ts \<Rightarrow> if t = ''..'' then e # stack else ts)
      else e # stack)"

definition clean_elems :: "string \<Rightarrow> string list" where
  "clean_elems p = rev (foldl (clean_step (rooted p)) [] (split_path p))"

definition render :: "bool \<Rightarrow> string list \<Rightarrow> string" where
  "render root es =
     (if root then slash # join_path es else if es = [] then ''.'' else join_path es)"

definition path_clean :: "string \<Rightarrow> string" where
  "path_clean p = render (rooted p) (clean_elems p)"

definition path_join :: "string list \<Rightarrow> string" where
  "path_join elems =
     (let es = dropWhile (\<lambda>e. e = []) elems
      in if es = [] then [] else path_clean (join_path es))"

text \<open>\<^verbatim>\<open>Dir\<close>: what is before the last slash, cleaned.\<close>

definition path_dir :: "string \<Rightarrow> string" where
  "path_dir p = path_clean (rev (dropWhile (\<lambda>c. c \<noteq> slash) (rev p)))"

section \<open>Elements\<close>

text \<open>An element of a cleaned path that is a name: no separator, not empty, not a dot entry.\<close>

definition plain_elem :: "string \<Rightarrow> bool" where
  "plain_elem e \<longleftrightarrow> e \<noteq> [] \<and> slash \<notin> set e \<and> e \<noteq> ''.'' \<and> e \<noteq> ''..''"

lemma split_path_nonempty [simp]: "split_path p \<noteq> []"
  by (induction p) (auto split: list.splits)

lemma split_path_no_slash: "slash \<notin> set e \<Longrightarrow> split_path e = [e]"
  by (induction e) auto

lemma split_path_append:
  "split_path (p @ slash # q) = split_path p @ split_path q"
  by (induction p) (auto split: list.splits simp: append_eq_Cons_conv Cons_eq_append_conv)

lemma split_path_elems: "e \<in> set (split_path p) \<Longrightarrow> slash \<notin> set e"
  by (induction p arbitrary: e) (auto split: if_splits list.splits)

lemma rooted_append [simp]: "p \<noteq> [] \<Longrightarrow> rooted (p @ q) = rooted p"
  by (simp add: rooted_def)

lemma join_path_snoc: "es \<noteq> [] \<Longrightarrow> join_path (es @ [e]) = join_path es @ slash # e"
  by (induction es rule: join_path.induct) auto

lemma join_path_eq_Nil: "(\<forall>e \<in> set es. e \<noteq> []) \<Longrightarrow> join_path es = [] \<longleftrightarrow> es = []"
  by (cases es rule: join_path.cases) auto

lemma split_join_path:
  "es \<noteq> [] \<Longrightarrow> \<forall>e \<in> set es. slash \<notin> set e \<Longrightarrow> split_path (join_path es) = es"
  by (induction es rule: join_path.induct) (auto simp: split_path_no_slash split_path_append)

text \<open>What every cleaned path looks like: names, behind some leading \<^verbatim>\<open>..\<close> when relative.\<close>

definition clean_stack :: "bool \<Rightarrow> string list \<Rightarrow> bool" where
  "clean_stack root es \<longleftrightarrow>
     (\<exists>n ns. es = ns @ replicate n ''..'' \<and> (\<forall>e \<in> set ns. plain_elem e) \<and> (root \<longrightarrow> n = 0))"

lemma clean_stack_Nil [simp]: "clean_stack root []"
  by (simp add: clean_stack_def)

lemma clean_stack_Cons: "plain_elem e \<Longrightarrow> clean_stack root es \<Longrightarrow> clean_stack root (e # es)"
  unfolding clean_stack_def by (metis append_Cons set_ConsD)

lemma clean_stack_tl:
  assumes "clean_stack root (t # ts)" and "t \<noteq> ''..''"
  shows "clean_stack root ts"
proof -
  from assms(1) obtain n ns where ns: "t # ts = ns @ replicate n ''..''"
    "\<forall>e \<in> set ns. plain_elem e" "root \<longrightarrow> n = 0" by (auto simp: clean_stack_def)
  with assms(2) obtain ms where "ns = t # ms"
    by (cases ns; cases n) auto
  with ns show ?thesis by (auto simp: clean_stack_def)
qed

lemma clean_stack_dotdot:
  assumes "clean_stack root (''..'' # ts)"
  shows "clean_stack root (''..'' # ''..'' # ts)"
proof -
  from assms obtain n ns where ns: "''..'' # ts = ns @ replicate n ''..''"
    "\<forall>e \<in> set ns. plain_elem e" "root \<longrightarrow> n = 0" by (auto simp: clean_stack_def)
  then have "ns = []" by (cases ns) (auto simp: plain_elem_def)
  with ns have "''..'' # ''..'' # ts = [] @ replicate (Suc n) ''..''" "n \<noteq> 0" by (cases n; simp)+
  with ns(3) show ?thesis unfolding clean_stack_def by (metis empty_iff list.set(1))
qed

lemma clean_step_stack:
  assumes "clean_stack root es" and "slash \<notin> set e"
  shows "clean_stack root (clean_step root es e)"
proof -
  consider "e = [] \<or> e = ''.''" | "e = ''..''" | "plain_elem e"
    using assms(2) by (auto simp: plain_elem_def)
  then show ?thesis
  proof cases
    case 2
    have "clean_stack False [''..'']"
      unfolding clean_stack_def by (rule exI [of _ 1]) simp
    with 2 assms(1) show ?thesis
      by (auto split: list.splits simp del: clean_stack_Cons intro: clean_stack_tl clean_stack_dotdot)
  qed (use assms clean_stack_Cons in \<open>auto simp: plain_elem_def\<close>)
qed

lemma foldl_clean_stack:
  "clean_stack root es \<Longrightarrow> \<forall>e \<in> set xs. slash \<notin> set e \<Longrightarrow>
    clean_stack root (foldl (clean_step root) es xs)"
  by (induction xs arbitrary: es) (auto simp del: clean_step.simps intro: clean_step_stack)

lemma clean_elems_stack: "clean_stack (rooted p) (rev (clean_elems p))"
  by (simp add: clean_elems_def foldl_clean_stack split_path_elems)

section \<open>Cleaning a clean path\<close>

lemma foldl_plain: "\<forall>e \<in> set ns. plain_elem e \<Longrightarrow> foldl (clean_step root) st ns = rev ns @ st"
  by (induction ns arbitrary: st) (auto simp: plain_elem_def)

lemma foldl_dotdot:
  "foldl (clean_step False) (replicate m ''..'') (replicate n ''..'') = replicate (m + n) ''..''"
proof (induction n arbitrary: m)
  case (Suc n)
  have "clean_step False (replicate m ''..'') ''..'' = replicate (Suc m) ''..''"
    by (cases m) simp_all
  with Suc [of "Suc m"] show ?case by simp
qed simp

lemma foldl_clean_id:
  assumes "clean_stack root (rev es)"
  shows "foldl (clean_step root) [] es = rev es"
proof -
  from assms obtain n ns where ns: "rev es = ns @ replicate n ''..''"
    "\<forall>e \<in> set ns. plain_elem e" "root \<longrightarrow> n = 0" by (auto simp: clean_stack_def)
  then have es: "es = replicate n ''..'' @ rev ns" by (metis rev_append rev_replicate rev_swap)
  have "foldl (clean_step root) [] (replicate n ''..'') = replicate n ''..''"
    using ns(3) foldl_dotdot [of 0 n] by (cases root) simp_all
  with ns(2) show ?thesis by (simp add: es foldl_plain)
qed

lemma clean_elem_no_slash:
  assumes "clean_stack root (rev es)" and "e \<in> set es"
  shows "e \<noteq> [] \<and> slash \<notin> set e"
proof -
  from assms(1) obtain n ns where es: "rev es = ns @ replicate n ''..''"
    "\<forall>e \<in> set ns. plain_elem e" by (auto simp: clean_stack_def)
  have "set es = set (rev es)" by (rule set_rev [symmetric])
  also have "\<dots> = set ns \<union> set (replicate n ''..'')" unfolding es(1) by (rule set_append)
  finally consider "e \<in> set ns" | "e = ''..''" using assms(2) by (auto split: if_splits)
  then show ?thesis
  proof cases
    case 1
    with es(2) show ?thesis by (simp add: plain_elem_def)
  qed simp
qed

lemma not_rooted_join:
  assumes "\<forall>e \<in> set es. e \<noteq> [] \<and> slash \<notin> set e"
  shows "\<not> rooted (join_path es)"
  using assms by (cases es rule: join_path.cases) (auto simp: rooted_def hd_append dest: hd_in_set)

lemma rooted_render:
  assumes "clean_stack root (rev es)"
  shows "rooted (render root es) = root"
  using assms not_rooted_join [of es] clean_elem_no_slash [OF assms]
  by (auto simp: render_def rooted_def)

text \<open>Cleaning a path followed by a slash, or by a slash and a name.\<close>

lemma clean_elems_slash:
  assumes "p \<noteq> []" and "slash \<notin> set e"
  shows "clean_elems (p @ slash # e) = rev (clean_step (rooted p) (rev (clean_elems p)) e)"
  using assms by (simp add: clean_elems_def split_path_append split_path_no_slash)

lemma clean_elems_name:
  "p \<noteq> [] \<Longrightarrow> plain_elem e \<Longrightarrow> clean_elems (p @ slash # e) = clean_elems p @ [e]"
  by (simp add: clean_elems_slash plain_elem_def)

lemma clean_elems_render:
  assumes c: "clean_stack root (rev es)" and "es \<noteq> []"
  shows "clean_elems (render root es) = es"
proof -
  have ns: "\<forall>e \<in> set es. e \<noteq> [] \<and> slash \<notin> set e" using clean_elem_no_slash [OF c] by blast
  then have s: "split_path (join_path es) = es" using assms(2) by (simp add: split_join_path)
  have "foldl (clean_step root) [] (split_path (render root es)) = rev es"
    using assms(2) foldl_clean_id [OF c] by (cases root) (simp_all add: render_def s)
  then show ?thesis by (simp add: clean_elems_def rooted_render [OF c])
qed

lemma path_dir_name:
  assumes c: "clean_stack root (rev es)" and "es \<noteq> []" and e: "plain_elem e"
  shows "path_dir (render root (es @ [e])) = render root es"
proof -
  have ns: "\<forall>e \<in> set es. e \<noteq> [] \<and> slash \<notin> set e" using clean_elem_no_slash [OF c] by blast
  have ne: "render root es \<noteq> []"
    using assms(2) ns join_path_eq_Nil [of es] by (auto simp: render_def)
  have r: "render root (es @ [e]) = render root es @ slash # e"
    using assms(2) by (simp add: render_def join_path_snoc)
  have "dropWhile (\<lambda>c. c \<noteq> slash) (rev e @ slash # rest) = slash # rest" for rest
    using e by (subst dropWhile_append2) (auto simp: plain_elem_def)
  then have "path_dir (render root (es @ [e])) = path_clean (render root es @ slash # [])"
    by (simp add: path_dir_def r)
  also have "\<dots> = render root es"
    using clean_elems_slash [OF ne, of "[]"] ne
    by (simp add: path_clean_def clean_elems_render [OF c assms(2)] rooted_render [OF c])
  finally show ?thesis .
qed

lemma render_name_inject:
  assumes "es \<noteq> []" and "slash \<notin> set e" and "slash \<notin> set e'"
    and "render root (es @ [e]) = render root (es @ [e'])"
  shows "e = e'"
  using assms by (simp add: render_def join_path_snoc split: if_splits)

section \<open>Joining a directory, a sub-directory and a file name\<close>

lemma path_join3:
  assumes "d \<noteq> []" and "plain_elem s" and "plain_elem f"
  shows "path_join [d, s, f] = render (rooted d) (clean_elems d @ [s, f])"
proof -
  have "clean_elems ((d @ slash # s) @ slash # f) = clean_elems d @ [s, f]"
    using assms clean_elems_name [of "d @ slash # s" f] clean_elems_name [of d s] by simp
  then have "clean_elems (d @ slash # s @ slash # f) = clean_elems d @ [s, f]" by simp
  then show ?thesis using assms(1) by (simp add: path_join_def path_clean_def)
qed

lemma path_join2:
  assumes "d \<noteq> []" and "plain_elem s"
  shows "path_join [d, s] = render (rooted d) (clean_elems d @ [s])"
  using assms by (simp add: path_join_def path_clean_def clean_elems_name)

lemma path_dir_join3:
  assumes "d \<noteq> []" and "plain_elem s" and "plain_elem f"
  shows "path_dir (path_join [d, s, f]) = path_join [d, s]"
proof -
  have "clean_stack (rooted d) (rev (clean_elems d @ [s]))"
    using clean_elems_stack [of d] assms(2) by (simp add: clean_stack_Cons)
  from path_dir_name [OF this _ assms(3)] show ?thesis
    using path_join3 [OF assms] path_join2 [OF assms(1,2)] by simp
qed

lemma path_join3_inject:
  assumes "d \<noteq> []" and "plain_elem s" and "plain_elem f" and "plain_elem f'"
    and "path_join [d, s, f] = path_join [d, s, f']"
  shows "f = f'"
  using assms render_name_inject [of "clean_elems d @ [s]" f f' "rooted d"]
  by (simp add: path_join3 plain_elem_def)

end
