(* ===== verification/GoOS.thy ===== *)
theory GoOS
  imports GoPath "HOL-Library.AList"
begin

text \<open>
  The operating system as the Linux backend uses it through Go's \<^verbatim>\<open>os\<close> package. A state holds
  the directory tree (path to directory or inode), the inodes, the open file descriptors and
  two ghost components: the resource ledger and the history of the
  file view after every system call. Hard links are names of one inode, as \<^verbatim>\<open>os.Link\<close> needs.

  Every system call may fail: the \<open>n\<close>-th one of a run fails with the error number
  \<open>faults n\<close> names, if it names one. The environment chooses \<open>faults\<close>, so a theorem without a hypothesis on it
  holds for every pattern of I/O errors. The number beside the error is how many bytes a failing
  \<^verbatim>\<open>write\<close> has already written. Names that \<^verbatim>\<open>os.CreateTemp\<close> draws at random come from
  \<open>rands\<close>.
\<close>

section \<open>State\<close>

datatype node = DirNode nat | FileNode nat

record inode =
  content :: bytes
  mode :: nat

text \<open>What the Linux backend holds open: files, TPM connections and transient TPM objects.\<close>

datatype lx_res = OpenFile nat | TpmConn nat | TpmObject nat "32 word"

type_synonym file_view = "string \<Rightarrow> (bytes \<times> nat) option"

record os =
  names :: "(string \<times> node) list"
  inodes :: "nat \<Rightarrow> inode option"
  next_ino :: nat
  fds :: "nat \<Rightarrow> node option"
  next_fd :: nat
  faults :: "nat \<Rightarrow> (errno \<times> nat) option"
  rands :: "nat \<Rightarrow> nat"
  tick :: nat
  ledger_log :: "lx_res event list"
  hist :: "file_view list"

definition node_at :: "'x os_scheme \<Rightarrow> string \<Rightarrow> node option" where
  "node_at w p = map_of (names w) p"

text \<open>The regular files: content and permission bits by path.\<close>

definition view_of :: "(string \<times> node) list \<Rightarrow> (nat \<Rightarrow> inode option) \<Rightarrow> file_view" where
  "view_of tree inos p =
     (case map_of tree p of
        Some (FileNode i) \<Rightarrow> map_option (\<lambda>n. (content n, mode n)) (inos i)
      | _ \<Rightarrow> None)"

definition file_at :: "'x os_scheme \<Rightarrow> file_view" where
  file_at_view: "file_at w = view_of (names w) (inodes w)"

lemma file_at_def:
  "file_at w p =
     (case node_at w p of
        Some (FileNode i) \<Rightarrow> map_option (\<lambda>n. (content n, mode n)) (inodes w i)
      | _ \<Rightarrow> None)"
  by (simp add: file_at_view view_of_def node_at_def)

definition set_node :: "string \<Rightarrow> node \<Rightarrow> 'x os_scheme \<Rightarrow> 'x os_scheme" where
  "set_node p n w = w\<lparr>names := AList.update p n (names w)\<rparr>"

definition del_node :: "string \<Rightarrow> 'x os_scheme \<Rightarrow> 'x os_scheme" where
  "del_node p w = w\<lparr>names := AList.delete p (names w)\<rparr>"

definition log_ev :: "lx_res event \<Rightarrow> 'x os_scheme \<Rightarrow> 'x os_scheme" where
  "log_ev e w = w\<lparr>ledger_log := ledger_log w @ [e]\<rparr>"

section \<open>System calls\<close>

text \<open>
  One system call: it fails as the environment chose, or does its work, and the file view it
  leaves is recorded. \<open>part\<close> is what a failing call has done already.
\<close>

definition record_view :: "'x os_scheme \<Rightarrow> 'x os_scheme" where
  "record_view w = w\<lparr>hist := hist w @ [file_at w]\<rparr>"

definition syscall_part ::
    "(nat \<Rightarrow> 'x os_scheme \<Rightarrow> 'x os_scheme) \<Rightarrow> ('x os_scheme, 'a) go \<Rightarrow> ('x os_scheme, 'a) go" where
  "syscall_part part f w =
     (let w1 = w\<lparr>tick := Suc (tick w)\<rparr>
      in case faults w (tick w) of
           Some (e, k) \<Rightarrow> (Fail (Sys e), record_view (part k w1))
         | None \<Rightarrow> (case f w1 of (r, w2) \<Rightarrow> (r, record_view w2)))"

definition syscall :: "('x os_scheme, 'a) go \<Rightarrow> ('x os_scheme, 'a) go" where
  "syscall f = syscall_part (\<lambda>_ w. w) f"

definition is_dir :: "'x os_scheme \<Rightarrow> string \<Rightarrow> bool" where
  "is_dir w p = (case node_at w p of Some (DirNode _) \<Rightarrow> True | _ \<Rightarrow> False)"

text \<open>Making a name needs its directory.\<close>

definition dir_error :: "'x os_scheme \<Rightarrow> string \<Rightarrow> errno option" where
  "dir_error w p =
     (case node_at w (path_dir p) of
        None \<Rightarrow> Some ENOENT
      | Some (FileNode _) \<Rightarrow> Some ENOTDIR
      | Some (DirNode _) \<Rightarrow> None)"

definition os_stat :: "string \<Rightarrow> ('x os_scheme, node) go" where
  "os_stat p = syscall (\<lambda>w. case node_at w p of None \<Rightarrow> fail (Sys ENOENT) w | Some n \<Rightarrow> ret n w)"

definition os_mkdir :: "string \<Rightarrow> nat \<Rightarrow> ('x os_scheme, unit) go" where
  "os_mkdir p perm = syscall (\<lambda>w.
     if node_at w p \<noteq> None then fail (Sys EEXIST) w
     else case dir_error w p of
            Some e \<Rightarrow> fail (Sys e) w
          | None \<Rightarrow> ret () (set_node p (DirNode perm) w))"

text \<open>
  The parent \<^verbatim>\<open>os.MkdirAll\<close> goes on with: the path up to its last separator, trailing
  separators aside (the kernel does not see them); \<open>None\<close> when nothing is left.
\<close>

definition mkdir_parent :: "string \<Rightarrow> string option" where
  "mkdir_parent p =
     (let q = dropWhile (\<lambda>c. c = slash) (rev p);
          r = dropWhile (\<lambda>c. c \<noteq> slash) q;
          s = dropWhile (\<lambda>c. c = slash) r
      in if r = [] then None else if s = [] then Some [slash] else Some (rev s))"

lemma mkdir_parent_shorter:
  assumes m: "mkdir_parent p = Some d"
  shows "length d < length p"
proof -
  define q where "q = dropWhile (\<lambda>c. c = slash) (rev p)"
  define r where "r = dropWhile (\<lambda>c. c \<noteq> slash) q"
  define s where "s = dropWhile (\<lambda>c. c = slash) r"
  have d: "(if r = [] then None else if s = [] then Some [slash] else Some (rev s)) = Some d"
    using m unfolding mkdir_parent_def Let_def q_def [symmetric] r_def [symmetric] s_def [symmetric] .
  have "r \<noteq> []" using d by (cases "r = []") simp_all
  then have "q \<noteq> []" unfolding r_def by (cases q) simp_all
  then obtain c cs where q: "q = c # cs" by (cases q) simp_all
  have "c \<noteq> slash"
    using hd_dropWhile [of "\<lambda>c. c = slash" "rev p"] \<open>q \<noteq> []\<close> unfolding q_def [symmetric] q by simp
  then have "length r < length q"
    unfolding r_def q using length_dropWhile_le [of _ cs] by (simp add: less_Suc_eq_le)
  moreover have "length q \<le> length p" unfolding q_def using length_dropWhile_le [of _ "rev p"] by simp
  moreover have "length d \<le> length r"
  proof (cases "s = []")
    case True
    with d \<open>r \<noteq> []\<close> show ?thesis by (cases r) auto
  next
    case False
    with d \<open>r \<noteq> []\<close> have "length d = length s" by auto
    then show ?thesis unfolding s_def using length_dropWhile_le [of _ r] by simp
  qed
  ultimately show ?thesis by linarith
qed

function os_mkdir_all :: "string \<Rightarrow> nat \<Rightarrow> ('x os_scheme, unit) go" where
  "os_mkdir_all p perm w =
     (case os_stat p w of
        (Ret (DirNode _), w1) \<Rightarrow> (Ret (), w1)
      | (Ret (FileNode _), w1) \<Rightarrow> (Fail (Sys ENOTDIR), w1)
      | (_, w1) \<Rightarrow>
          (case (case mkdir_parent p of None \<Rightarrow> (Ret (), w1) | Some q \<Rightarrow> os_mkdir_all q perm w1) of
             (Ret _, w2) \<Rightarrow>
               (case os_mkdir p perm w2 of
                  (Ret _, w3) \<Rightarrow> (Ret (), w3)
                | (r, w3) \<Rightarrow>
                    (case os_stat p w3 of
                       (Ret (DirNode _), w4) \<Rightarrow> (Ret (), w4)
                     | (_, w4) \<Rightarrow> (r, w4)))
           | (r, w2) \<Rightarrow> (r, w2)))"
  by pat_completeness auto
termination
  by (relation "measure (\<lambda>(p, _, _). length p)") (auto dest: mkdir_parent_shorter)

declare os_mkdir_all.simps [simp del]

section \<open>Open files\<close>

text \<open>An \<^verbatim>\<open>*os.File\<close>: its descriptor and the name it was opened with.\<close>

record os_file =
  file_fd :: nat
  file_name :: string

definition err_closed :: go_err where
  "err_closed = New ''file already closed''"

definition open_node :: "node \<Rightarrow> string \<Rightarrow> ('x os_scheme, os_file) go" where
  "open_node n p w =
     (Ret \<lparr>file_fd = next_fd w, file_name = p\<rparr>,
      log_ev (Acq (OpenFile (next_fd w)))
        (w\<lparr>fds := (fds w)(next_fd w \<mapsto> n), next_fd := Suc (next_fd w)\<rparr>))"

definition os_open :: "string \<Rightarrow> ('x os_scheme, os_file) go" where
  "os_open p = syscall (\<lambda>w. case node_at w p of None \<Rightarrow> fail (Sys ENOENT) w | Some n \<Rightarrow> open_node n p w)"

text \<open>\<^verbatim>\<open>OpenFile(p, O_RDWR|O_CREATE|O_EXCL, 0600)\<close>.\<close>

definition os_open_excl :: "string \<Rightarrow> nat \<Rightarrow> ('x os_scheme, os_file) go" where
  "os_open_excl p perm = syscall (\<lambda>w.
     if node_at w p \<noteq> None then fail (Sys EEXIST) w
     else case dir_error w p of
            Some e \<Rightarrow> fail (Sys e) w
          | None \<Rightarrow>
              open_node (FileNode (next_ino w)) p
                (set_node p (FileNode (next_ino w))
                  (w\<lparr>inodes := (inodes w)(next_ino w \<mapsto> \<lparr>content = [], mode = perm\<rparr>),
                     next_ino := Suc (next_ino w)\<rparr>)))"

definition temp_name :: "string \<Rightarrow> string \<Rightarrow> nat \<Rightarrow> string" where
  "temp_name dir pre n = dir @ [slash] @ pre @ dec_digits n"

text \<open>
  \<^verbatim>\<open>os.CreateTemp(dir, prefix + "*")\<close>: a fresh random name up to 10000 times while the name is
  taken. The argument counts the attempts that are left.
\<close>

fun create_temp_loop :: "nat \<Rightarrow> string \<Rightarrow> string \<Rightarrow> ('x os_scheme, os_file) go" where
  "create_temp_loop 0 dir pre w = (Fail (Sys EEXIST), w)"
| "create_temp_loop (Suc k) dir pre w =
     (case os_open_excl (temp_name dir pre (rands w (tick w))) 384 w of
        (Fail (Sys EEXIST), w') \<Rightarrow> create_temp_loop k dir pre w'
      | rw \<Rightarrow> rw)"

definition os_create_temp :: "string \<Rightarrow> string \<Rightarrow> ('x os_scheme, os_file) go" where
  "os_create_temp dir pre = create_temp_loop 10000 dir pre"

text \<open>Evaluation needs the later attempts only when a name is taken.\<close>

lemma os_create_temp_first [code]:
  "os_create_temp dir pre w =
     (case os_open_excl (temp_name dir pre (rands w (tick w))) 384 w of
        (Fail (Sys EEXIST), w') \<Rightarrow> create_temp_loop 9999 dir pre w'
      | rw \<Rightarrow> rw)"
proof -
  have n: "(10000 :: nat) = Suc 9999" by simp
  show ?thesis unfolding os_create_temp_def n by (rule create_temp_loop.simps)
qed

text \<open>A method on a file that has been closed fails without a system call.\<close>

definition on_inode ::
    "os_file \<Rightarrow> (nat \<Rightarrow> inode \<Rightarrow> inode) \<Rightarrow> (inode \<Rightarrow> inode) \<Rightarrow> ('x os_scheme, unit) go" where
  "on_inode f part upd w =
     (case fds w (file_fd f) of
        None \<Rightarrow> fail err_closed w
      | Some (DirNode _) \<Rightarrow> syscall (ret ()) w
      | Some (FileNode i) \<Rightarrow>
          syscall_part
            (\<lambda>k w. w\<lparr>inodes := (inodes w)(i := map_option (part k) (inodes w i))\<rparr>)
            (\<lambda>w. ret () (w\<lparr>inodes := (inodes w)(i := map_option upd (inodes w i))\<rparr>))
            w)"

definition file_chmod :: "os_file \<Rightarrow> nat \<Rightarrow> ('x os_scheme, unit) go" where
  "file_chmod f perm = on_inode f (\<lambda>_ n. n) (\<lambda>n. n\<lparr>mode := perm\<rparr>)"

definition file_write :: "os_file \<Rightarrow> bytes \<Rightarrow> ('x os_scheme, unit) go" where
  "file_write f bs =
     on_inode f (\<lambda>k n. n\<lparr>content := content n @ take k bs\<rparr>) (\<lambda>n. n\<lparr>content := content n @ bs\<rparr>)"

definition file_sync :: "os_file \<Rightarrow> ('x os_scheme, unit) go" where
  "file_sync f = on_inode f (\<lambda>_ n. n) (\<lambda>n. n)"

text \<open>\<^verbatim>\<open>Close\<close> gives the descriptor back even when it reports an error.\<close>

definition file_close :: "os_file \<Rightarrow> ('x os_scheme, unit) go" where
  "file_close f w =
     (case fds w (file_fd f) of
        None \<Rightarrow> fail err_closed w
      | Some _ \<Rightarrow>
          (let w1 = log_ev (Rel (OpenFile (file_fd f))) (w\<lparr>fds := (fds w)(file_fd f := None)\<rparr>)
           in syscall (ret ()) w1))"

section \<open>Names\<close>

definition os_link :: "string \<Rightarrow> string \<Rightarrow> ('x os_scheme, unit) go" where
  "os_link old new = syscall (\<lambda>w.
     case node_at w old of
       None \<Rightarrow> fail (Sys ENOENT) w
     | Some (DirNode _) \<Rightarrow> fail (Sys (EOther 1)) w
     | Some (FileNode i) \<Rightarrow>
         if node_at w new \<noteq> None then fail (Sys EEXIST) w
         else case dir_error w new of
                Some e \<Rightarrow> fail (Sys e) w
              | None \<Rightarrow> ret () (set_node new (FileNode i) w))"

definition sys_unlink :: "string \<Rightarrow> ('x os_scheme, unit) go" where
  "sys_unlink p = syscall (\<lambda>w.
     case node_at w p of
       None \<Rightarrow> fail (Sys ENOENT) w
     | Some (DirNode _) \<Rightarrow> fail (Sys EISDIR) w
     | Some (FileNode _) \<Rightarrow> ret () (del_node p w))"

definition dir_empty :: "'x os_scheme \<Rightarrow> string \<Rightarrow> bool" where
  "dir_empty w p = (\<forall>q \<in> set (map fst (names w)). q = p \<or> path_dir q \<noteq> p)"

definition sys_rmdir :: "string \<Rightarrow> ('x os_scheme, unit) go" where
  "sys_rmdir p = syscall (\<lambda>w.
     case node_at w p of
       None \<Rightarrow> fail (Sys ENOENT) w
     | Some (FileNode _) \<Rightarrow> fail (Sys ENOTDIR) w
     | Some (DirNode _) \<Rightarrow>
         if dir_empty w p then ret () (del_node p w) else fail (Sys ENOTEMPTY) w)"

text \<open>\<^verbatim>\<open>os.Remove\<close>: \<^verbatim>\<open>unlink\<close>, then \<^verbatim>\<open>rmdir\<close>; of two errors the one that is not "not a directory".\<close>

definition os_remove :: "string \<Rightarrow> ('x os_scheme, unit) go" where
  "os_remove p w =
     (case sys_unlink p w of
        (Ret u, w1) \<Rightarrow> (Ret u, w1)
      | (r, w1) \<Rightarrow>
          (case sys_rmdir p w1 of
             (Ret u, w2) \<Rightarrow> (Ret u, w2)
           | (Fail (Sys ENOTDIR), w2) \<Rightarrow> (r, w2)
           | (r2, w2) \<Rightarrow> (r2, w2)))"

text \<open>\<^verbatim>\<open>os.ReadFile\<close>: open, read, close.\<close>

definition os_read_file :: "string \<Rightarrow> ('x os_scheme, bytes) go" where
  "os_read_file p =
     gbind (os_open p) (\<lambda>f.
       deferred (\<lambda>_ w. snd (file_close f w))
         (\<lambda>w. case fds w (file_fd f) of
             Some (FileNode i) \<Rightarrow>
               syscall (case inodes w i of None \<Rightarrow> fail (Sys (EOther 5)) | Some n \<Rightarrow> ret (content n)) w
           | _ \<Rightarrow> syscall (fail (Sys EISDIR)) w))"

end
