(* ===== verification/Report.thy ===== *)
theory Report
  imports GoCrypto GoOS
begin

text \<open>
  The report \<^verbatim>\<open>certtest\<close> prints (\<^verbatim>\<open>report.go\<close>): the commit from the build settings, the
  description of a public key, the latency statistics and the rounding and printing of durations.
  A \<^verbatim>\<open>time.Duration\<close> is a 64-bit signed number of nanoseconds; the type carries the order of its
  signed value, so that the library's \<open>sort\<close> is \<^verbatim>\<open>slices.Sort\<close>.
\<close>

section \<open>The commit\<close>

text \<open>\<open>None\<close> is a binary without build information; a setting is its key and value.\<close>

definition scanSettings :: "(string \<times> string) list \<Rightarrow> string \<times> bool" where
  "scanSettings settings =
     fold (\<lambda>(key, value) (rev, dirty).
            if key = ''vcs.revision'' then (value, dirty)
            else if key = ''vcs.modified'' then (rev, value = ''true'')
            else (rev, dirty))
       settings ([], False)"

definition buildCommit :: "(string \<times> string) list option \<Rightarrow> string" where
  "buildCommit info =
     (case info of
        None \<Rightarrow> ''unknown''
      | Some settings \<Rightarrow>
          (let (rev, dirty) = scanSettings settings in
           if rev = [] then ''unknown''
           else (let rev = (if length rev > 12 then take 12 rev else rev) in
                 if dirty then rev @ ''+dirty'' else rev)))"

text \<open>The key of a backend is always an ECDSA key; \<^verbatim>\<open>curve.Params().Name\<close>.\<close>

fun curveName :: "curve \<Rightarrow> string" where
  "curveName P256 = ''P-256''"
| "curveName (OtherCurve s) = s"

definition keyDescription :: "ecdsa_pub \<Rightarrow> string" where
  "keyDescription pub = ''ECDSA '' @ curveName (pk_curve pub)"

section \<open>Durations\<close>

datatype duration = Duration (nanos: "64 word")

definition dur :: "duration \<Rightarrow> int" where
  "dur d = sint (nanos d)"

definition duration_of :: "int \<Rightarrow> duration" where
  "duration_of i = Duration (word_of_int i)"

lemma duration_of_dur [simp]: "duration_of (dur d) = d"
  by (simp add: dur_def duration_of_def)

lemma dur_inject: "dur a = dur b \<longleftrightarrow> a = b"
  by (metis duration_of_dur)

instantiation duration :: linorder
begin

definition less_eq_duration :: "duration \<Rightarrow> duration \<Rightarrow> bool" where
  "less_eq_duration a b \<longleftrightarrow> dur a \<le> dur b"

definition less_duration :: "duration \<Rightarrow> duration \<Rightarrow> bool" where
  "less_duration a b \<longleftrightarrow> dur a < dur b"

instance
proof
  fix x y :: duration
  show "x \<le> y \<Longrightarrow> y \<le> x \<Longrightarrow> x = y"
    unfolding less_eq_duration_def by (metis antisym dur_inject)
qed (auto simp: less_eq_duration_def less_duration_def)

end

text \<open>\<open>None\<close> is the run-time panic of indexing an empty slice.\<close>

definition durationStats :: "duration list \<Rightarrow> (duration \<times> duration \<times> duration) option" where
  "durationStats ds =
     (let sorted = sort ds in
      if sorted = [] then None
      else Some (sorted ! (length sorted div 2), sorted ! 0, sorted ! (length sorted - 1)))"

text \<open>\<^verbatim>\<open>Duration.Round\<close>, with Go's truncated remainder and saturation.\<close>

definition maxDuration :: int where "maxDuration = 2 ^ 63 - 1"
definition minDuration :: int where "minDuration = - (2 ^ 63)"

definition roundDuration :: "duration \<Rightarrow> int \<Rightarrow> duration" where
  "roundDuration d m =
     (if m \<le> 0 then d
      else if dur d < 0 then
        (let r = (- dur d) mod m in
         if 2 * r < m then duration_of (dur d + r)
         else if dur d - m + r < minDuration then duration_of minDuration
         else duration_of (dur d - m + r))
      else
        (let r = dur d mod m in
         if 2 * r < m then duration_of (dur d - r)
         else if dur d + m - r > maxDuration then duration_of maxDuration
         else duration_of (dur d + m - r)))"

text \<open>
  \<^verbatim>\<open>Duration.String\<close>. \<open>fmtFrac v prec\<close> are the decimal digits of \<open>v / 10 ^ prec\<close> after the point without
  trailing zeros, with the point if there are any, and the integer part.
\<close>

fun frac_digits :: "nat \<Rightarrow> nat \<Rightarrow> string \<Rightarrow> string \<times> nat" where
  "frac_digits v 0 acc = (acc, v)"
| "frac_digits v (Suc prec) acc =
     (let digit = v mod 10 in
      frac_digits (v div 10) prec (if digit \<noteq> 0 \<or> acc \<noteq> [] then char_of (48 + digit) # acc else acc))"

definition fmtFrac :: "nat \<Rightarrow> nat \<Rightarrow> string \<times> nat" where
  "fmtFrac v prec =
     (case frac_digits v prec [] of (ds, u) \<Rightarrow> (if ds = [] then [] else CHR ''.'' # ds, u))"

definition mu_s :: string where "mu_s = [char_of (194 :: nat), char_of (181 :: nat), CHR ''s'']"

definition durationString :: "duration \<Rightarrow> string" where
  "durationString d =
     (let u = nat \<bar>dur d\<bar>;
          body =
            (if u = 0 then ''0s''
             else if u < 10 ^ 3 then dec_digits u @ ''ns''
             else if u < 10 ^ 6 then (case fmtFrac u 3 of (f, v) \<Rightarrow> dec_digits v @ f @ mu_s)
             else if u < 10 ^ 9 then (case fmtFrac u 6 of (f, v) \<Rightarrow> dec_digits v @ f @ ''ms'')
             else (case fmtFrac u 9 of (f, v) \<Rightarrow>
               (let s = dec_digits (v mod 60) @ f @ ''s''; m = v div 60 in
                if m = 0 then s
                else (let ms = dec_digits (m mod 60) @ ''m'' @ s; h = m div 60 in
                      if h = 0 then ms else dec_digits h @ ''h'' @ ms))))
      in if dur d < 0 then CHR ''-'' # body else body)"

definition fmtDuration :: "duration \<Rightarrow> string" where
  "fmtDuration d = durationString (roundDuration d (10 * 1000))"

section \<open>Lemmas\<close>

lemma dur_range: "minDuration \<le> dur d \<and> dur d \<le> maxDuration"
  using sint_greater_eq [of "nanos d"] sint_less [of "nanos d"]
  by (simp add: dur_def minDuration_def maxDuration_def)

lemma dur_of: "minDuration \<le> i \<Longrightarrow> i \<le> maxDuration \<Longrightarrow> dur (duration_of i) = i"
  by (simp add: dur_def duration_of_def minDuration_def maxDuration_def sint_sbintrunc' signed_take_bit_int_eq_self)

text \<open>Rounding half up, for the magnitude of a duration.\<close>

lemma round_half_up:
  fixes n :: int
  shows "(n + 5000) div 10000 * 10000 =
    (if 2 * (n mod 10000) < 10000 then n - n mod 10000 else n + 10000 - n mod 10000)"
proof -
  define k q where "k = n div 10000" and "q = n mod 10000"
  have q: "0 \<le> q" "q < 10000" and n: "n = 10000 * k + q" by (simp_all add: k_def q_def)
  have "(n + 5000) div 10000 = k + (q + 5000) div 10000" unfolding n by simp
  moreover have "(q + 5000) div 10000 = (if q < 5000 then 0 else 1)"
    using q by (auto simp: div_pos_pos_trivial intro!: int_div_pos_eq [of _ _ _ "q - 5000"])
  ultimately show ?thesis using q n by (simp add: q_def [symmetric])
qed

section \<open>Properties\<close>

text \<open>
  C29: the three numbers of the latency report: with at least one measurement, the minimum and the
  maximum are measurements that bound all others, and the median is a measurement that at least
  half of them do not exceed and at least half are not below. The measurements themselves are only
  reordered.
\<close>

theorem durationStats_sound:
  "case durationStats ds of
     None \<Rightarrow> ds = []
   | Some (median, mn, mx) \<Rightarrow>
       {median, mn, mx} \<subseteq> set ds \<and> list_all (\<lambda>d. mn \<le> d \<and> d \<le> mx) ds \<and>
       length ds < 2 * length (filter (\<lambda>d. d \<le> median) ds) \<and>
       length ds \<le> 2 * length (filter (\<lambda>d. median \<le> d) ds)"
proof (cases "ds = []")
  case True
  then show ?thesis by (simp add: durationStats_def)
next
  case False
  let ?s = "sort ds" and ?n = "length ds"
  let ?m = "?n div 2"
  from False have n: "0 < ?n" by simp
  have m: "?m < ?n" using n by simp
  have st: "durationStats ds = Some (?s ! ?m, ?s ! 0, ?s ! (?n - 1))"
  proof -
    have "sort ds \<noteq> []" using False by (metis length_sort length_0_conv)
    then show ?thesis by (simp only: durationStats_def Let_def if_False length_sort)
  qed
  have mem: "?s ! i \<in> set ds" if "i < ?n" for i
    using nth_mem [of i ?s] that by simp
  have sorted: "?s ! i \<le> ?s ! j" if "i \<le> j" "j < ?n" for i j
    using that by (simp add: sorted_nth_mono)
  have bounds: "?s ! 0 \<le> d \<and> d \<le> ?s ! (?n - 1)" if "d \<in> set ds" for d
  proof -
    from that have "d \<in> set ?s" by simp
    then obtain i where "i < ?n" "?s ! i = d" by (metis in_set_conv_nth length_sort)
    with sorted [of 0 i] sorted [of i "?n - 1"] show ?thesis by auto
  qed
  have cnt: "length (filter P ds) = length (filter P ?s)" for P
    by (metis mset_filter mset_sort size_mset)
  have le: "Suc ?m \<le> length (filter (\<lambda>d. d \<le> ?s ! ?m) ds)"
  proof -
    have "d \<le> ?s ! ?m" if "d \<in> set (take (Suc ?m) ?s)" for d
    proof -
      from that obtain i where "i \<le> ?m" "?s ! i = d" by (auto simp: in_set_conv_nth less_Suc_eq_le)
      with sorted [OF _ m, of i] show ?thesis by simp
    qed
    then have "filter (\<lambda>d. d \<le> ?s ! ?m) (take (Suc ?m) ?s) = take (Suc ?m) ?s"
      by (simp add: filter_id_conv)
    then have "Suc ?m \<le> length (filter (\<lambda>d. d \<le> ?s ! ?m) (take (Suc ?m) ?s @ drop (Suc ?m) ?s))"
      using m by (simp only: filter_append length_append) simp
    then show ?thesis by (simp only: append_take_drop_id cnt)
  qed
  have ge: "?n - ?m \<le> length (filter (\<lambda>d. ?s ! ?m \<le> d) ds)"
  proof -
    have "?s ! ?m \<le> d" if "d \<in> set (drop ?m ?s)" for d
    proof -
      from that obtain i where i: "i < ?n - ?m" "?s ! (?m + i) = d" by (auto simp: in_set_conv_nth)
      then have "?m + i < ?n" by linarith
      with sorted [of ?m "?m + i"] i(2) show ?thesis by simp
    qed
    then have "filter (\<lambda>d. ?s ! ?m \<le> d) (drop ?m ?s) = drop ?m ?s"
      by (simp add: filter_id_conv)
    then have "?n - ?m \<le> length (filter (\<lambda>d. ?s ! ?m \<le> d) (take ?m ?s @ drop ?m ?s))"
      by (simp only: filter_append length_append) simp
    then show ?thesis by (simp only: append_take_drop_id cnt)
  qed
  show ?thesis
    unfolding st option.case prod.case list_all_iff
    using mem [OF m] mem [of 0] mem [of "?n - 1"] bounds le ge n m by (intro conjI ballI) auto
qed


lemma scanSettings_map_of:
  "scanSettings settings =
     (case map_of (rev settings) ''vcs.revision'' of None \<Rightarrow> [] | Some r \<Rightarrow> r,
      map_of (rev settings) ''vcs.modified'' = Some ''true'')"
  by (induction settings rule: rev_induct) (auto simp: scanSettings_def)

text \<open>
  The reported commit is the first twelve characters of the last \<^verbatim>\<open>vcs.revision\<close> setting, marked
  when the last \<^verbatim>\<open>vcs.modified\<close> setting is true; without a revision it is unknown, whatever else the
  build settings say.
\<close>

lemma buildCommit_sound:
  "buildCommit info =
     (case info of
        None \<Rightarrow> ''unknown''
      | Some settings \<Rightarrow>
          (case map_of (rev settings) ''vcs.revision'' of
             None \<Rightarrow> ''unknown''
           | Some r \<Rightarrow>
               if r = '''' then ''unknown''
               else take 12 r @ (if map_of (rev settings) ''vcs.modified'' = Some ''true'' then ''+dirty'' else '''')))"
  by (simp add: buildCommit_def scanSettings_map_of Let_def split: option.split)

end
