(* ===== verification/GoFlag.thy ===== *)
theory GoFlag
  imports Prelude
begin

text \<open>
  Command-line flags as Go's \<^verbatim>\<open>flag\<close> package parses them, for a \<^verbatim>\<open>FlagSet\<close> that has string flags only,
  which is what \<^verbatim>\<open>main.go\<close> defines. \<open>parseOne\<close> is \<^verbatim>\<open>FlagSet.parseOne\<close>; \<open>parseFlags\<close> is the loop of
  \<^verbatim>\<open>FlagSet.Parse\<close>, whose outcome tells the way the process goes on: the values of the flags and the
  remaining arguments, or the error under which \<^verbatim>\<open>ExitOnError\<close> leaves.
\<close>

datatype flag_error = ErrHelp | FlagErr string

datatype one_flag = NoFlag "string list" | SeenFlag string string "string list" | BadFlag flag_error

text \<open>The first equals sign after position 0 splits a flag into its name and value.\<close>

fun splitEq :: "string \<Rightarrow> string \<times> string option" where
  "splitEq [] = ([], None)"
| "splitEq (c # cs) = (if c = CHR ''='' then ([], Some cs) else (case splitEq cs of (n, v) \<Rightarrow> (c # n, v)))"

definition splitFlag :: "string \<Rightarrow> string \<times> string option" where
  "splitFlag name = (case name of [] \<Rightarrow> ([], None) | c # cs \<Rightarrow> (case splitEq cs of (n, v) \<Rightarrow> (c # n, v)))"

definition flagName :: "string list \<Rightarrow> string \<Rightarrow> string list \<Rightarrow> one_flag" where
  "flagName formal flag rest =
     (case splitFlag flag of
        (name, value) \<Rightarrow>
          if name \<notin> set formal then
            (if name = ''help'' \<or> name = ''h'' then BadFlag ErrHelp
             else BadFlag (FlagErr (''flag provided but not defined: -'' @ name)))
          else
            (case (value, rest) of
               (Some v, _) \<Rightarrow> SeenFlag name v rest
             | (None, v # rest') \<Rightarrow> SeenFlag name v rest'
             | (None, []) \<Rightarrow> BadFlag (FlagErr (''flag needs an argument: -'' @ name))))"

definition parseOne :: "string list \<Rightarrow> string list \<Rightarrow> one_flag" where
  "parseOne formal args =
     (case args of
        [] \<Rightarrow> NoFlag []
      | s # rest \<Rightarrow>
          if length s < 2 \<or> hd s \<noteq> CHR ''-'' then NoFlag args
          else if s = ''--'' then NoFlag rest
          else
            (let name = (if s ! 1 = CHR ''-'' then drop 2 s else drop 1 s) in
             if name = [] \<or> hd name = CHR ''-'' \<or> hd name = CHR ''='' then BadFlag (FlagErr (''bad flag syntax: '' @ s))
             else flagName formal name rest))"

lemma flagName_shorter: "flagName formal flag rest = SeenFlag n v rest' \<Longrightarrow> length rest' \<le> length rest"
  by (auto simp: flagName_def split: prod.splits if_splits option.splits list.splits)

lemma parseOne_shorter: "parseOne formal args = SeenFlag n v rest \<Longrightarrow> length rest < length args"
  using flagName_shorter by (fastforce simp: parseOne_def Let_def split: list.splits if_splits)

text \<open>The values are a function from flag names; a flag given twice has its last value.\<close>

function parseFlags ::
    "string list \<Rightarrow> string list \<Rightarrow> (string \<Rightarrow> string) \<Rightarrow> flag_error + (string \<Rightarrow> string) \<times> string list" where
  "parseFlags formal args vals =
     (case parseOne formal args of
        NoFlag rest \<Rightarrow> Inr (vals, rest)
      | SeenFlag n v rest \<Rightarrow> parseFlags formal rest (vals(n := v))
      | BadFlag e \<Rightarrow> Inl e)"
  by pat_completeness auto
termination
  by (relation "measure (\<lambda>(formal, args, vals). length args)") (auto simp: parseOne_shorter)

declare parseFlags.simps [simp del]

section \<open>Every way to write a flag\<close>

text \<open>One or two minus signs, the value after an equals sign or in the next argument.\<close>

datatype flag_style = Style (dashes2: bool) (with_equals: bool)

definition writeFlag :: "flag_style \<Rightarrow> string \<Rightarrow> string \<Rightarrow> string list" where
  "writeFlag st n v =
     (let d = (if dashes2 st then ''--'' else ''-'')
      in if with_equals st then [d @ n @ ''='' @ v] else [d @ n, v])"

type_synonym flag_use = "flag_style \<times> string \<times> string"

definition writeFlags :: "flag_use list \<Rightarrow> string list" where
  "writeFlags fs = concat (map (\<lambda>(st, n, v). writeFlag st n v) fs)"

definition setFlag :: "flag_use \<Rightarrow> (string \<Rightarrow> string) \<Rightarrow> string \<Rightarrow> string" where
  "setFlag f vals = (case f of (_, n, v) \<Rightarrow> vals(n := v))"

text \<open>A name that can be written: not empty, without an equals sign, not starting with a minus.\<close>

definition flag_name :: "string \<Rightarrow> bool" where
  "flag_name n \<longleftrightarrow> n \<noteq> [] \<and> CHR ''='' \<notin> set n \<and> hd n \<noteq> CHR ''-''"

text \<open>Arguments at which parsing stops, and what it leaves.\<close>

fun flags_end :: "string list \<Rightarrow> bool" where
  "flags_end [] = True"
| "flags_end (s # rest) = (length s < 2 \<or> hd s \<noteq> CHR ''-'' \<or> s = ''--'')"

definition flags_rest :: "string list \<Rightarrow> string list" where
  "flags_rest args = (case args of s # rest \<Rightarrow> (if s = ''--'' then rest else args) | [] \<Rightarrow> [])"

lemma splitEq_plain: "CHR ''='' \<notin> set n \<Longrightarrow> splitEq n = (n, None)"
  by (induction n) auto

lemma splitEq_value: "CHR ''='' \<notin> set n \<Longrightarrow> splitEq (n @ CHR ''='' # v) = (n, Some v)"
  by (induction n) auto

lemma splitFlag_plain: "flag_name n \<Longrightarrow> splitFlag n = (n, None)"
  by (cases n) (auto simp: flag_name_def splitFlag_def splitEq_plain)

lemma splitFlag_value: "flag_name n \<Longrightarrow> splitFlag (n @ CHR ''='' # v) = (n, Some v)"
  by (cases n) (auto simp: flag_name_def splitFlag_def splitEq_value)

lemma parseOne_dashes:
  assumes "flag_name n" and "d = ''-'' \<or> d = ''--''"
  shows "parseOne formal ((d @ n @ x) # rest) = flagName formal (n @ x) rest"
proof -
  obtain c cs where n: "n = c # cs" using assms(1) by (cases n) (auto simp: flag_name_def)
  with assms show ?thesis by (auto simp: parseOne_def flag_name_def Let_def)
qed

lemma parseOne_writeFlag:
  assumes "flag_name n" and "n \<in> set formal"
  shows "parseOne formal (writeFlag st n v @ rest) = SeenFlag n v rest"
proof -
  define d where "d = (if dashes2 st then ''--'' else ''-'')"
  have d: "d = ''-'' \<or> d = ''--''" by (simp add: d_def)
  note one = parseOne_dashes [OF assms(1) d]
  show ?thesis
  proof (cases "with_equals st")
    case True
    then have "writeFlag st n v @ rest = (d @ n @ CHR ''='' # v) # rest"
      by (simp add: writeFlag_def d_def Let_def)
    with assms show ?thesis by (simp add: one flagName_def splitFlag_value)
  next
    case False
    then have "writeFlag st n v @ rest = (d @ n @ []) # v # rest"
      by (simp add: writeFlag_def d_def Let_def)
    with assms show ?thesis by (simp only: one) (simp add: flagName_def splitFlag_plain)
  qed
qed

lemma parseOne_end: "flags_end args \<Longrightarrow> parseOne formal args = NoFlag (flags_rest args)"
  by (cases args) (auto simp: parseOne_def flags_rest_def)

definition known_flag :: "string list \<Rightarrow> flag_use \<Rightarrow> bool" where
  "known_flag formal f = (case f of (_, n, _) \<Rightarrow> flag_name n \<and> n \<in> set formal)"

lemma parseFlags_written:
  assumes "list_all (known_flag formal) fs" and "flags_end rest"
  shows "parseFlags formal (writeFlags fs @ rest) vals = Inr (fold setFlag fs vals, flags_rest rest)"
  using assms(1)
proof (induction fs arbitrary: vals)
  case Nil
  then show ?case by (subst parseFlags.simps) (simp add: writeFlags_def parseOne_end [OF assms(2)])
next
  case (Cons f fs)
  obtain st n v where f: "f = (st, n, v)" by (cases f)
  with Cons.prems have "parseOne formal (writeFlag st n v @ writeFlags fs @ rest) = SeenFlag n v (writeFlags fs @ rest)"
    by (simp add: parseOne_writeFlag known_flag_def)
  moreover have "writeFlags (f # fs) @ rest = writeFlag st n v @ writeFlags fs @ rest"
    by (simp add: writeFlags_def f)
  moreover have "parseFlags formal (writeFlags fs @ rest) (setFlag f vals) =
      Inr (fold setFlag fs (setFlag f vals), flags_rest rest)"
    using Cons by simp
  ultimately show ?case by (subst parseFlags.simps) (simp add: setFlag_def f)
qed

end
