(* ===== verification/Cli.thy ===== *)
theory Cli
  imports Cert Report GoFlag
begin

text \<open>
  The commands (\<^verbatim>\<open>main.go\<close>) and the report header (\<^verbatim>\<open>report.go\<close>) over an arbitrary
  backend. A process is the backend's world, what was printed so far and the number of clock
  readings. Two ways out of a command need to be told apart: a panic unwinds the stack and runs the
  deferred calls, \<^verbatim>\<open>os.Exit\<close> (and so \<^verbatim>\<open>log.Fatalf\<close> and a flag error) ends the process on
  the spot.
\<close>

section \<open>Processes\<close>

datatype log_arg = LogStr string | LogErr go_err

text \<open>\<open>LogMsg\<close> is a line of the \<^verbatim>\<open>log\<close> package: its format and arguments.\<close>

datatype out = Stdout string | Stderr string | LogMsg string "log_arg list"

record 'w proc =
  world :: 'w
  printed :: "out list"
  ticks :: nat

datatype 'a ctl = Next 'a | Exited nat | Crashed string

type_synonym ('w, 'a) cmd = "'w proc \<Rightarrow> 'a ctl \<times> 'w proc"

definition cret :: "'a \<Rightarrow> ('w, 'a) cmd" where
  "cret x p = (Next x, p)"

definition cbind :: "('w, 'a) cmd \<Rightarrow> ('a \<Rightarrow> ('w, 'b) cmd) \<Rightarrow> ('w, 'b) cmd" where
  "cbind f g p =
     (case f p of
        (Next x, p1) \<Rightarrow> g x p1
      | (Exited n, p1) \<Rightarrow> (Exited n, p1)
      | (Crashed m, p1) \<Rightarrow> (Crashed m, p1))"

definition os_exit :: "nat \<Rightarrow> ('w, 'a) cmd" where
  "os_exit n p = (Exited n, p)"

definition crash :: "string \<Rightarrow> ('w, 'a) cmd" where
  "crash m p = (Crashed m, p)"

definition emit :: "out \<Rightarrow> ('w, unit) cmd" where
  "emit o' p = (Next (), p\<lparr>printed := printed p @ [o']\<rparr>)"

definition fatal :: "string \<Rightarrow> log_arg list \<Rightarrow> ('w, 'a) cmd" where
  "fatal f args = cbind (emit (LogMsg f args)) (\<lambda>_. os_exit 1)"

text \<open>A call into the rest of the program; its error is a value here.\<close>

definition on_world :: "('w, 'a) go \<Rightarrow> ('w, go_err + 'a) cmd" where
  "on_world f p =
     (case f (world p) of
        (Ret x, w) \<Rightarrow> (Next (Inr x), p\<lparr>world := w\<rparr>)
      | (Fail e, w) \<Rightarrow> (Next (Inl e), p\<lparr>world := w\<rparr>)
      | (Panic m, w) \<Rightarrow> (Crashed m, p\<lparr>world := w\<rparr>))"

definition cdeferred :: "('w, unit) cmd \<Rightarrow> ('w, 'a) cmd \<Rightarrow> ('w, 'a) cmd" where
  "cdeferred d f p =
     (case f p of
        (Exited n, p1) \<Rightarrow> (Exited n, p1)
      | (c, p1) \<Rightarrow>
          (case d p1 of
             (Next _, p2) \<Rightarrow> (c, p2)
           | (Exited n, p2) \<Rightarrow> (Exited n, p2)
           | (Crashed m, p2) \<Rightarrow> (Crashed m, p2)))"

text \<open>The exit status the shell sees.\<close>

fun status :: "'a ctl \<Rightarrow> nat" where
  "status (Next x) = 0"
| "status (Exited n) = n"
| "status (Crashed m) = 2"

text \<open>
  What the process finds around it: the Go runtime's description of itself, \<^verbatim>\<open>osVersion\<close> of the platform,
  the random UUID \<^verbatim>\<open>uuid.NewString\<close> gives, the monotonic clock in nanoseconds and SHA-256.
\<close>

record 'w platform =
  goVersion :: string
  goOS :: string
  goArch :: string
  buildInfo :: "(string \<times> string) list option"
  osVersion :: "'w \<Rightarrow> string \<times> 'w"
  newUUID :: string
  clock :: "nat \<Rightarrow> int"
  sha256_Sum :: "bytes \<Rightarrow> bytes"

definition time_now :: "('w, 'x) platform_scheme \<Rightarrow> ('w, int) cmd" where
  "time_now pf p = (Next (clock pf (ticks p)), p\<lparr>ticks := Suc (ticks p)\<rparr>)"

text \<open>\<^verbatim>\<open>time.Since\<close> saturates at the ends of the 64-bit range.\<close>

definition time_since :: "('w, 'x) platform_scheme \<Rightarrow> int \<Rightarrow> ('w, duration) cmd" where
  "time_since pf start =
     cbind (time_now pf) (\<lambda>now. cret (duration_of (max minDuration (min maxDuration (now - start)))))"

section \<open>The report header\<close>

definition nl :: string where "nl = [char_of (10 :: nat)]"

text \<open>\<^verbatim>\<open>%-8s\<close> of an ASCII string.\<close>

definition pad8 :: "string \<Rightarrow> string" where
  "pad8 s = s @ replicate (8 - length s) (CHR '' '')"

definition headerLine :: "string \<Rightarrow> string \<Rightarrow> ('w, unit) cmd" where
  "headerLine label v = emit (Stdout (''  '' @ pad8 label @ '' '' @ v @ nl))"

definition printReportHeader :: "('w, 'x) platform_scheme \<Rightarrow> ('w, 's) backend \<Rightarrow> ('w, unit) cmd" where
  "printReportHeader pf bk =
     cbind (emit (Stdout (''key-protecc certtest'' @ nl))) (\<lambda>_.
     cbind (headerLine ''commit:'' (buildCommit (buildInfo pf))) (\<lambda>_.
     cbind (headerLine ''go:'' (goVersion pf @ '' '' @ goOS pf @ ''/'' @ goArch pf)) (\<lambda>_.
     cbind (\<lambda>p. case osVersion pf (world p) of (v, w) \<Rightarrow> (Next v, p\<lparr>world := w\<rparr>)) (\<lambda>v.
     cbind (headerLine ''os:'' v) (\<lambda>_.
     headerLine ''backend:'' (bk_name bk))))))"

section \<open>The commands\<close>

definition usageText :: "string \<Rightarrow> string" where
  "usageText argv0 = concat (map (\<lambda>l. l @ nl)
     [''usage: '' @ argv0 @ '' <command> [flags]'',
      '''',
      ''commands:'',
      ''  create   [-name NAME]   create a TPM-backed key (random uuid name if omitted)'',
      ''  delete   -name NAME     delete a TPM-backed key by name'',
      ''  certtest                create a throwaway key, build a root+leaf certificate,'',
      ''                          verify them against each other, then delete the key''])"

definition usage :: "string \<Rightarrow> ('w, unit) cmd" where
  "usage argv0 = emit (Stderr (usageText argv0))"

text \<open>
  \<^verbatim>\<open>fs.Parse(args)\<close> of a set made with \<^verbatim>\<open>flag.ExitOnError\<close>: the values of the flags. A set is its
  name and its string flags with their descriptions; every default is the empty string.
\<close>

definition flagUsage :: "string \<Rightarrow> (string \<times> string) list \<Rightarrow> string" where
  "flagUsage fset formal =
     ''Usage of '' @ fset @ '':'' @ nl @
     concat (map (\<lambda>(n, what). ''  -'' @ n @ '' string'' @ nl @ ''    '' @ [char_of (9 :: nat)] @ what @ nl) formal)"

definition flagParse :: "string \<Rightarrow> (string \<times> string) list \<Rightarrow> string list \<Rightarrow> ('w, string \<Rightarrow> string) cmd" where
  "flagParse fset formal args =
     (case parseFlags (map fst formal) args (\<lambda>_. []) of
        Inr (vals, _) \<Rightarrow> cret vals
      | Inl ErrHelp \<Rightarrow> cbind (emit (Stderr (flagUsage fset formal))) (\<lambda>_. os_exit 0)
      | Inl (FlagErr m) \<Rightarrow> cbind (emit (Stderr (m @ nl @ flagUsage fset formal))) (\<lambda>_. os_exit 2))"

text \<open>\<^verbatim>\<open>defer signer.Close()\<close>; its error is dropped.\<close>

definition closeSigner :: "('w, 's) backend \<Rightarrow> 's \<Rightarrow> ('w, unit) cmd" where
  "closeSigner bk s =
     cbind (on_world (\<lambda>w. case bk_close bk (s, w) of (r, _, w') \<Rightarrow> (r, w'))) (\<lambda>_. cret ())"

definition runCreate :: "('w, 'x) platform_scheme \<Rightarrow> ('w, 's) backend \<Rightarrow> string list \<Rightarrow> ('w, unit) cmd" where
  "runCreate pf bk args =
     cbind (flagParse ''create'' [(''name'', ''key name (defaults to a random uuid)'')] args) (\<lambda>vals.
     let name = (if vals ''name'' = [] then newUUID pf else vals ''name'') in
     cbind (on_world (bk_create bk name)) (\<lambda>res.
     case res of
       Inl err \<Rightarrow> fatal ''create key: %v'' [LogErr err]
     | Inr signer \<Rightarrow> cdeferred (closeSigner bk signer) (emit (LogMsg ''created key %q'' [LogStr name]))))"

definition runDelete :: "('w, 's) backend \<Rightarrow> string list \<Rightarrow> ('w, unit) cmd" where
  "runDelete bk args =
     cbind (flagParse ''delete'' [(''name'', ''key name to delete (required)'')] args) (\<lambda>vals.
     if vals ''name'' = [] then fatal ''delete: -name is required'' []
     else
       cbind (on_world (bk_delete bk (vals ''name''))) (\<lambda>res.
       case res of
         Inl err \<Rightarrow> fatal ''delete key: %v'' [LogErr err]
       | Inr _ \<Rightarrow> emit (LogMsg ''deleted key %q'' [LogStr (vals ''name'')])))"

definition signOps :: nat where "signOps = 20"

fun signLoop ::
    "('w, 'x) platform_scheme \<Rightarrow> ('w, 's) backend \<Rightarrow> 's \<Rightarrow> bytes \<Rightarrow> nat \<Rightarrow> duration list \<Rightarrow> ('w, duration list) cmd" where
  "signLoop pf bk s digest 0 durations = cret durations"
| "signLoop pf bk s digest (Suc n) durations =
     cbind (time_now pf) (\<lambda>start.
     cbind (on_world (bk_sign bk s digest (HashOpts SHA256))) (\<lambda>res.
     case res of
       Inl err \<Rightarrow> fatal ''sign loop: %v'' [LogErr err]
     | Inr _ \<Rightarrow> cbind (time_since pf start) (\<lambda>d. signLoop pf bk s digest n (durations @ [d]))))"

text \<open>The deferred closure of \<^verbatim>\<open>certtest\<close>: close the signer, then delete the key.\<close>

definition dropThrowaway :: "('w, 's) backend \<Rightarrow> string \<Rightarrow> 's \<Rightarrow> ('w, unit) cmd" where
  "dropThrowaway bk name s =
     cbind (closeSigner bk s) (\<lambda>_.
     cbind (on_world (bk_delete bk name)) (\<lambda>res.
     case res of
       Inl err \<Rightarrow> emit (LogMsg ''warning: delete throwaway key %q: %v'' [LogStr name, LogErr err])
     | Inr _ \<Rightarrow> cret ()))"

definition reportStats :: "duration list \<Rightarrow> ('w, unit) cmd" where
  "reportStats durations =
     (case durationStats durations of
        None \<Rightarrow> crash ''index out of range [0] with length 0''
      | Some (median, mn, mx) \<Rightarrow>
          cbind (emit (Stdout (''  sign x'' @ dec_digits signOps @ '':   median '' @ fmtDuration median @
            ''  min '' @ fmtDuration mn @ ''  max '' @ fmtDuration mx @ nl))) (\<lambda>_.
          emit (Stdout (nl @ ''OK: root and leaf certificates verified successfully'' @ nl))))"

text \<open>\<^verbatim>\<open>certtest\<close> between the creation of the key and its deferred deletion.\<close>

definition certtestBody ::
    "('w, 'x) platform_scheme \<Rightarrow> cert_lib \<Rightarrow> ('w, 's) backend \<Rightarrow> 's \<Rightarrow> duration \<Rightarrow> ('w, unit) cmd" where
  "certtestBody pf cl bk signer createDuration =
     cbind (emit (Stdout (''  '' @ pad8 ''key:'' @ '' '' @ keyDescription (bk_public bk signer) @ nl @ nl))) (\<lambda>_.
     cbind (emit (Stdout (''  create key: '' @ fmtDuration createDuration @ nl))) (\<lambda>_.
     cbind (time_now pf) (\<lambda>start.
     cbind (on_world (runCertTest cl bk signer)) (\<lambda>res.
     case res of
       Inl err \<Rightarrow> fatal ''certtest: %v'' [LogErr err]
     | Inr _ \<Rightarrow>
         cbind (time_since pf start) (\<lambda>d.
         cbind (emit (Stdout (''  certtest:   '' @ fmtDuration d @ '' (root + leaf signed, chain verified)'' @ nl))) (\<lambda>_.
         cbind (signLoop pf bk signer (sha256_Sum pf (bytes_of_string ''key-protecc certtest'')) signOps [])
           reportStats))))))"

definition runCertTestCmd ::
    "('w, 'x) platform_scheme \<Rightarrow> cert_lib \<Rightarrow> ('w, 's) backend \<Rightarrow> string list \<Rightarrow> ('w, unit) cmd" where
  "runCertTestCmd pf cl bk args =
     cbind (flagParse ''certtest'' [] args) (\<lambda>_.
     cbind (printReportHeader pf bk) (\<lambda>_.
     let name = newUUID pf in
     cbind (time_now pf) (\<lambda>start.
     cbind (on_world (bk_create bk name)) (\<lambda>res.
     case res of
       Inl err \<Rightarrow> fatal ''create key: %v'' [LogErr err]
     | Inr signer \<Rightarrow>
         cbind (time_since pf start) (\<lambda>createDuration.
         cdeferred (dropThrowaway bk name signer) (certtestBody pf cl bk signer createDuration))))))"

definition main :: "('w, 'x) platform_scheme \<Rightarrow> cert_lib \<Rightarrow> ('w, 's) backend \<Rightarrow> string list \<Rightarrow> ('w, unit) cmd" where
  "main pf cl bk args =
     (case args of
        argv0 # command # rest \<Rightarrow>
          if command = ''create'' then runCreate pf bk rest
          else if command = ''delete'' then runDelete bk rest
          else if command = ''certtest'' then runCertTestCmd pf cl bk rest
          else cbind (usage argv0) (\<lambda>_. os_exit 2)
      | [argv0] \<Rightarrow> cbind (usage argv0) (\<lambda>_. os_exit 2)
      | [] \<Rightarrow> crash ''index out of range [0] with length 0'')"

section \<open>Ownership\<close>

text \<open>
  The ledger judgement for commands: from the resources \<open>M\<close> the command ends with \<open>Q c\<close>, where \<open>c\<close> is the
  way it ended.
\<close>

definition cmoves :: "('w \<Rightarrow> 'r event list) \<Rightarrow> 'r multiset \<Rightarrow> ('w, 'a) cmd \<Rightarrow> ('a ctl \<Rightarrow> 'r multiset) \<Rightarrow> bool" where
  "cmoves lg M f Q \<longleftrightarrow>
     (\<forall>p. \<exists>es. lg (world (snd (f p))) = lg (world p) @ es \<and>
        (\<forall>F. run_log (M + F) es = Some (Q (fst (f p)) + F)))"

lemma cmovesI:
  "(\<And>p. \<exists>es. lg (world (snd (f p))) = lg (world p) @ es \<and> (\<forall>F. run_log (M + F) es = Some (Q (fst (f p)) + F)))
   \<Longrightarrow> cmoves lg M f Q"
  by (simp add: cmoves_def)

lemma cmovesD:
  assumes "cmoves lg M f Q" and "f p = (c, p')"
  obtains es where "lg (world p') = lg (world p) @ es" and "\<And>F. run_log (M + F) es = Some (Q c + F)"
  using assms by (fastforce simp: cmoves_def dest!: spec [of _ p])

lemma cmoves_replays: "cmoves lg {#} f Q \<Longrightarrow> f p = (c, p') \<Longrightarrow> replays lg (world p) (world p') F (F + Q c)"
  by (erule (1) cmovesD) (metis add.commute add.left_neutral)

lemma cmoves_quiet:
  assumes "\<And>p. world (snd (f p)) = world p" and "\<And>p. Q (fst (f p)) = M"
  shows "cmoves lg M f Q"
  by (rule cmovesI) (simp add: assms)

lemma cmoves_bind:
  assumes f: "cmoves lg M f R" and g: "\<And>x. cmoves lg (R (Next x)) (g x) Q"
    and "\<And>n. R (Exited n) = Q (Exited n)" and "\<And>m. R (Crashed m) = Q (Crashed m)"
  shows "cmoves lg M (cbind f g) Q"
proof (rule cmovesI)
  fix p
  obtain c p1 where fp: "f p = (c, p1)" by fastforce
  from cmovesD [OF f fp] obtain es where
    es: "lg (world p1) = lg (world p) @ es" "\<And>F. run_log (M + F) es = Some (R c + F)" by metis
  show "\<exists>es. lg (world (snd (cbind f g p))) = lg (world p) @ es \<and>
      (\<forall>F. run_log (M + F) es = Some (Q (fst (cbind f g p)) + F))"
  proof (cases c)
    case (Next x)
    obtain c2 p2 where gp: "g x p1 = (c2, p2)" by fastforce
    from cmovesD [OF g gp] obtain es2 where
      "lg (world p2) = lg (world p1) @ es2" "\<And>F. run_log (R (Next x) + F) es2 = Some (Q c2 + F)" by metis
    with es run_log_seq [OF es(2) [unfolded Next]] show ?thesis
      by (intro exI [of _ "es @ es2"]) (simp add: cbind_def fp Next gp)
  qed (use es assms(3,4) fp in \<open>auto simp: cbind_def\<close>)
qed

lemma cmoves_deferred:
  assumes f: "cmoves lg M f R" and d: "\<And>c. (\<And>n. c \<noteq> Exited n) \<Longrightarrow> cmoves lg (R c) d (\<lambda>_. Q c)"
    and "\<And>n. R (Exited n) = Q (Exited n)" and Q: "\<And>c c'. (\<And>n. c \<noteq> Exited n) \<Longrightarrow> (\<And>n. c' \<noteq> Exited n) \<Longrightarrow> Q c = Q c'"
    and ex: "\<And>p n. fst (d p) \<noteq> Exited n"
  shows "cmoves lg M (cdeferred d f) Q"
proof (rule cmovesI)
  fix p
  obtain c p1 where fp: "f p = (c, p1)" by fastforce
  obtain c2 p2 where dp: "d p1 = (c2, p2)" by fastforce
  from cmovesD [OF f fp] obtain es where
    es: "lg (world p1) = lg (world p) @ es" "\<And>F. run_log (M + F) es = Some (R c + F)" by metis
  show "\<exists>es. lg (world (snd (cdeferred d f p))) = lg (world p) @ es \<and>
      (\<forall>F. run_log (M + F) es = Some (Q (fst (cdeferred d f p)) + F))"
  proof (cases "\<exists>n. c = Exited n")
    case True
    with es fp assms(3) show ?thesis by (auto simp: cdeferred_def)
  next
    case False
    then have c: "\<And>n. c \<noteq> Exited n" by blast
    from cmovesD [OF d [OF c] dp] obtain es2 where
      es2: "lg (world p2) = lg (world p1) @ es2" "\<And>F. run_log (R c + F) es2 = Some (Q c + F)" by metis
    have r: "snd (cdeferred d f p) = p2 \<and> (\<forall>n. fst (cdeferred d f p) \<noteq> Exited n)"
      using c ex [of p1] by (auto simp: cdeferred_def fp dp split: ctl.split)
    then have "Q (fst (cdeferred d f p)) = Q c" using Q c by metis
    with r es es2(1) run_log_seq [OF es(2) es2(2)] show ?thesis
      by (intro exI [of _ "es @ es2"]) simp
  qed
qed

lemma cmoves_on_world:
  assumes "moves lg (\<lambda>_. M) f (\<lambda>r _. R r)"
  shows "cmoves lg M (on_world f) (\<lambda>c. case c of Next (Inr x) \<Rightarrow> R (Ret x) | Next (Inl e) \<Rightarrow> R (Fail e) | Crashed m \<Rightarrow> R (Panic m)
    | Exited n \<Rightarrow> M)"
proof (rule cmovesI)
  fix p :: "'a proc"
  obtain r w' where f: "f (world p) = (r, w')" by fastforce
  from movesD [OF assms f] obtain es where "lg w' = lg (world p) @ es" "\<And>F. run_log (M + F) es = Some (R r + F)"
    by metis
  then show "\<exists>es. lg (world (snd (on_world f p))) = lg (world p) @ es \<and> (\<forall>F. run_log (M + F) es = Some (
      (case fst (on_world f p) of Next (Inr x) \<Rightarrow> R (Ret x) | Next (Inl e) \<Rightarrow> R (Fail e) | Crashed m \<Rightarrow> R (Panic m)
        | Exited n \<Rightarrow> M) + F))"
    by (intro exI [of _ es]) (cases r; simp add: on_world_def f)
qed

end
