(* ===== verification/GoTpm.thy ===== *)
theory GoTpm
  imports GoOS GoCrypto
begin

text \<open>
  The interface of \<^verbatim>\<open>github.com/google/go-tpm\<close> as \<^verbatim>\<open>key_linux.go\<close> uses it. The library and the
  device behind it are not part of the repository: \<open>gotpm\<close> is the record of the calls the code
  makes, a parameter of the Linux backend, over a device state \<open>'d\<close> and the library's own types
  \<open>'pub\<close> (\<^verbatim>\<open>TPM2BPublic\<close>) and \<open>'priv\<close> (\<^verbatim>\<open>TPM2BPrivate\<close>). Structures whose fields the source
  writes out are records here; a field the source leaves at its zero value has that value.

  The Linux world is the operating system's state with the device added. The calls are wrapped
  so that the ledger records the connection, every command on it, and every transient object a command
  hands out or \<^verbatim>\<open>FlushContext\<close> takes back.
\<close>

section \<open>Structures the source fills in\<close>

type_synonym tpm_handle = "32 word"
type_synonym tpm_conn = nat

datatype tpm_alg = TPMAlgNull | TPMAlgECC | TPMAlgECDSA | TPMAlgSHA256 | TPMAlgSHA384 | TPMAlgSHA512

datatype tpm_curve = TPMECCNistP256 | TPMECCOther nat

datatype tpm_hierarchy = TPMRHOwner

record named_handle =
  nh_handle :: tpm_handle
  nh_name :: bytes

record tpma_object =
  FixedTPM :: bool
  STClear :: bool
  FixedParent :: bool
  SensitiveDataOrigin :: bool
  UserWithAuth :: bool
  AdminWithPolicy :: bool
  NoDA :: bool
  EncryptedDuplication :: bool
  Restricted :: bool
  Decrypt :: bool
  SignEncrypt :: bool

record tpms_ecc_parms =
  ep_symmetric :: tpm_alg
  ep_scheme :: tpm_alg
  ep_curve :: tpm_curve
  ep_kdf :: tpm_alg

datatype tpmu_parms = TPMUPublicParms tpm_alg tpms_ecc_parms

text \<open>\<open>tp_unique\<close> is the library's union of public identifiers, opaque to the source.\<close>

record tpmt_public =
  tp_type :: tpm_alg
  tp_nameAlg :: tpm_alg
  tp_attrs :: tpma_object
  tp_parms :: tpmu_parms
  tp_unique :: bytes

record tpms_ecc_point =
  pt_x :: bytes
  pt_y :: bytes

datatype tpmt_sig_scheme = TPMTSigScheme tpm_alg tpm_alg

datatype tpmt_tk_hashcheck = NullHashCheck

section \<open>The library and the device\<close>

record ('d, 'pub, 'priv) gotpm =
  linuxtpm_Open :: "string \<Rightarrow> 'd \<Rightarrow> (go_err + tpm_conn) \<times> 'd"
  exec_CreatePrimary :: "tpm_conn \<Rightarrow> tpm_hierarchy \<Rightarrow> 'pub \<Rightarrow> 'd \<Rightarrow> (go_err + named_handle) \<times> 'd"
  exec_Create :: "tpm_conn \<Rightarrow> named_handle \<Rightarrow> 'pub \<Rightarrow> 'd \<Rightarrow> (go_err + 'pub \<times> 'priv) \<times> 'd"
  exec_Load :: "tpm_conn \<Rightarrow> named_handle \<Rightarrow> 'priv \<Rightarrow> 'pub \<Rightarrow> 'd \<Rightarrow> (go_err + named_handle) \<times> 'd"
  exec_Sign :: "tpm_conn \<Rightarrow> named_handle \<Rightarrow> bytes \<Rightarrow> tpmt_sig_scheme \<Rightarrow> tpmt_tk_hashcheck \<Rightarrow> 'd
                  \<Rightarrow> (go_err + bytes) \<times> 'd"
  exec_FlushContext :: "tpm_conn \<Rightarrow> tpm_handle \<Rightarrow> 'd \<Rightarrow> (go_err + unit) \<times> 'd"
  conn_Close :: "tpm_conn \<Rightarrow> 'd \<Rightarrow> (go_err + unit) \<times> 'd"
  New2B :: "tpmt_public \<Rightarrow> 'pub"
  ECCSRKTemplate :: tpmt_public
  Marshal_pub :: "'pub \<Rightarrow> bytes"
  Marshal_priv :: "'priv \<Rightarrow> bytes"
  Unmarshal_pub :: "bytes \<Rightarrow> go_err + 'pub"
  Unmarshal_priv :: "bytes \<Rightarrow> go_err + 'priv"
  pub_Contents :: "'pub \<Rightarrow> go_err + tpmt_public"
  parms_ECCDetail :: "tpmu_parms \<Rightarrow> go_err + tpms_ecc_parms"
  unique_ECC :: "bytes \<Rightarrow> go_err + tpms_ecc_point"
  lib_ECDSAPub :: "tpms_ecc_parms \<Rightarrow> tpms_ecc_point \<Rightarrow> go_err + ecdsa_pub"
  sig_ECDSA :: "bytes \<Rightarrow> go_err + bytes \<times> bytes"

section \<open>The Linux world\<close>

record 'd lx = os +
  tpm_dev :: 'd

text \<open>A call on the device.\<close>

definition on_dev :: "('d \<Rightarrow> (go_err + 'a) \<times> 'd) \<Rightarrow> ('d lx, 'a) go" where
  "on_dev f w =
     (case f (tpm_dev w) of
        (Inl e, d) \<Rightarrow> (Fail e, w\<lparr>tpm_dev := d\<rparr>)
      | (Inr x, d) \<Rightarrow> (Ret x, w\<lparr>tpm_dev := d\<rparr>))"

text \<open>A command on an open connection.\<close>

definition on_conn :: "tpm_conn \<Rightarrow> ('d \<Rightarrow> (go_err + 'a) \<times> 'd) \<Rightarrow> ('d lx, 'a) go" where
  "on_conn c f w = on_dev f (log_ev (Use (TpmConn c)) w)"

text \<open>A transient object that a command returned; handle 0 is no object.\<close>

definition acq_object :: "tpm_conn \<Rightarrow> tpm_handle \<Rightarrow> 'd lx \<Rightarrow> 'd lx" where
  "acq_object c h w = (if h = 0 then w else log_ev (Acq (TpmObject c h)) w)"

text \<open>A command that uses a loaded object.\<close>

definition use_object :: "tpm_conn \<Rightarrow> tpm_handle \<Rightarrow> 'd lx \<Rightarrow> 'd lx" where
  "use_object c h w = (if h = 0 then w else log_ev (Use (TpmObject c h)) w)"

definition tpm_open_dev :: "('d, 'pub, 'priv) gotpm \<Rightarrow> string \<Rightarrow> ('d lx, tpm_conn) go" where
  "tpm_open_dev lib dev =
     gbind (on_dev (linuxtpm_Open lib dev)) (\<lambda>c w. (Ret c, log_ev (Acq (TpmConn c)) w))"

definition tpm_create_primary ::
    "('d, 'pub, 'priv) gotpm \<Rightarrow> tpm_conn \<Rightarrow> tpm_hierarchy \<Rightarrow> 'pub \<Rightarrow> ('d lx, named_handle) go" where
  "tpm_create_primary lib c hier pub =
     gbind (on_conn c (exec_CreatePrimary lib c hier pub))
       (\<lambda>nh w. (Ret nh, acq_object c (nh_handle nh) w))"

definition tpm_create ::
    "('d, 'pub, 'priv) gotpm \<Rightarrow> tpm_conn \<Rightarrow> named_handle \<Rightarrow> 'pub \<Rightarrow> ('d lx, 'pub \<times> 'priv) go" where
  "tpm_create lib c parent pub w =
     on_conn c (exec_Create lib c parent pub) (use_object c (nh_handle parent) w)"

definition tpm_load ::
    "('d, 'pub, 'priv) gotpm \<Rightarrow> tpm_conn \<Rightarrow> named_handle \<Rightarrow> 'priv \<Rightarrow> 'pub \<Rightarrow> ('d lx, named_handle) go" where
  "tpm_load lib c parent priv pub =
     gbind (\<lambda>w. on_conn c (exec_Load lib c parent priv pub) (use_object c (nh_handle parent) w))
       (\<lambda>nh w. (Ret nh, acq_object c (nh_handle nh) w))"

definition tpm_sign ::
    "('d, 'pub, 'priv) gotpm \<Rightarrow> tpm_conn \<Rightarrow> named_handle \<Rightarrow> bytes \<Rightarrow> tpmt_sig_scheme
     \<Rightarrow> tpmt_tk_hashcheck \<Rightarrow> ('d lx, bytes) go" where
  "tpm_sign lib c key digest scheme validation w =
     on_conn c (exec_Sign lib c key digest scheme validation) (use_object c (nh_handle key) w)"

definition tpm_flush_context ::
    "('d, 'pub, 'priv) gotpm \<Rightarrow> tpm_conn \<Rightarrow> tpm_handle \<Rightarrow> ('d lx, unit) go" where
  "tpm_flush_context lib c h w =
     on_conn c (exec_FlushContext lib c h) (log_ev (Rel (TpmObject c h)) w)"

definition tpm_close_conn :: "('d, 'pub, 'priv) gotpm \<Rightarrow> tpm_conn \<Rightarrow> ('d lx, unit) go" where
  "tpm_close_conn lib c w = on_dev (conn_Close lib c) (log_ev (Rel (TpmConn c)) w)"

end
