(* ===== verification/GoOSFacts.thy ===== *)
theory GoOSFacts
  imports GoOS
begin

text \<open>
  What the proofs about the Linux key store use of the operating system: how each call changes
  the directory tree and the file view, the well-formedness of the tree, which calls leave the
  open files and the ledger alone, and Hoare triples for the calls in terms of the file view.
\<close>

section \<open>The file view\<close>

lemma node_at_set_node [simp]: "node_at (set_node p n w) = (node_at w)(p \<mapsto> n)"
  by (auto simp: node_at_def set_node_def update_conv')

lemma node_at_del_node [simp]: "node_at (del_node p w) = (node_at w)(p := None)"
  by (auto simp: node_at_def del_node_def delete_conv')

lemma set_node_fields [simp]:
  "inodes (set_node p n w) = inodes w" "next_ino (set_node p n w) = next_ino w"
  "hist (set_node p n w) = hist w" "fds (set_node p n w) = fds w"
  "ledger_log (set_node p n w) = ledger_log w" "faults (set_node p n w) = faults w"
  "next_fd (set_node p n w) = next_fd w"
  by (simp_all add: set_node_def)

lemma del_node_fields [simp]:
  "inodes (del_node p w) = inodes w" "next_ino (del_node p w) = next_ino w"
  "hist (del_node p w) = hist w" "fds (del_node p w) = fds w"
  "ledger_log (del_node p w) = ledger_log w" "faults (del_node p w) = faults w"
  "next_fd (del_node p w) = next_fd w"
  by (simp_all add: del_node_def)

lemma log_ev_fields [simp]:
  "inodes (log_ev e w) = inodes w" "next_ino (log_ev e w) = next_ino w"
  "hist (log_ev e w) = hist w" "fds (log_ev e w) = fds w" "names (log_ev e w) = names w"
  "ledger_log (log_ev e w) = ledger_log w @ [e]" "faults (log_ev e w) = faults w"
  by (simp_all add: log_ev_def)

lemma record_view_fields [simp]:
  "inodes (record_view w) = inodes w" "next_ino (record_view w) = next_ino w"
  "hist (record_view w) = hist w @ [file_at w]" "fds (record_view w) = fds w"
  "names (record_view w) = names w" "ledger_log (record_view w) = ledger_log w"
  "faults (record_view w) = faults w"
  by (simp_all add: record_view_def)

text \<open>The view depends on the tree and the inodes only.\<close>

lemma node_at_cong: "names w' = names w \<Longrightarrow> node_at w' = node_at w"
  by (rule ext) (simp add: node_at_def)

lemma file_at_cong: "node_at w' = node_at w \<Longrightarrow> inodes w' = inodes w \<Longrightarrow> file_at w' = file_at w"
  by (rule ext) (simp add: file_at_def split: option.split node.split)

lemma views_simps [simp]:
  "node_at (record_view w) = node_at w" "file_at (record_view w) = file_at w"
  "node_at (log_ev e w) = node_at w" "file_at (log_ev e w) = file_at w"
  "node_at (w\<lparr>tick := t\<rparr>) = node_at w" "file_at (w\<lparr>tick := t\<rparr>) = file_at w"
  "node_at (w\<lparr>fds := f\<rparr>) = node_at w" "file_at (w\<lparr>fds := f\<rparr>) = file_at w"
  "node_at (w\<lparr>fds := f, next_fd := n\<rparr>) = node_at w"
  "file_at (w\<lparr>fds := f, next_fd := n\<rparr>) = file_at w"
  "node_at (w\<lparr>inodes := g\<rparr>) = node_at w"
  "node_at (w\<lparr>inodes := g, next_ino := m\<rparr>) = node_at w"
  by (auto simp: fun_eq_iff node_at_def file_at_def split: option.split node.split)

lemma file_at_set_dir: "file_at (set_node p (DirNode m) w) = (file_at w)(p := None)"
  by (rule ext) (simp add: file_at_def split: option.split node.split)

lemma file_at_set_file:
  "inodes w i = Some n \<Longrightarrow> file_at (set_node p (FileNode i) w) = (file_at w)(p \<mapsto> (content n, mode n))"
  by (rule ext) (simp add: file_at_def split: option.split node.split)

lemma file_at_del_node [simp]: "file_at (del_node p w) = (file_at w)(p := None)"
  by (rule ext) (simp add: file_at_def split: option.split node.split)

lemma file_at_None_node: "node_at w p = None \<Longrightarrow> file_at w p = None"
  by (simp add: file_at_def)

lemma file_at_dir: "node_at w p = Some (DirNode m) \<Longrightarrow> file_at w p = None"
  by (simp add: file_at_def)

lemma file_at_file: "node_at w p = Some (FileNode i) \<Longrightarrow> inodes w i = Some n \<Longrightarrow> file_at w p = Some (content n, mode n)"
  by (simp add: file_at_def)

section \<open>Well-formed trees\<close>

text \<open>Every name of a file has an inode, and inode numbers from \<open>next_ino\<close> on are unused.\<close>

definition os_wf :: "'x os_scheme \<Rightarrow> bool" where
  "os_wf w \<longleftrightarrow> (\<forall>p i. node_at w p = Some (FileNode i) \<longrightarrow> i < next_ino w \<and> inodes w i \<noteq> None)"

lemma os_wfD: "os_wf w \<Longrightarrow> node_at w p = Some (FileNode i) \<Longrightarrow> i < next_ino w \<and> inodes w i \<noteq> None"
  by (simp add: os_wf_def)

lemma os_wf_cong:
  "node_at w' = node_at w \<Longrightarrow> inodes w' = inodes w \<Longrightarrow> next_ino w' = next_ino w \<Longrightarrow> os_wf w' = os_wf w"
  by (simp add: os_wf_def)

lemma os_wf_simps [simp]:
  "os_wf (record_view w) = os_wf w" "os_wf (log_ev e w) = os_wf w"
  "os_wf (w\<lparr>tick := t\<rparr>) = os_wf w" "os_wf (w\<lparr>fds := f\<rparr>) = os_wf w"
  "os_wf (w\<lparr>fds := f, next_fd := n\<rparr>) = os_wf w"
  by (simp_all add: os_wf_def)

lemma os_wf_set_dir: "os_wf w \<Longrightarrow> os_wf (set_node p (DirNode m) w)"
  by (simp add: os_wf_def)

lemma os_wf_set_file:
  "os_wf w \<Longrightarrow> i < next_ino w \<Longrightarrow> inodes w i \<noteq> None \<Longrightarrow> os_wf (set_node p (FileNode i) w)"
  by (auto simp: os_wf_def)

lemma os_wf_del_node: "os_wf w \<Longrightarrow> os_wf (del_node p w)"
  by (simp add: os_wf_def)

lemma os_wf_inodes:
  "os_wf w \<Longrightarrow> os_wf (w\<lparr>inodes := (inodes w)(i := map_option f (inodes w i))\<rparr>)"
  by (auto simp: os_wf_def)

section \<open>History\<close>

text \<open>Every view recorded since \<open>w0\<close> satisfies \<open>V\<close>.\<close>

definition since :: "'x os_scheme \<Rightarrow> (file_view \<Rightarrow> bool) \<Rightarrow> 'x os_scheme \<Rightarrow> bool" where
  "since w0 V w \<longleftrightarrow> (\<forall>v \<in> set (hist w). v \<in> set (hist w0) \<or> V v)"

lemma since_refl [simp]: "since w V w"
  by (simp add: since_def)

lemma since_simps [simp]:
  "since w0 V (w\<lparr>tick := t\<rparr>) = since w0 V w" "since w0 V (log_ev e w) = since w0 V w"
  "since w0 V (w\<lparr>fds := f\<rparr>) = since w0 V w" "since w0 V (w\<lparr>fds := f, next_fd := n\<rparr>) = since w0 V w"
  "since w0 V (w\<lparr>inodes := g\<rparr>) = since w0 V w"
  "since w0 V (w\<lparr>inodes := g, next_ino := m\<rparr>) = since w0 V w"
  "since w0 V (set_node p n' w) = since w0 V w" "since w0 V (del_node p w) = since w0 V w"
  by (simp_all add: since_def)

lemma since_record_view [simp]:
  "since w0 V (record_view w) \<longleftrightarrow> since w0 V w \<and> (file_at w \<in> set (hist w0) \<or> V (file_at w))"
  by (auto simp: since_def)

lemma since_mono: "since w0 V w \<Longrightarrow> (\<And>v. V v \<Longrightarrow> V' v) \<Longrightarrow> since w0 V' w"
  by (auto simp: since_def)

lemma since_trans: "since w1 V w2 \<Longrightarrow> since w0 V w1 \<Longrightarrow> since w0 V w2"
  by (auto simp: since_def)

section \<open>Calls that leave the open files and the ledger alone\<close>

definition quiet :: "('x os_scheme, 'a) go \<Rightarrow> bool" where
  "quiet f \<longleftrightarrow> (\<forall>w. fds (snd (f w)) = fds w \<and> ledger_log (snd (f w)) = ledger_log w)"

lemma quietI:
  "(\<And>w. fds (snd (f w)) = fds w) \<Longrightarrow> (\<And>w. ledger_log (snd (f w)) = ledger_log w) \<Longrightarrow> quiet f"
  by (simp add: quiet_def)

lemma quietI2:
  "(\<And>w. fds (snd (f w)) = fds w \<and> ledger_log (snd (f w)) = ledger_log w) \<Longrightarrow> quiet f"
  by (simp add: quiet_def)

lemma quiet_snd: "quiet f \<Longrightarrow> fds (snd (f w)) = fds w \<and> ledger_log (snd (f w)) = ledger_log w"
  by (simp add: quiet_def)

lemma quietD: "quiet f \<Longrightarrow> f w = (r, w') \<Longrightarrow> fds w' = fds w \<and> ledger_log w' = ledger_log w"
  by (auto simp: quiet_def dest!: spec [of _ w])

lemma syscall_part_cases:
  obtains (fault) e k where "syscall_part part f w =
      (Fail (Sys e), record_view (part k (w\<lparr>tick := Suc (tick w)\<rparr>)))"
  | (run) r w2 where "f (w\<lparr>tick := Suc (tick w)\<rparr>) = (r, w2)"
      "syscall_part part f w = (r, record_view w2)"
proof (cases "faults w (tick w)")
  case None
  then show thesis
    by (cases "f (w\<lparr>tick := Suc (tick w)\<rparr>)") (auto simp: syscall_part_def intro: run)
next
  case (Some ek)
  then show thesis by (cases ek) (auto simp: syscall_part_def Let_def intro: fault)
qed

lemma quiet_syscall_part:
  assumes f: "quiet f" and p: "\<And>k w. fds (part k w) = fds w" "\<And>k w. ledger_log (part k w) = ledger_log w"
  shows "quiet (syscall_part part f)"
proof -
  have "fds (snd (syscall_part part f w)) = fds w \<and>
      ledger_log (snd (syscall_part part f w)) = ledger_log w" for w
    by (cases rule: syscall_part_cases [of part f w]) (auto simp: p dest: quietD [OF f])
  then show ?thesis by (simp add: quiet_def)
qed

lemma quiet_syscall: "quiet f \<Longrightarrow> quiet (syscall f)"
  unfolding syscall_def by (rule quiet_syscall_part) simp_all

lemma quiet_gbind: "quiet f \<Longrightarrow> (\<And>x. quiet (g x)) \<Longrightarrow> quiet (gbind f g)"
  by (simp add: quiet_def gbind_def split: prod.splits outcome.splits) (metis snd_conv)

lemma quiet_on_err: "quiet f \<Longrightarrow> quiet (on_err h f)"
  by (simp add: quiet_def on_err_def split: prod.splits outcome.splits) (metis snd_conv)

lemma quiet_ret [simp]: "quiet (ret x)" and quiet_fail [simp]: "quiet (fail e)"
  by (simp_all add: quiet_def ret_def fail_def)

lemma quiet_stat [simp]: "quiet (os_stat p)"
  unfolding os_stat_def
  by (rule quiet_syscall) (auto simp: quiet_def ret_def fail_def split: option.split)

lemma quiet_mkdir [simp]: "quiet (os_mkdir p m)"
  unfolding os_mkdir_def
  by (rule quiet_syscall) (auto simp: quiet_def ret_def fail_def split: option.split)

lemma quiet_link [simp]: "quiet (os_link p q)"
  unfolding os_link_def
  by (rule quiet_syscall) (auto simp: quiet_def ret_def fail_def split: option.split node.split)

lemma quiet_unlink [simp]: "quiet (sys_unlink p)"
  unfolding sys_unlink_def
  by (rule quiet_syscall) (auto simp: quiet_def ret_def fail_def split: option.split node.split)

lemma quiet_rmdir [simp]: "quiet (sys_rmdir p)"
  unfolding sys_rmdir_def
  by (rule quiet_syscall) (auto simp: quiet_def ret_def fail_def split: option.split node.split)

text \<open>
  \<^verbatim>\<open>os.MkdirAll\<close> is a run of \<^verbatim>\<open>Stat\<close> and \<^verbatim>\<open>Mkdir\<close> calls: a transitive relation that each of
  them respects, it respects.
\<close>

lemma os_mkdir_all_steps:
  assumes stat: "\<And>p w. R w (snd (os_stat p w))" and mkdir: "\<And>p w. R w (snd (os_mkdir p m w))"
    and trans: "\<And>a b c. R a b \<Longrightarrow> R b c \<Longrightarrow> R a c"
  shows "R w (snd (os_mkdir_all p m w))"
proof (induction p arbitrary: w rule: measure_induct_rule [of length])
  case (less p)
  obtain r1 w1 where s1: "os_stat p w = (r1, w1)" by (cases "os_stat p w")
  obtain r2 w2 where s2: "(case mkdir_parent p of None \<Rightarrow> (Ret (), w1)
      | Some q \<Rightarrow> os_mkdir_all q m w1) = (r2, w2)" by (cases "case mkdir_parent p of
      None \<Rightarrow> (Ret (), w1) | Some q \<Rightarrow> os_mkdir_all q m w1")
  obtain r3 w3 where s3: "os_mkdir p m w2 = (r3, w3)" by (cases "os_mkdir p m w2")
  obtain r4 w4 where s4: "os_stat p w3 = (r4, w4)" by (cases "os_stat p w3")
  have r1: "R w w1" and r3: "R w2 w3" and r4: "R w3 w4"
    using stat [of w p] mkdir [of w2 p] stat [of w3 p] by (simp_all add: s1 s3 s4)
  have r2: "R w w2"
  proof (cases "mkdir_parent p")
    case None
    with s2 r1 show ?thesis by simp
  next
    case (Some q)
    with less.IH [OF mkdir_parent_shorter, of q w1] s2 have "R w1 w2" by simp
    with r1 show ?thesis by (rule trans)
  qed
  have "snd (os_mkdir_all p m w) \<in> {w1, w2, w3, w4}"
    by (subst os_mkdir_all.simps) (auto simp: s1 s2 s3 s4 split: outcome.split node.split)
  with r1 r2 r3 r4 trans show ?case by blast
qed

lemma quiet_mkdir_all [simp]: "quiet (os_mkdir_all p m)"
proof -
  let ?R = "\<lambda>w w' :: 'a os_scheme. fds w' = fds w \<and> ledger_log w' = ledger_log w"
  have "?R w (snd (os_mkdir_all p m w))" for w
    by (rule os_mkdir_all_steps [of ?R])
      (auto simp: quiet_snd [OF quiet_stat] quiet_snd [OF quiet_mkdir])
  then show ?thesis by (rule quietI2)
qed

lemma quiet_remove [simp]: "quiet (os_remove p)"
proof (rule quietI2)
  fix w :: "'a os_scheme"
  obtain r1 w1 where s1: "sys_unlink p w = (r1, w1)" by (cases "sys_unlink p w")
  obtain r2 w2 where s2: "sys_rmdir p w1 = (r2, w2)" by (cases "sys_rmdir p w1")
  have "snd (os_remove p w) \<in> {w1, w2}"
    by (auto simp: os_remove_def s1 s2 split: outcome.split go_err.split errno.split)
  with quietD [OF quiet_unlink s1] quietD [OF quiet_rmdir s2]
  show "fds (snd (os_remove p w)) = fds w \<and> ledger_log (snd (os_remove p w)) = ledger_log w" by auto
qed

lemma quiet_on_inode [simp]: "quiet (on_inode f part upd)"
proof (rule quietI2)
  fix w :: "'a os_scheme"
  have q: "quiet (\<lambda>w :: 'a os_scheme. ret () (w\<lparr>inodes := (inodes w)(i := map_option upd (inodes w i))\<rparr>))" for i
    by (simp add: quiet_def ret_def)
  have i: "quiet (syscall_part (\<lambda>k w. w\<lparr>inodes := (inodes w)(i := map_option (part k) (inodes w i))\<rparr>)
      (\<lambda>w :: 'a os_scheme. ret () (w\<lparr>inodes := (inodes w)(i := map_option upd (inodes w i))\<rparr>)))" for i
    by (rule quiet_syscall_part [OF q]) simp_all
  show "fds (snd (on_inode f part upd w)) = fds w \<and>
      ledger_log (snd (on_inode f part upd w)) = ledger_log w"
    using quiet_snd [OF quiet_syscall [OF quiet_ret], of "()" w] quiet_snd [OF i, of _ w]
    by (auto simp: on_inode_def fail_def split: option.split node.split)
qed

lemma quiet_file_ops [simp]:
  "quiet (file_chmod f m)" "quiet (file_write f bs)" "quiet (file_sync f)"
  by (simp_all add: file_chmod_def file_write_def file_sync_def)

section \<open>The ledger of the calls that open and close\<close>

text \<open>What an \<^verbatim>\<open>*os.File\<close> still holds: its descriptor, unless it has been closed.\<close>

definition file_res :: "os_file \<Rightarrow> 'x os_scheme \<Rightarrow> lx_res multiset" where
  "file_res f w = (if fds w (file_fd f) = None then {#} else {#OpenFile (file_fd f)#})"

lemma moves_quiet:
  assumes "quiet f" and "\<And>w r w'. fds w' = fds w \<Longrightarrow> P w = Q r w'"
  shows "moves ledger_log P f Q"
proof (rule movesI)
  fix w
  have "fds (snd (f w)) = fds w" "ledger_log (snd (f w)) = ledger_log w"
    using assms(1) by (simp_all add: quiet_def)
  with assms(2) show "\<exists>es. ledger_log (snd (f w)) = ledger_log w @ es \<and>
      (\<forall>F. run_log (P w + F) es = Some (Q (fst (f w)) (snd (f w)) + F))"
    by (intro exI [of _ "[]"]) simp
qed

lemma moves_quiet_const [ledger]: "quiet f \<Longrightarrow> moves ledger_log (\<lambda>_. M) f (\<lambda>_ _. M)"
  by (rule moves_quiet) simp_all

lemma moves_quiet_file [ledger]:
  "quiet f \<Longrightarrow> moves ledger_log (file_res t) f (\<lambda>_. file_res t)"
  by (rule moves_quiet) (simp_all add: file_res_def)

lemma moves_st_quiet: "quiet f \<Longrightarrow> moves_st ledger_log (\<lambda>_. M) (\<lambda>w. snd (f w)) (\<lambda>_. M)"
  by (rule moves_st_snd) (rule moves_quiet_const)

lemma open_node_fields:
  assumes "open_node n p w = (r, w')"
  shows "\<exists>f. r = Ret f \<and> file_name f = p \<and> fds w' (file_fd f) = Some n \<and> node_at w' = node_at w \<and>
    inodes w' = inodes w \<and> next_ino w' = next_ino w \<and> hist w' = hist w \<and>
    ledger_log w' = ledger_log w @ [Acq (OpenFile (file_fd f))]"
  using assms by (auto simp: open_node_def)

lemma moves_file_close [ledger]: "moves ledger_log (file_res f) (file_close f) (\<lambda>_ _. {#})"
proof (rule movesI)
  fix w :: "'a os_scheme"
  show "\<exists>es. ledger_log (snd (file_close f w)) = ledger_log w @ es \<and>
      (\<forall>F. run_log (file_res f w + F) es = Some ({#} + F))"
  proof (cases "fds w (file_fd f)")
    case None
    then show ?thesis by (simp add: file_close_def file_res_def fail_def)
  next
    case (Some n)
    obtain r w2 where s: "syscall (ret ()) (log_ev (Rel (OpenFile (file_fd f)))
        (w\<lparr>fds := (fds w)(file_fd f := None)\<rparr>)) = (r, w2)" by fastforce
    have "ledger_log w2 = ledger_log w @ [Rel (OpenFile (file_fd f))]"
      using quietD [OF quiet_syscall [OF quiet_ret] s] by simp
    with Some s show ?thesis
      by (intro exI [of _ "[Rel (OpenFile (file_fd f))]"]) (simp add: file_close_def file_res_def Let_def)
  qed
qed

lemma file_close_closed: "file_close f w = (r, w') \<Longrightarrow> fds w' (file_fd f) = None"
proof (cases "fds w (file_fd f)")
  case (Some n)
  assume "file_close f w = (r, w')"
  with Some have "syscall (ret ()) (log_ev (Rel (OpenFile (file_fd f)))
        (w\<lparr>fds := (fds w)(file_fd f := None)\<rparr>)) = (r, w')" by (simp add: file_close_def Let_def)
  from quietD [OF quiet_syscall [OF quiet_ret] this] show ?thesis by simp
qed (simp add: file_close_def fail_def)

end
