(* ===== verification/GoOSViews.thy ===== *)
theory GoOSViews
  imports GoOSFacts
begin

text \<open>
  The calls of the operating system as transformers of the file view: which leave it alone
  (\<open>inert\<close>), and what \<^verbatim>\<open>MkdirAll\<close>, \<^verbatim>\<open>CreateTemp\<close>, the methods of an open temporary file,
  \<^verbatim>\<open>Link\<close> and \<^verbatim>\<open>Remove\<close> do to it, on success and on failure.
\<close>

section \<open>The ledger of opening\<close>

definition opened :: "os_file outcome \<Rightarrow> 'x os_scheme \<Rightarrow> lx_res multiset" where
  "opened r w = (case r of Ret f \<Rightarrow> file_res f w | _ \<Rightarrow> {#})"

lemma opened_simps [simp]:
  "opened (Ret f) = file_res f" "opened (Fail e) w = {#}" "opened (Panic s) w = {#}"
  "opened r (record_view w) = opened r w"
  by (auto simp: opened_def file_res_def split: outcome.split)

lemma moves_syscall:
  assumes f: "moves ledger_log (\<lambda>_. M) f Q" and "\<And>r w. Q r (record_view w) = Q r w"
    and "\<And>e w. Q (Fail e) w = M"
  shows "moves ledger_log (\<lambda>_. M) (syscall f) Q"
proof (rule movesI)
  fix w
  show "\<exists>es. ledger_log (snd (syscall f w)) = ledger_log w @ es \<and>
      (\<forall>F. run_log (M + F) es = Some (Q (fst (syscall f w)) (snd (syscall f w)) + F))"
  proof (cases rule: syscall_part_cases [of "\<lambda>_ w. w" f w])
    case (fault e k)
    with assms(2,3) show ?thesis by (intro exI [of _ "[]"]) (simp add: syscall_def)
  next
    case (run r w2)
    from movesD [OF f run(1)] obtain es where "ledger_log w2 = ledger_log w @ es"
      "\<And>F. run_log (M + F) es = Some (Q r w2 + F)" by auto
    with run assms(2) show ?thesis by (intro exI [of _ es]) (simp add: syscall_def)
  qed
qed

lemma moves_open_node: "moves ledger_log (\<lambda>_. {#}) (open_node n p) opened"
  by (rule movesI) (simp add: open_node_def file_res_def)

lemma moves_os_open [ledger]: "moves ledger_log (\<lambda>_. {#}) (os_open p) opened"
  unfolding os_open_def
proof (rule moves_syscall)
  show "moves ledger_log (\<lambda>_. {#})
     (\<lambda>w. case node_at w p of None \<Rightarrow> fail (Sys ENOENT) w | Some n \<Rightarrow> open_node n p w) opened"
    by (rule movesI) (auto simp: fail_def open_node_def file_res_def split: option.split)
qed simp_all

lemma moves_os_open_excl: "moves ledger_log (\<lambda>_. {#}) (os_open_excl p m) opened"
  unfolding os_open_excl_def
proof (rule moves_syscall)
  show "moves ledger_log (\<lambda>_. {#})
     (\<lambda>w. if node_at w p \<noteq> None then fail (Sys EEXIST) w
       else case dir_error w p of Some e \<Rightarrow> fail (Sys e) w
        | None \<Rightarrow> open_node (FileNode (next_ino w)) p (set_node p (FileNode (next_ino w))
            (w\<lparr>inodes := (inodes w)(next_ino w \<mapsto> \<lparr>content = [], mode = m\<rparr>),
               next_ino := Suc (next_ino w)\<rparr>))) opened"
    by (rule movesI) (auto simp: fail_def open_node_def file_res_def split: option.split)
qed simp_all

lemma moves_create_temp_loop: "moves ledger_log (\<lambda>_. {#}) (create_temp_loop k dir pre) opened"
proof (induction k)
  case 0
  show ?case by (rule movesI) simp
next
  case (Suc k)
  show ?case
  proof (rule movesI)
    fix w :: "'a os_scheme"
    let ?p = "temp_name dir pre (rands w (tick w))"
    obtain r w1 where o: "os_open_excl ?p 384 w = (r, w1)" by fastforce
    from movesD [OF moves_os_open_excl o] obtain es where
      es: "ledger_log w1 = ledger_log w @ es" "\<And>F. run_log ({#} + F) es = Some (opened r w1 + F)"
      by blast
    show "\<exists>es. ledger_log (snd (create_temp_loop (Suc k) dir pre w)) = ledger_log w @ es \<and>
        (\<forall>F. run_log ({#} + F) es = Some (opened (fst (create_temp_loop (Suc k) dir pre w))
           (snd (create_temp_loop (Suc k) dir pre w)) + F))"
    proof (cases "r = Fail (Sys EEXIST)")
      case True
      obtain r2 w2 where l: "create_temp_loop k dir pre w1 = (r2, w2)" by fastforce
      from movesD [OF Suc.IH l] obtain es2 where "ledger_log w2 = ledger_log w1 @ es2"
        "\<And>F. run_log ({#} + F) es2 = Some (opened r2 w2 + F)" by blast
      with es True o l show ?thesis
        by (intro exI [of _ "es @ es2"]) (simp add: run_log_append)
    next
      case False
      then have "create_temp_loop (Suc k) dir pre w = (r, w1)"
        by (auto simp: o split: outcome.split go_err.split errno.split)
      with es show ?thesis by auto
    qed
  qed
qed

lemma moves_create_temp [ledger]: "moves ledger_log (\<lambda>_. {#}) (os_create_temp dir pre) opened"
  unfolding os_create_temp_def by (rule moves_create_temp_loop)

lemma quiet_inode_read [simp]:
  "quiet (syscall (case inodes w i of None \<Rightarrow> fail e | Some n \<Rightarrow> ret (content n)))"
  by (rule quiet_syscall) (simp split: option.split)

lemma moves_os_read_file [ledger]: "moves ledger_log (\<lambda>_. {#}) (os_read_file p) (\<lambda>_ _. {#})"
  unfolding os_read_file_def
proof (rule moves_gbind [OF moves_os_open])
  fix f :: os_file
  let ?read = "\<lambda>w :: 'a os_scheme. case fds w (file_fd f) of
      Some (FileNode i) \<Rightarrow>
        syscall (case inodes w i of None \<Rightarrow> fail (Sys (EOther 5)) | Some n \<Rightarrow> ret (content n)) w
    | _ \<Rightarrow> syscall (fail (Sys EISDIR)) w"
  have q: "quiet ?read"
    by (rule quietI2)
      (auto simp: quiet_snd [OF quiet_inode_read] quiet_snd [OF quiet_syscall [OF quiet_fail]]
        split: option.split node.split)
  have c: "moves_st ledger_log (file_res f) (\<lambda>w. snd (file_close f w)) (\<lambda>_. {#})"
    by (rule moves_st_snd) (rule moves_file_close)
  show "moves ledger_log (opened (Ret f)) (deferred (\<lambda>_ w. snd (file_close f w)) ?read) (\<lambda>_ _. {#})"
    by (rule moves_deferred [OF _ c]) (use q in \<open>auto intro!: moves_quiet simp: file_res_def\<close>)
qed simp_all

section \<open>Calls that leave the tree alone\<close>

definition tree_kept :: "'x os_scheme \<Rightarrow> 'x os_scheme \<Rightarrow> bool" where
  "tree_kept w w' \<longleftrightarrow> node_at w' = node_at w \<and> inodes w' = inodes w \<and> next_ino w' = next_ino w \<and>
     (\<forall>v \<in> set (hist w'). v \<in> set (hist w) \<or> v = file_at w)"

lemma tree_keptD:
  assumes "tree_kept w w'"
  shows "node_at w' = node_at w" and "inodes w' = inodes w" and "next_ino w' = next_ino w"
    and "file_at w' = file_at w" and "os_wf w' = os_wf w"
    and "since w0 V w \<Longrightarrow> V (file_at w) \<Longrightarrow> since w0 V w'"
  using assms by (auto simp: tree_kept_def os_wf_def since_def intro: file_at_cong)

lemma tree_kept_refl [simp]: "tree_kept w w"
  by (simp add: tree_kept_def)

lemma tree_kept_trans:
  assumes "tree_kept w1 w2" and "tree_kept w2 w3"
  shows "tree_kept w1 w3"
  using assms tree_keptD(4) [OF assms(1)] by (auto simp: tree_kept_def)

lemma tree_kept_simps [simp]:
  "tree_kept w (w'\<lparr>tick := t\<rparr>) = tree_kept w w'" "tree_kept w (log_ev e w') = tree_kept w w'"
  "tree_kept w (w'\<lparr>fds := g\<rparr>) = tree_kept w w'"
  "tree_kept w (w'\<lparr>fds := g, next_fd := n\<rparr>) = tree_kept w w'"
  by (auto simp: tree_kept_def)

lemma tree_kept_record_view: "tree_kept w w' \<Longrightarrow> tree_kept w (record_view w')"
  using tree_keptD(4) [of w w'] by (auto simp: tree_kept_def)

definition inert :: "('x os_scheme, 'a) go \<Rightarrow> bool" where
  "inert f \<longleftrightarrow> (\<forall>w. tree_kept w (snd (f w)))"

lemma inertI: "(\<And>w. tree_kept w (snd (f w))) \<Longrightarrow> inert f"
  by (simp add: inert_def)

lemma inert_snd: "inert f \<Longrightarrow> tree_kept w (snd (f w))"
  by (simp add: inert_def)

lemma inert_kept: "inert f \<Longrightarrow> f w = (r, w') \<Longrightarrow> tree_kept w w'"
  by (auto simp: inert_def dest!: spec [of _ w])

lemmas inertD = inert_kept [THEN tree_keptD(1)] inert_kept [THEN tree_keptD(2)]
  inert_kept [THEN tree_keptD(3)] inert_kept [THEN tree_keptD(4)]
  inert_kept [THEN tree_keptD(5)] inert_kept [THEN tree_keptD(6)]

lemma inert_ret [simp]: "inert (ret x)" and inert_fail [simp]: "inert (fail e)"
  by (simp_all add: inert_def ret_def fail_def)

lemma inert_syscall:
  assumes "inert f"
  shows "inert (syscall f)"
proof (rule inertI)
  fix w
  show "tree_kept w (snd (syscall f w))"
  proof (cases rule: syscall_part_cases [of "\<lambda>_ w. w" f w])
    case (fault e k)
    then show ?thesis by (simp add: syscall_def tree_kept_record_view)
  next
    case (run r w2)
    have "tree_kept w (w\<lparr>tick := Suc (tick w)\<rparr>)" by simp
    from this inert_kept [OF assms run(1)] have "tree_kept w w2" by (rule tree_kept_trans)
    with run(2) show ?thesis by (simp add: syscall_def tree_kept_record_view)
  qed
qed

lemma inert_gbind:
  assumes f: "inert f" and g: "\<And>x. inert (g x)"
  shows "inert (gbind f g)"
proof (rule inertI)
  fix w
  obtain r w1 where e: "f w = (r, w1)" by (cases "f w")
  have k: "tree_kept w w1" using f e by (rule inert_kept)
  show "tree_kept w (snd (gbind f g w))"
    by (cases r) (simp_all add: gbind_def e k tree_kept_trans [OF k inert_snd [OF g]])
qed

lemma inert_deferred:
  assumes f: "inert f" and g: "inert g"
  shows "inert (deferred (\<lambda>_ w. snd (g w)) f)"
proof (rule inertI)
  fix w
  obtain r w1 where e: "f w = (r, w1)" by (cases "f w")
  have k: "tree_kept w w1" using f e by (rule inert_kept)
  show "tree_kept w (snd (deferred (\<lambda>_ w. snd (g w)) f w))"
    by (simp add: deferred_def e tree_kept_trans [OF k inert_snd [OF g]])
qed

lemma inert_stat [simp]: "inert (os_stat p)"
  unfolding os_stat_def
  by (rule inert_syscall) (auto intro!: inertI simp: ret_def fail_def split: option.split)

lemma inert_open [simp]: "inert (os_open p)"
  unfolding os_open_def
  by (rule inert_syscall) (auto intro!: inertI simp: fail_def open_node_def split: option.split)

lemma inert_close [simp]: "inert (file_close f)"
proof (rule inertI)
  fix w :: "'a os_scheme"
  have "inert (syscall (ret ()) :: ('a os_scheme, unit) go)" by (simp add: inert_syscall)
  note k = tree_kept_trans [OF _ inert_snd [OF this]]
  show "tree_kept w (snd (file_close f w))"
    by (cases "fds w (file_fd f)") (auto simp: file_close_def fail_def Let_def intro!: k)
qed

lemma inert_inode_read [simp]:
  "inert (syscall (case n of None \<Rightarrow> fail e | Some n \<Rightarrow> ret (content n)))"
  by (rule inert_syscall) (simp split: option.split)

lemma inert_read_file [simp]: "inert (os_read_file p)"
  unfolding os_read_file_def
proof (intro inert_gbind inert_open inert_deferred inert_close inertI)
  fix f :: os_file and w :: "'a os_scheme"
  show "tree_kept w (snd (case fds w (file_fd f) of
      Some (FileNode i) \<Rightarrow>
        syscall (case inodes w i of None \<Rightarrow> fail (Sys (EOther 5)) | Some n \<Rightarrow> ret (content n)) w
    | _ \<Rightarrow> syscall (fail (Sys EISDIR)) w))"
    by (simp add: inert_snd inert_syscall split: option.split node.split)
qed

end
