(* ===== verification/GoOSTemp.thy ===== *)
theory GoOSTemp
  imports GoOSViews
begin

text \<open>
  The life of a temporary file, from \<^verbatim>\<open>CreateTemp\<close> to \<^verbatim>\<open>Link\<close> and \<^verbatim>\<open>Remove\<close>, over the file
  view. \<open>tree_same\<close> says that no file has changed since \<open>w0\<close>, at no moment; \<open>in_temp\<close> that the
  temporary file is the only change and that its inode has no other name; \<open>linked\<close> that the new
  name shows the finished file.
\<close>

section \<open>No file changed\<close>

definition tree_same :: "'x os_scheme \<Rightarrow> 'x os_scheme \<Rightarrow> bool" where
  "tree_same w0 w \<longleftrightarrow> os_wf w \<and> file_at w = file_at w0 \<and> since w0 (\<lambda>v. v = file_at w0) w"

lemma tree_same_refl: "os_wf w \<Longrightarrow> tree_same w w"
  by (simp add: tree_same_def)

lemma tree_same_kept: "tree_kept w w' \<Longrightarrow> tree_same w0 w \<Longrightarrow> tree_same w0 w'"
  by (simp add: tree_same_def tree_keptD)

lemma triple_inert_same: "inert f \<Longrightarrow> triple (tree_same w0) f (\<lambda>_. tree_same w0)"
  by (simp add: triple_def tree_same_kept [OF inert_snd])

lemma tree_same_tick [simp]: "tree_same w0 (w\<lparr>tick := t\<rparr>) = tree_same w0 w"
  by (simp add: tree_same_def)

lemma tree_same_record_view: "tree_same w0 w \<Longrightarrow> tree_same w0 (record_view w)"
  by (simp add: tree_same_def)

lemma tree_same_mkdir: "tree_same w0 w \<Longrightarrow> tree_same w0 (snd (os_mkdir p m w))"
proof -
  assume w: "tree_same w0 w"
  let ?f = "\<lambda>w. if node_at w p \<noteq> None then fail (Sys EEXIST) w
     else case dir_error w p of Some e \<Rightarrow> fail (Sys e) w
          | None \<Rightarrow> ret () (set_node p (DirNode m) w)"
  show ?thesis
  proof (cases rule: syscall_part_cases [of "\<lambda>_ w. w" ?f w])
    case (fault e k)
    with w show ?thesis by (simp add: os_mkdir_def syscall_def tree_same_record_view)
  next
    case (run r w2)
    have "tree_same w0 w2"
    proof (cases "node_at w p")
      case None
      then have "(file_at w)(p := None) = file_at w" by (simp add: fun_upd_idem file_at_None_node)
      with None w run(1) show ?thesis
        by (auto simp: tree_same_def os_wf_set_dir file_at_set_dir ret_def fail_def
            split: option.splits)
    qed (use w run(1) in \<open>auto simp: fail_def\<close>)
    with run(2) show ?thesis by (simp add: os_mkdir_def syscall_def tree_same_record_view)
  qed
qed

lemma tree_same_mkdir_all: "tree_same w0 w \<Longrightarrow> tree_same w0 (snd (os_mkdir_all p m w))"
  using os_mkdir_all_steps [of "\<lambda>w w'. tree_same w0 w \<longrightarrow> tree_same w0 w'" m w p]
  by (simp add: tree_same_mkdir tree_same_kept [OF inert_snd [OF inert_stat]])

lemma triple_mkdir_all_same: "triple (tree_same w0) (os_mkdir_all p m) (\<lambda>_. tree_same w0)"
  by (simp add: triple_def tree_same_mkdir_all)

text \<open>A system call that succeeded ran its body.\<close>

lemma syscall_Ret:
  assumes "syscall f w = (Ret x, w')"
  obtains w2 where "f (w\<lparr>tick := Suc (tick w)\<rparr>) = (Ret x, w2)" and "w' = record_view w2"
proof (cases rule: syscall_part_cases [of "\<lambda>_ w. w" f w])
  case (fault e k)
  with assms show thesis by (simp add: syscall_def)
next
  case (run r w2)
  with assms that show thesis by (auto simp: syscall_def)
qed

section \<open>The temporary file\<close>

text \<open>Two views agree but for one name.\<close>

definition off :: "string \<Rightarrow> file_view \<Rightarrow> file_view \<Rightarrow> bool" where
  "off t X v \<longleftrightarrow> (\<forall>p. p \<noteq> t \<longrightarrow> v p = X p)"

lemma off_refl [simp]: "off t X X" and off_upd [simp]: "off t X (v(t := y)) = off t X v"
  by (auto simp: off_def)

lemma offD: "off t X v \<Longrightarrow> p \<noteq> t \<Longrightarrow> v p = X p"
  by (simp add: off_def)

definition in_temp :: "'x os_scheme \<Rightarrow> string \<Rightarrow> nat \<Rightarrow> inode \<Rightarrow> 'x os_scheme \<Rightarrow> bool" where
  "in_temp w0 t i c w \<longleftrightarrow>
     os_wf w \<and> file_at w0 t = None \<and> node_at w t = Some (FileNode i) \<and>
     (\<forall>p. node_at w p = Some (FileNode i) \<longrightarrow> p = t) \<and> inodes w i = Some c \<and>
     off t (file_at w0) (file_at w) \<and> since w0 (off t (file_at w0)) w"

lemma in_temp_kept: "tree_kept w w' \<Longrightarrow> in_temp w0 t i c w \<Longrightarrow> in_temp w0 t i c w'"
  by (simp add: in_temp_def tree_keptD)

lemma open_excl_temp:
  assumes w: "tree_same w0 w" and o: "os_open_excl t m w = (r, w')"
  shows "case r of
      Ret f \<Rightarrow> file_name f = t \<and> (\<exists>i. fds w' (file_fd f) = Some (FileNode i) \<and>
        in_temp w0 t i \<lparr>content = [], mode = m\<rparr> w')
    | _ \<Rightarrow> tree_same w0 w'"
proof -
  let ?f = "\<lambda>w. if node_at w t \<noteq> None then fail (Sys EEXIST) w
     else case dir_error w t of Some e \<Rightarrow> fail (Sys e) w
          | None \<Rightarrow> open_node (FileNode (next_ino w)) t
                (set_node t (FileNode (next_ino w))
                  (w\<lparr>inodes := (inodes w)(next_ino w \<mapsto> \<lparr>content = [], mode = m\<rparr>),
                     next_ino := Suc (next_ino w)\<rparr>))"
  show ?thesis
  proof (cases rule: syscall_part_cases [of "\<lambda>_ w. w" ?f w])
    case (fault e k)
    with w o show ?thesis by (auto simp: os_open_excl_def syscall_def tree_same_record_view)
  next
    case (run r2 w2)
    with o have r: "r = r2" "w' = record_view w2" by (auto simp: os_open_excl_def syscall_def)
    show ?thesis
    proof (cases "node_at w t = None \<and> dir_error (w\<lparr>tick := Suc (tick w)\<rparr>) t = None")
      case False
      with run(1) have "w2 = w\<lparr>tick := Suc (tick w)\<rparr>" "\<exists>e. r2 = Fail e"
        by (auto simp: fail_def split: option.splits if_splits)
      with r w show ?thesis by (auto simp: tree_same_record_view)
    next
      case True
      let ?w1 = "w\<lparr>tick := Suc (tick w),
        inodes := (inodes w)(next_ino w \<mapsto> \<lparr>content = [], mode = m\<rparr>), next_ino := Suc (next_ino w)\<rparr>"
      from True run(1) have o2: "open_node (FileNode (next_ino w)) t
          (set_node t (FileNode (next_ino w)) ?w1) = (r2, w2)" by simp
      from open_node_fields [OF o2] obtain f where f: "r2 = Ret f" "file_name f = t"
        "fds w2 (file_fd f) = Some (FileNode (next_ino w))"
        "node_at w2 = (node_at w)(t \<mapsto> FileNode (next_ino w))"
        "inodes w2 = (inodes w)(next_ino w \<mapsto> \<lparr>content = [], mode = m\<rparr>)"
        "next_ino w2 = Suc (next_ino w)" "hist w2 = hist w"
        by (auto simp: node_at_def)
      have wf: "os_wf w" and fa: "file_at w = file_at w0"
        and si: "since w0 (\<lambda>v. v = file_at w0) w" using w by (auto simp: tree_same_def)
      have fresh: "node_at w p \<noteq> Some (FileNode (next_ino w))" for p
        using os_wfD [OF wf] by blast
      have o0: "file_at w0 t = None" using True fa file_at_None_node [of w t] by simp
      have "file_at w2 p = file_at w p" if "p \<noteq> t" for p
        using that f(4,5) fresh [of p]
        by (auto simp: file_at_def split: option.split node.split)
      then have of: "off t (file_at w0) (file_at w2)" by (simp add: off_def fa)
      have "os_wf w2" using wf f(4-6) by (auto simp: os_wf_def less_Suc_eq)
      moreover have "since w0 (off t (file_at w0)) w2"
        using si f(7) by (auto simp: since_def)
      ultimately have "in_temp w0 t (next_ino w) \<lparr>content = [], mode = m\<rparr> w2"
        using f(4,5) fresh o0 of by (auto simp: in_temp_def)
      then have "in_temp w0 t (next_ino w) \<lparr>content = [], mode = m\<rparr> w'"
        unfolding r(2) by (auto simp: in_temp_def)
      with f(1-3) r show ?thesis by auto
    qed
  qed
qed

text \<open>What \<^verbatim>\<open>CreateTemp\<close> leaves: a fresh empty file under a name of its pattern, or nothing new.\<close>

definition temp_made :: "'x os_scheme \<Rightarrow> string \<Rightarrow> string \<Rightarrow> os_file outcome \<Rightarrow> 'x os_scheme \<Rightarrow> bool" where
  "temp_made w0 dir pre r w \<longleftrightarrow>
     (case r of
        Ret f \<Rightarrow> (\<exists>n i. file_name f = temp_name dir pre n \<and> fds w (file_fd f) = Some (FileNode i) \<and>
          in_temp w0 (file_name f) i \<lparr>content = [], mode = 384\<rparr> w)
      | _ \<Rightarrow> tree_same w0 w)"

lemma create_temp_loop_made:
  "tree_same w0 w \<Longrightarrow> create_temp_loop k dir pre w = (r, w') \<Longrightarrow> temp_made w0 dir pre r w'"
proof (induction k arbitrary: w)
  case 0
  then show ?case by (auto simp: temp_made_def)
next
  case (Suc k)
  let ?t = "temp_name dir pre (rands w (tick w))"
  obtain r1 w1 where o: "os_open_excl ?t 384 w = (r1, w1)" by fastforce
  note ex = open_excl_temp [OF Suc.prems(1) o]
  show ?case
  proof (cases "r1 = Fail (Sys EEXIST)")
    case True
    with ex have "tree_same w0 w1" by simp
    moreover have "create_temp_loop k dir pre w1 = (r, w')" using Suc.prems(2) True o by simp
    ultimately show ?thesis by (rule Suc.IH)
  next
    case False
    with Suc.prems(2) o have "r = r1" "w' = w1"
      by (auto split: outcome.splits go_err.splits errno.splits)
    with ex show ?thesis by (fastforce simp: temp_made_def split: outcome.splits)
  qed
qed

lemma triple_create_temp: "triple (tree_same w0) (os_create_temp dir pre) (temp_made w0 dir pre)"
  by (rule tripleI) (auto simp: os_create_temp_def dest: create_temp_loop_made)

lemma create_temp_loop_name:
  "create_temp_loop k dir pre w = (Ret f, w') \<Longrightarrow> \<exists>n. file_name f = temp_name dir pre n"
proof (induction k arbitrary: w)
  case (Suc k)
  obtain r1 w1 where o: "os_open_excl (temp_name dir pre (rands w (tick w))) 384 w = (r1, w1)"
    by fastforce
  show ?case
  proof (cases r1)
    case (Ret g)
    with Suc.prems o have "g = f" by simp
    moreover from o Ret have "file_name g = temp_name dir pre (rands w (tick w))"
      by (auto simp: os_open_excl_def open_node_def fail_def elim!: syscall_Ret split: if_splits option.splits)
    ultimately show ?thesis by blast
  next
    case (Fail e)
    with Suc o show ?thesis by (auto split: go_err.splits errno.splits)
  next
    case (Panic s)
    with Suc.prems o show ?thesis by simp
  qed
qed simp

lemma create_temp_name:
  "os_create_temp dir pre w = (Ret f, w') \<Longrightarrow> \<exists>n. file_name f = temp_name dir pre n"
  unfolding os_create_temp_def by (rule create_temp_loop_name)

lemma temp_name_nonempty [simp]: "temp_name dir pre n \<noteq> []"
  by (simp add: temp_name_def)

text \<open>A method on the open temporary file changes its inode only.\<close>

lemma in_temp_inode:
  assumes "in_temp w0 t i c w"
  shows "in_temp w0 t i (g c) (w\<lparr>inodes := (inodes w)(i := map_option g (inodes w i))\<rparr>)"
proof -
  let ?w = "w\<lparr>inodes := (inodes w)(i := map_option g (inodes w i))\<rparr>"
  have "file_at ?w p = file_at w p" if "p \<noteq> t" for p
  proof -
    have "node_at w p \<noteq> Some (FileNode i)" using assms that by (auto simp: in_temp_def)
    then show ?thesis by (auto simp: file_at_def split: option.split node.split)
  qed
  then have "off t (file_at w0) (file_at ?w)" using assms by (simp add: in_temp_def off_def)
  with assms os_wf_inodes [of w i g] show ?thesis by (simp add: in_temp_def)
qed

lemma in_temp_record_view: "in_temp w0 t i c w \<Longrightarrow> in_temp w0 t i c (record_view w)"
  by (simp add: in_temp_def)

lemma in_temp_tick [simp]: "in_temp w0 t i c (w\<lparr>tick := n\<rparr>) = in_temp w0 t i c w"
  by (simp add: in_temp_def)

lemma on_inode_temp:
  assumes w: "in_temp w0 t i c w" and fd: "fds w (file_fd f) = Some (FileNode i)"
    and o: "on_inode f part upd w = (r, w')"
  shows "fds w' (file_fd f) = Some (FileNode i) \<and>
    (r = Ret () \<and> in_temp w0 t i (upd c) w' \<or> (\<exists>e k. r = Fail e \<and> in_temp w0 t i (part k c) w'))"
proof -
  let ?p = "\<lambda>k w. w\<lparr>inodes := (inodes w)(i := map_option (part k) (inodes w i))\<rparr>"
  let ?f = "\<lambda>w. ret () (w\<lparr>inodes := (inodes w)(i := map_option upd (inodes w i))\<rparr>)"
  from fd o have s: "syscall_part ?p ?f w = (r, w')" by (simp add: on_inode_def)
  have q: "fds w' (file_fd f) = Some (FileNode i)"
    using quietD [OF quiet_on_inode o] fd by simp
  from in_temp_inode [of w0 t i c "w\<lparr>tick := Suc (tick w)\<rparr>"] w
  have t: "in_temp w0 t i (g c) (w\<lparr>tick := Suc (tick w),
      inodes := (inodes w)(i := map_option g (inodes w i))\<rparr>)" for g by simp
  show ?thesis
  proof (cases rule: syscall_part_cases [of ?p ?f w])
    case (fault e k)
    with s have "r = Fail (Sys e)" "w' = record_view (w\<lparr>tick := Suc (tick w),
      inodes := (inodes w)(i := map_option (part k) (inodes w i))\<rparr>)" by simp_all
    with t q show ?thesis by (blast intro: in_temp_record_view)
  next
    case (run r2 w2)
    with s have "r = Ret ()" "w' = record_view (w\<lparr>tick := Suc (tick w),
      inodes := (inodes w)(i := map_option upd (inodes w i))\<rparr>)" by (auto simp: ret_def)
    with t q show ?thesis by (blast intro: in_temp_record_view)
  qed
qed

text \<open>The temporary file while it is open.\<close>

definition open_temp :: "'x os_scheme \<Rightarrow> os_file \<Rightarrow> nat \<Rightarrow> (inode \<Rightarrow> bool) \<Rightarrow> 'x os_scheme \<Rightarrow> bool" where
  "open_temp w0 f i C w \<longleftrightarrow> fds w (file_fd f) = Some (FileNode i) \<and>
     (\<exists>c. C c \<and> in_temp w0 (file_name f) i c w)"

definition any_temp :: "'x os_scheme \<Rightarrow> string \<Rightarrow> 'x os_scheme \<Rightarrow> bool" where
  "any_temp w0 t w \<longleftrightarrow> (\<exists>i c. in_temp w0 t i c w)"

lemma open_temp_any: "open_temp w0 f i C w \<Longrightarrow> any_temp w0 (file_name f) w"
  by (auto simp: open_temp_def any_temp_def)

lemma triple_on_inode:
  assumes "\<And>c. C c \<Longrightarrow> D (upd c)"
  shows "triple (open_temp w0 f i C) (on_inode f part upd)
    (\<lambda>r w. if returned r then open_temp w0 f i D w else any_temp w0 (file_name f) w)"
proof (rule tripleI)
  fix w r w'
  assume "open_temp w0 f i C w" and o: "on_inode f part upd w = (r, w')"
  then obtain c where "C c" "in_temp w0 (file_name f) i c w" "fds w (file_fd f) = Some (FileNode i)"
    by (auto simp: open_temp_def)
  with on_inode_temp [OF this(2,3) o] assms
  show "if returned r then open_temp w0 f i D w' else any_temp w0 (file_name f) w'"
    by (auto simp: open_temp_def any_temp_def)
qed

section \<open>Publishing\<close>

definition published :: "file_view \<Rightarrow> string \<Rightarrow> bytes \<times> nat \<Rightarrow> file_view" where
  "published X p c = X(p \<mapsto> c)"

text \<open>
  The new name \<open>p\<close> shows the finished file \<open>c\<close>; every view since \<open>w0\<close> was the old one or the new
  one, the temporary name aside.
\<close>

definition linked :: "'x os_scheme \<Rightarrow> string \<Rightarrow> string \<Rightarrow> bytes \<times> nat \<Rightarrow> 'x os_scheme \<Rightarrow> bool" where
  "linked w0 t p c w \<longleftrightarrow>
     os_wf w \<and> file_at w0 p = None \<and> off t (published (file_at w0) p c) (file_at w) \<and>
     since w0 (\<lambda>v. off t (file_at w0) v \<or> off t (published (file_at w0) p c) v) w"

lemma linked_kept: "tree_kept w w' \<Longrightarrow> linked w0 t p c w \<Longrightarrow> linked w0 t p c w'"
  by (simp add: linked_def tree_keptD)

lemma os_link_temp:
  assumes w: "in_temp w0 t i c w" and pt: "p \<noteq> t" and l: "os_link t p w = (r, w')"
  shows "if returned r then linked w0 t p (content c, mode c) w' else in_temp w0 t i c w'"
proof -
  let ?f = "\<lambda>w. case node_at w t of
       None \<Rightarrow> fail (Sys ENOENT) w
     | Some (DirNode _) \<Rightarrow> fail (Sys (EOther 1)) w
     | Some (FileNode i) \<Rightarrow>
         if node_at w p \<noteq> None then fail (Sys EEXIST) w
         else case dir_error w p of
                Some e \<Rightarrow> fail (Sys e) w
              | None \<Rightarrow> ret () (set_node p (FileNode i) w)"
  show ?thesis
  proof (cases rule: syscall_part_cases [of "\<lambda>_ w. w" ?f w])
    case (fault e k)
    with w l show ?thesis by (auto simp: os_link_def syscall_def in_temp_record_view)
  next
    case (run r2 w2)
    with l have r: "r = r2" "w' = record_view w2" by (auto simp: os_link_def syscall_def)
    have n: "node_at w t = Some (FileNode i)" using w by (simp add: in_temp_def)
    show ?thesis
    proof (cases "node_at w p = None \<and> dir_error (w\<lparr>tick := Suc (tick w)\<rparr>) p = None")
      case False
      with run(1) n have "w2 = w\<lparr>tick := Suc (tick w)\<rparr>" "\<not> returned r2"
        by (auto simp: fail_def split: option.splits if_splits)
      with r w show ?thesis by (simp add: in_temp_record_view)
    next
      case True
      with run(1) n have w2: "r2 = Ret ()" "w2 = set_node p (FileNode i) (w\<lparr>tick := Suc (tick w)\<rparr>)"
        by (auto simp: ret_def)
      have c: "inodes w i = Some c" and o: "off t (file_at w0) (file_at w)"
        and h: "since w0 (off t (file_at w0)) w" using w by (simp_all add: in_temp_def)
      have fa: "file_at w2 = (file_at w)(p \<mapsto> (content c, mode c))"
        by (simp add: w2 file_at_set_file c)
      have "file_at w p = None" using True by (simp add: file_at_None_node)
      then have "file_at w0 p = None" using w pt by (simp add: in_temp_def off_def)
      moreover have "os_wf w2"
      proof -
        have wf: "os_wf w" using w by (simp add: in_temp_def)
        with n have "i < next_ino w" using os_wfD by blast
        with wf c show ?thesis unfolding w2 by (intro os_wf_set_file) simp_all
      qed
      moreover have "off t (published (file_at w0) p (content c, mode c)) (file_at w2)"
        using o by (simp add: fa published_def off_def)
      moreover have "since w0 (\<lambda>v. off t (file_at w0) v \<or>
          off t (published (file_at w0) p (content c, mode c)) v) w2"
        unfolding w2 using h by (auto elim: since_mono)
      ultimately show ?thesis by (simp add: r w2(1) linked_def)
    qed
  qed
qed

section \<open>Removing\<close>

text \<open>\<^verbatim>\<open>os.Remove\<close>: the file goes when it succeeds and stays when it fails.\<close>

lemma syscall_keep:
  assumes "\<And>w r w'. f w = (r, w') \<Longrightarrow> \<not> returned r \<Longrightarrow> w' = w"
    and s: "syscall f w = (r, w')" and "\<not> returned r"
  shows "tree_kept w w'"
proof (cases rule: syscall_part_cases [of "\<lambda>_ w. w" f w])
  case (fault e k)
  with s show ?thesis by (auto simp: syscall_def tree_kept_record_view)
next
  case (run r2 w2)
  with s assms(3) have "r = r2" "w' = record_view w2" "w2 = w\<lparr>tick := Suc (tick w)\<rparr>"
    using assms(1) [OF run(1)] by (auto simp: syscall_def)
  then show ?thesis by (simp add: tree_kept_record_view)
qed

text \<open>A name was removed; no other moment is recorded than that.\<close>

definition removed :: "string \<Rightarrow> 'x os_scheme \<Rightarrow> 'x os_scheme \<Rightarrow> bool" where
  "removed p w w' \<longleftrightarrow> node_at w p \<noteq> None \<and> (os_wf w \<longrightarrow> os_wf w') \<and>
     node_at w' = (node_at w)(p := None) \<and> file_at w' = (file_at w)(p := None) \<and>
     (\<forall>v \<in> set (hist w'). v \<in> set (hist w) \<or> v = file_at w \<or> v = (file_at w)(p := None))"

lemma removed_del:
  assumes "node_at w p \<noteq> None"
  shows "removed p w (record_view (del_node p (w\<lparr>tick := n\<rparr>)))"
  using assms by (simp add: removed_def os_wf_del_node)

lemma removed_kept:
  assumes "tree_kept w w1" and "removed p w1 w2"
  shows "removed p w w2"
  using assms tree_keptD [OF assms(1)] by (auto simp: removed_def tree_kept_def)

lemma sys_unlink_result:
  assumes u: "sys_unlink p w = (r, w')"
  shows "if returned r then removed p w w' else tree_kept w w'"
proof (cases r)
  case (Ret x)
  with u obtain w2 where "(case node_at w p of
       None \<Rightarrow> fail (Sys ENOENT) (w\<lparr>tick := Suc (tick w)\<rparr>)
     | Some (DirNode _) \<Rightarrow> fail (Sys EISDIR) (w\<lparr>tick := Suc (tick w)\<rparr>)
     | Some (FileNode _) \<Rightarrow> ret () (del_node p (w\<lparr>tick := Suc (tick w)\<rparr>))) = (Ret x, w2)"
    "w' = record_view w2"
    unfolding sys_unlink_def by (auto elim!: syscall_Ret)
  then have "w' = record_view (del_node p (w\<lparr>tick := Suc (tick w)\<rparr>))" "node_at w p \<noteq> None"
    by (auto simp: fail_def ret_def split: option.splits node.splits)
  with Ret show ?thesis by (simp add: removed_del)
next
  case (Fail e)
  have "tree_kept w w'"
    by (rule syscall_keep [OF _ u [unfolded sys_unlink_def]])
      (auto simp: Fail fail_def ret_def split: option.splits node.splits)
  with Fail show ?thesis by simp
next
  case (Panic s)
  have "tree_kept w w'"
    by (rule syscall_keep [OF _ u [unfolded sys_unlink_def]])
      (auto simp: Panic fail_def ret_def split: option.splits node.splits)
  with Panic show ?thesis by simp
qed

lemma sys_rmdir_result:
  assumes u: "sys_rmdir p w = (r, w')"
  shows "if returned r then removed p w w' else tree_kept w w'"
proof (cases r)
  case (Ret x)
  with u obtain w2 where "(case node_at w p of
       None \<Rightarrow> fail (Sys ENOENT) (w\<lparr>tick := Suc (tick w)\<rparr>)
     | Some (FileNode _) \<Rightarrow> fail (Sys ENOTDIR) (w\<lparr>tick := Suc (tick w)\<rparr>)
     | Some (DirNode _) \<Rightarrow> if dir_empty (w\<lparr>tick := Suc (tick w)\<rparr>) p
         then ret () (del_node p (w\<lparr>tick := Suc (tick w)\<rparr>))
         else fail (Sys ENOTEMPTY) (w\<lparr>tick := Suc (tick w)\<rparr>)) = (Ret x, w2)"
    "w' = record_view w2"
    unfolding sys_rmdir_def by (auto elim!: syscall_Ret)
  then have "w' = record_view (del_node p (w\<lparr>tick := Suc (tick w)\<rparr>))" "node_at w p \<noteq> None"
    by (auto simp: fail_def ret_def split: option.splits node.splits if_splits)
  with Ret show ?thesis by (simp add: removed_del)
next
  case (Fail e)
  have "tree_kept w w'"
    by (rule syscall_keep [OF _ u [unfolded sys_rmdir_def]])
      (auto simp: Fail fail_def ret_def split: option.splits node.splits if_splits)
  with Fail show ?thesis by simp
next
  case (Panic s)
  have "tree_kept w w'"
    by (rule syscall_keep [OF _ u [unfolded sys_rmdir_def]])
      (auto simp: Panic fail_def ret_def split: option.splits node.splits if_splits)
  with Panic show ?thesis by simp
qed

lemma os_remove_result:
  assumes "os_remove p w = (r, w')"
  shows "if returned r then removed p w w' else tree_kept w w'"
proof -
  obtain r1 w1 where u: "sys_unlink p w = (r1, w1)" by fastforce
  obtain r2 w2 where d: "sys_rmdir p w1 = (r2, w2)" by fastforce
  note R = sys_unlink_result [OF u] sys_rmdir_result [OF d]
  show ?thesis
  proof (cases "returned r1")
    case True
    with assms u R show ?thesis by (cases r1) (auto simp: os_remove_def)
  next
    case False
    with assms u d have w: "w' = w2" "returned r = returned r2"
      by (auto simp: os_remove_def split: outcome.splits go_err.splits errno.splits)
    from False R have "tree_kept w w1" by simp
    with w R(2) show ?thesis by (auto intro: removed_kept tree_kept_trans)
  qed
qed

text \<open>Removing the temporary name changes nothing else.\<close>

lemma linked_remove_temp:
  assumes "linked w0 t p c w" and "os_remove t w = (r, w')"
  shows "linked w0 t p c w'"
proof (cases "returned r")
  case True
  with os_remove_result [OF assms(2)] have "removed t w w'" by simp
  with assms(1) show ?thesis by (auto simp: linked_def removed_def since_def)
next
  case False
  with os_remove_result [OF assms(2)] have "tree_kept w w'" by simp
  from this assms(1) show ?thesis by (rule linked_kept)
qed

text \<open>The view after a failure: as before, but for what may be left under the temporary name.\<close>

definition only_temp :: "'x os_scheme \<Rightarrow> string \<Rightarrow> 'x os_scheme \<Rightarrow> bool" where
  "only_temp w0 t w \<longleftrightarrow> os_wf w \<and> off t (file_at w0) (file_at w) \<and> since w0 (off t (file_at w0)) w"

lemma any_temp_only: "any_temp w0 t w \<Longrightarrow> only_temp w0 t w"
  by (auto simp: any_temp_def in_temp_def only_temp_def)

lemma in_temp_only: "in_temp w0 t i c w \<Longrightarrow> only_temp w0 t w"
  by (auto simp: in_temp_def only_temp_def)

lemma only_temp_kept: "tree_kept w w' \<Longrightarrow> only_temp w0 t w \<Longrightarrow> only_temp w0 t w'"
  by (simp add: only_temp_def tree_keptD)

lemma only_temp_remove:
  assumes "only_temp w0 t w" and "os_remove t w = (r, w')"
  shows "only_temp w0 t w' \<and> (returned r \<longrightarrow> file_at w' t = None)"
proof (cases "returned r")
  case True
  with os_remove_result [OF assms(2)] have "removed t w w'" by simp
  with assms(1) show ?thesis by (auto simp: only_temp_def removed_def since_def)
next
  case False
  with os_remove_result [OF assms(2)] have "tree_kept w w'" by simp
  from only_temp_kept [OF this assms(1)] False show ?thesis by simp
qed

end
