(* ===== verification/GoBase64.thy ===== *)
theory GoBase64
  imports GoBytes
begin

text \<open>
  \<^verbatim>\<open>base64.RawURLEncoding.EncodeToString\<close> of Go's standard library: the URL alphabet, no
  padding. A group of three bytes gives four characters, a last group of two bytes three and of
  one byte two. \<open>b64_decode\<close> is the inverse on encoder output; it exists here to show that
  the encoder is injective.
\<close>

definition b64_alphabet :: string where
  "b64_alphabet = ''ABCDEFGHIJKLMNOPQRSTUVWXYZabcdefghijklmnopqrstuvwxyz0123456789-_''"

definition b64_char :: "nat \<Rightarrow> char" where
  "b64_char n = b64_alphabet ! (n mod 64)"

fun b64_encode :: "bytes \<Rightarrow> string" where
  "b64_encode [] = []"
| "b64_encode [a] =
     [b64_char (unat a div 4), b64_char ((unat a mod 4) * 16)]"
| "b64_encode [a, b] =
     [b64_char (unat a div 4), b64_char ((unat a mod 4) * 16 + unat b div 16),
      b64_char ((unat b mod 16) * 4)]"
| "b64_encode (a # b # c # bs) =
     b64_char (unat a div 4) # b64_char ((unat a mod 4) * 16 + unat b div 16)
     # b64_char ((unat b mod 16) * 4 + unat c div 64) # b64_char (unat c mod 64)
     # b64_encode bs"

section \<open>The inverse\<close>

fun index_of :: "'a \<Rightarrow> 'a list \<Rightarrow> nat" where
  "index_of x [] = 0"
| "index_of x (y # ys) = (if x = y then 0 else Suc (index_of x ys))"

lemma index_of_nth: "distinct xs \<Longrightarrow> i < length xs \<Longrightarrow> index_of (xs ! i) xs = i"
  by (induction xs arbitrary: i) (auto simp: nth_Cons split: nat.splits)

definition b64_value :: "char \<Rightarrow> nat" where
  "b64_value c = index_of c b64_alphabet"

lemma distinct_b64_alphabet: "distinct b64_alphabet"
  by (simp add: b64_alphabet_def)

lemma length_b64_alphabet: "length b64_alphabet = 64"
  by (simp add: b64_alphabet_def)

lemma b64_value_char [simp]: "n < 64 \<Longrightarrow> b64_value (b64_char n) = n"
  by (simp add: b64_value_def b64_char_def index_of_nth distinct_b64_alphabet length_b64_alphabet)

fun b64_decode :: "string \<Rightarrow> nat list" where
  "b64_decode [p, q] = [b64_value p * 4 + b64_value q div 16]"
| "b64_decode [p, q, r] =
     [b64_value p * 4 + b64_value q div 16, (b64_value q mod 16) * 16 + b64_value r div 4]"
| "b64_decode (p # q # r # s # cs) =
     (b64_value p * 4 + b64_value q div 16) # ((b64_value q mod 16) * 16 + b64_value r div 4)
     # ((b64_value r mod 4) * 64 + b64_value s) # b64_decode cs"
| "b64_decode _ = []"

lemma six_bits:
  assumes "a < 256" and "b < 256" and "c < (256 :: nat)"
  shows "a div 4 < 64" and "(a mod 4) * 16 + b div 16 < 64" and "(b mod 16) * 4 + c div 64 < 64"
    and "(a mod 4) * 16 < 64" and "(b mod 16) * 4 < 64"
    and "((a mod 4) * 16 + b div 16) div 16 = a mod 4"
    and "((a mod 4) * 16 + b div 16) mod 16 = b div 16"
    and "((b mod 16) * 4 + c div 64) div 4 = b mod 16"
    and "((b mod 16) * 4 + c div 64) mod 4 = c div 64"
    and "b div 16 mod 16 = b div 16"
  using assms by auto

lemma b64_decode_encode: "b64_decode (b64_encode bs) = map unat bs"
proof (induction bs rule: b64_encode.induct)
  case (2 a)
  show ?case
    using six_bits [of "unat a" 0 0] by simp
next
  case (3 a b)
  show ?case
    using six_bits [of "unat a" "unat b" 0] by simp
next
  case (4 a b c bs)
  show ?case
    using six_bits [of "unat a" "unat b" "unat c"] 4 by simp
qed simp

lemma b64_encode_inject: "b64_encode xs = b64_encode ys \<longleftrightarrow> xs = ys"
proof
  assume "b64_encode xs = b64_encode ys"
  then have "map unat xs = map unat ys" by (metis b64_decode_encode)
  moreover have "inj (unat :: byte \<Rightarrow> nat)" by (simp add: inj_def word_unat_eq_iff)
  ultimately show "xs = ys" by (simp add: inj_map_eq_map)
qed simp

section \<open>What the output is made of\<close>

lemma b64_char_in: "b64_char n \<in> set b64_alphabet"
  by (simp add: b64_char_def length_b64_alphabet)

lemma set_b64_encode: "set (b64_encode bs) \<subseteq> set b64_alphabet"
  by (induction bs rule: b64_encode.induct) (auto simp: b64_char_in)

lemma b64_safe: "c \<in> set (b64_encode bs) \<Longrightarrow> c \<noteq> CHR ''/'' \<and> c \<noteq> CHR ''.'' \<and> c \<noteq> CHR 0x00"
  using set_b64_encode [of bs] by (auto simp: b64_alphabet_def)

lemma length_b64_encode: "length (b64_encode bs) = (length bs * 8 + 5) div 6"
  by (induction bs rule: b64_encode.induct) simp_all

end
