(* ===== verification/BlobFormat.thy ===== *)
theory BlobFormat
  imports GoBytes "HOL-Library.Sublist"
begin

text \<open>
  The on-disk format of the Linux backend (\<^verbatim>\<open>key_linux.go\<close>): the magic \<^verbatim>\<open>KPTM\<close>, a version
  byte, and two chunks, each a big-endian 32-bit length followed by that many bytes.
  \<open>encodeBlob\<close> is what \<^verbatim>\<open>writeBlob\<close> assembles, \<open>readFrame\<close> what \<^verbatim>\<open>readBlob\<close> does up to the
  two \<^verbatim>\<open>tpm2.Unmarshal\<close> calls, \<open>readChunk\<close> the source's \<^verbatim>\<open>readChunk\<close>. The readers run on what is
  left in the \<^verbatim>\<open>bytes.Reader\<close>. The lemmas: exactly which inputs are accepted, the round trip,
  and that no truncation of a blob is accepted.
\<close>

definition blobMagic :: string where "blobMagic = ''KPTM''"

definition blobVersion :: byte where "blobVersion = 1"

section \<open>Writing\<close>

definition chunk :: "bytes \<Rightarrow> bytes" where
  "chunk bs = put_be32 (word_of_nat (length bs)) @ bs"

definition encodeBlob :: "bytes \<Rightarrow> bytes \<Rightarrow> bytes" where
  "encodeBlob pubBytes privBytes =
     bytes_of_string blobMagic @ [blobVersion] @ chunk pubBytes @ chunk privBytes"

section \<open>Reading\<close>

definition readChunk :: "(bytes, bytes) go" where
  "readChunk =
     gbind read_be32 (\<lambda>n r.
       if int (length r) < uint n
       then fail (Errorf ''invalid key file: chunk length %d exceeds %d remaining bytes''
                   [FInt (uint n), FInt (int (length r))]) r
       else read_full (unat n) r)"

definition readMagic :: "(bytes, unit) go" where
  "readMagic =
     gbind (on_err (\<lambda>_. Errorf ''invalid key file: bad magic'' []) (read_full (length blobMagic)))
       (\<lambda>magic. if string_of_bytes magic \<noteq> blobMagic
                then fail (Errorf ''invalid key file: bad magic'' []) else ret ())"

definition readVersion :: "(bytes, unit) go" where
  "readVersion =
     gbind (on_err (\<lambda>_. Errorf ''invalid key file: unsupported version'' []) read_byte)
       (\<lambda>ver. if ver \<noteq> blobVersion
              then fail (Errorf ''invalid key file: unsupported version'' []) else ret ())"

definition readFrame :: "(bytes, bytes \<times> bytes) go" where
  "readFrame =
     gbind readMagic (\<lambda>_.
     gbind readVersion (\<lambda>_.
     gbind (on_err (Wrapf ''read public blob: %w'' []) readChunk) (\<lambda>pubBytes.
     gbind (on_err (Wrapf ''read private blob: %w'' []) readChunk) (\<lambda>privBytes.
     ret (pubBytes, privBytes)))))"

section \<open>What the readers accept\<close>

abbreviation fits32 :: "bytes \<Rightarrow> bool" where
  "fits32 bs \<equiv> length bs < 2 ^ 32"

lemma unat_length32: "fits32 bs \<Longrightarrow> unat (word_of_nat (length bs) :: 32 word) = length bs"
  by (simp add: unat_of_nat)

lemma readChunk_Ret:
  "readChunk r = (Ret b, r') \<longleftrightarrow> fits32 b \<and> r = chunk b @ r'"
proof
  assume "readChunk r = (Ret b, r')"
  then obtain n s where n: "r = put_be32 n @ s"
    and b: "(if int (length s) < uint n
       then fail (Errorf ''invalid key file: chunk length %d exceeds %d remaining bytes''
                   [FInt (uint n), FInt (int (length s))]) s
       else read_full (unat n) s) = (Ret b, r')"
    unfolding readChunk_def gbind_eq_Ret by (auto simp: read_be32_Ret)
  from b have s: "s = b @ r'" "length b = unat n"
    by (auto simp: fail_def read_full_Ret split: if_splits)
  then have "word_of_nat (length b) = n" by simp
  moreover have "fits32 b" using s(2) unsigned_less [of n] by simp
  ultimately show "fits32 b \<and> r = chunk b @ r'" using n s by (simp add: chunk_def)
next
  assume b: "fits32 b \<and> r = chunk b @ r'"
  then have "unat (word_of_nat (length b) :: 32 word) = length b" by (simp add: unat_length32)
  moreover have "uint (word_of_nat (length b) :: 32 word) = int (length b)"
    using calculation by (metis uint_nat)
  ultimately show "readChunk r = (Ret b, r')"
    using b unfolding readChunk_def gbind_eq_Ret
    by (intro exI [of _ "word_of_nat (length b)"] exI [of _ "b @ r'"])
      (auto simp: chunk_def read_be32_Ret)
qed

lemma readMagic_Ret: "readMagic r = (Ret u, r') \<longleftrightarrow> r = bytes_of_string blobMagic @ r'"
proof -
  have "string_of_bytes m = blobMagic \<longleftrightarrow> m = bytes_of_string blobMagic" for m
    by (metis bytes_of_string_def string_of_bytes_def string_of_bytes_of_string map_map
        byte_of_char_of_byte comp_def list.map_ident_strong)
  then show ?thesis
    by (auto simp: readMagic_def go_Ret read_full_Ret split: if_splits)
qed

lemma readVersion_Ret: "readVersion r = (Ret u, r') \<longleftrightarrow> r = blobVersion # r'"
  by (auto simp: readVersion_def go_Ret read_byte_Ret split: if_splits)

lemma readFrame_Ret:
  "readFrame r = (Ret (p, q), r') \<longleftrightarrow> fits32 p \<and> fits32 q \<and> r = encodeBlob p q @ r'"
  by (auto simp: readFrame_def go_Ret readMagic_Ret readVersion_Ret readChunk_Ret encodeBlob_def)

lemma readFrame_encodeBlob:
  "fits32 p \<Longrightarrow> fits32 q \<Longrightarrow> readFrame (encodeBlob p q @ r) = (Ret (p, q), r)"
  by (simp add: readFrame_Ret)

section \<open>The readers never panic\<close>

definition no_panic :: "('w, 'a) go \<Rightarrow> bool" where
  "no_panic f \<longleftrightarrow> (\<forall>w s w'. f w \<noteq> (Panic s, w'))"

lemma no_panicI: "(\<And>w s w'. f w \<noteq> (Panic s, w')) \<Longrightarrow> no_panic f"
  by (simp add: no_panic_def)

lemma no_panic_ret [simp]: "no_panic (ret x)" and no_panic_fail [simp]: "no_panic (fail e)"
  by (simp_all add: no_panic_def ret_def fail_def)

lemma no_panic_gbind: "no_panic f \<Longrightarrow> (\<And>x. no_panic (g x)) \<Longrightarrow> no_panic (gbind f g)"
  by (force simp: no_panic_def gbind_def split: prod.splits outcome.splits)

lemma no_panic_on_err: "no_panic f \<Longrightarrow> no_panic (on_err h f)"
  by (force simp: no_panic_def on_err_def split: prod.splits outcome.splits)

lemma no_panic_readers [simp]:
  "no_panic (read_full n)" "no_panic read_byte" "no_panic read_be32"
  by (auto intro!: no_panicI simp: read_full_no_panic read_be32_no_panic read_byte_def
      split: list.splits)

lemma no_panic_readChunk [simp]: "no_panic readChunk"
  unfolding readChunk_def
  by (intro no_panic_gbind no_panic_readers)
    (auto intro!: no_panicI simp: fail_def read_full_no_panic split: if_splits)

lemma no_panic_readFrame [simp]: "no_panic readFrame"
  unfolding readFrame_def readMagic_def readVersion_def
  by (intro no_panic_gbind no_panic_on_err) auto

lemma readFrame_cases:
  obtains (ok) p q r' where "readFrame r = (Ret (p, q), r')"
  | (error) e r' where "readFrame r = (Fail e, r')"
  by (metis no_panic_readFrame no_panic_def outcome.exhaust prod.exhaust)

section \<open>Truncation\<close>

lemma encodeBlob_prefix_free:
  assumes "fits32 p" "fits32 q" "fits32 p'" "fits32 q'"
    and "encodeBlob p q @ r = encodeBlob p' q' @ r'"
  shows "p = p' \<and> q = q' \<and> r = r'"
proof -
  have "(Ret (p, q), r) = readFrame (encodeBlob p q @ r)"
    by (rule readFrame_encodeBlob [OF assms(1,2), symmetric])
  also have "\<dots> = readFrame (encodeBlob p' q' @ r')" by (rule arg_cong [OF assms(5)])
  also have "\<dots> = (Ret (p', q'), r')" by (rule readFrame_encodeBlob [OF assms(3,4)])
  finally show ?thesis by simp
qed

lemma readFrame_truncated:
  assumes "fits32 p" "fits32 q" and "strict_prefix bs (encodeBlob p q)"
  shows "\<exists>e r'. readFrame bs = (Fail e, r')"
proof (cases rule: readFrame_cases [of bs])
  case (ok p' q' r')
  from assms(3) obtain c cs where cs: "encodeBlob p q = bs @ c # cs" by (rule strict_prefixE')
  from ok have r: "fits32 p'" "fits32 q'" "bs = encodeBlob p' q' @ r'" by (auto simp: readFrame_Ret)
  with cs have "encodeBlob p q @ [] = encodeBlob p' q' @ (r' @ c # cs)" by simp
  from encodeBlob_prefix_free [OF assms(1,2) r(1,2) this] show ?thesis by simp
qed auto

end
