(* ===== verification/LinuxStore.thy ===== *)
theory LinuxStore
  imports GoTpm GoOSTemp GoBase64 BlobFormat
begin

text \<open>
  The on-disk key store of the Linux backend (\<^verbatim>\<open>key_linux.go\<close>: \<^verbatim>\<open>blobPath\<close>, \<^verbatim>\<open>writeBlob\<close>,
  \<^verbatim>\<open>readBlob\<close>, \<^verbatim>\<open>deleteKey\<close>). A key is one file; its name is the base64url form of the key's
  name. The process environment \<open>env\<close> is an argument (nothing in the program changes it), the
  empty string standing for an unset variable as in \<^verbatim>\<open>os.Getenv\<close>.
\<close>

section \<open>The operations\<close>

type_synonym environment = "string \<Rightarrow> string"

text \<open>\<^verbatim>\<open>os.UserConfigDir\<close> on Linux.\<close>

definition userConfigDir :: "environment \<Rightarrow> go_err + string" where
  "userConfigDir env =
     (let xdg = env ''XDG_CONFIG_HOME'' in
      if xdg = [] then
        (let home = env ''HOME'' in
         if home = [] then Inl (New ''neither $XDG_CONFIG_HOME nor $HOME are defined'')
         else Inr (home @ ''/.config''))
      else if \<not> rooted xdg then Inl (New ''path in $XDG_CONFIG_HOME is relative'')
      else Inr xdg)"

definition blobFile :: "string \<Rightarrow> string" where
  "blobFile name = b64_encode (bytes_of_string name) @ ''.tpmkey''"

definition blobPath :: "environment \<Rightarrow> string \<Rightarrow> go_err + string" where
  "blobPath env name =
     (case userConfigDir env of
        Inl err \<Rightarrow> Inl (Wrapf ''locate config directory: %w'' [] err)
      | Inr cfg \<Rightarrow> Inr (path_join [cfg, ''key-protecc'', blobFile name]))"

text \<open>\<^verbatim>\<open>if d, err := os.Open(dir); err == nil { _ = d.Sync(); _ = d.Close() }\<close>.\<close>

definition syncDir :: "string \<Rightarrow> ('x os_scheme, unit) go" where
  "syncDir dir w =
     (case os_open dir w of
        (Ret d, w1) \<Rightarrow> (Ret (), snd (file_close d (snd (file_sync d w1))))
      | (_, w1) \<Rightarrow> (Ret (), w1))"

text \<open>
  \<^verbatim>\<open>writeBlob\<close> from the temporary file on: the local variable is \<^verbatim>\<open>tmpName\<close>, which the deferred
  cleanup reads.
\<close>

definition cleanupTemp :: "os_file \<Rightarrow> string \<Rightarrow> 'x os_scheme \<Rightarrow> 'x os_scheme" where
  "cleanupTemp tmp tmpName w =
     (if tmpName \<noteq> [] then snd (os_remove tmpName (snd (file_close tmp w))) else w)"

definition commitTemp :: "string \<Rightarrow> string \<Rightarrow> bytes \<Rightarrow> os_file \<Rightarrow> (string \<times> 'x os_scheme, unit) go" where
  "commitTemp path dir buf tmp =
     gbind (lift_go (on_err (Wrapf ''set permissions: %w'' []) (file_chmod tmp 384))) (\<lambda>_.
     gbind (lift_go (on_err (Wrapf ''write key file: %w'' []) (file_write tmp buf))) (\<lambda>_.
     gbind (lift_go (on_err (Wrapf ''sync key file: %w'' []) (file_sync tmp))) (\<lambda>_.
     gbind (lift_go (on_err (Wrapf ''close key file: %w'' []) (file_close tmp))) (\<lambda>_.
     gbind (lift_go (on_err (Wrapf ''commit key file: %w'' []) (os_link (file_name tmp) path))) (\<lambda>_.
     gbind (lift_go (ignore (os_remove (file_name tmp)))) (\<lambda>_.
     gbind (set_var []) (\<lambda>_.
     lift_go (syncDir dir))))))))"

definition publish :: "string \<Rightarrow> bytes \<Rightarrow> ('x os_scheme, unit) go" where
  "publish path buf =
     (let dir = path_dir path in
      gbind (on_err (Wrapf ''create key store: %w'' []) (os_mkdir_all dir 448)) (\<lambda>_.
      gbind (on_err (Wrapf ''create temp file: %w'' []) (os_create_temp dir ''.tpmkey-'')) (\<lambda>tmp.
      local_var (file_name tmp) (\<lambda>tmpName _. cleanupTemp tmp tmpName) (commitTemp path dir buf tmp))))"

definition writeBlob ::
    "('d, 'pub, 'priv) gotpm \<Rightarrow> string \<Rightarrow> 'pub \<Rightarrow> 'priv \<Rightarrow> ('x os_scheme, unit) go" where
  "writeBlob lib path pub priv = publish path (encodeBlob (Marshal_pub lib pub) (Marshal_priv lib priv))"

text \<open>\<^verbatim>\<open>readBlob\<close>: read the file, then decode; the decoding does not touch the world.\<close>

definition decodeBlob :: "('d, 'pub, 'priv) gotpm \<Rightarrow> (bytes, 'pub \<times> 'priv) go" where
  "decodeBlob lib =
     gbind readFrame (\<lambda>(pubBytes, privBytes).
     gbind (on_err (Wrapf ''unmarshal public blob: %w'' []) (of_sum (Unmarshal_pub lib pubBytes))) (\<lambda>pub.
     gbind (on_err (Wrapf ''unmarshal private blob: %w'' []) (of_sum (Unmarshal_priv lib privBytes))) (\<lambda>priv.
     ret (pub, priv))))"

definition readBlob :: "('d, 'pub, 'priv) gotpm \<Rightarrow> string \<Rightarrow> ('x os_scheme, 'pub \<times> 'priv) go" where
  "readBlob lib path = gbind (os_read_file path) (\<lambda>data w. (fst (decodeBlob lib data), w))"

definition deleteKey :: "environment \<Rightarrow> string \<Rightarrow> ('x os_scheme, unit) go" where
  "deleteKey env name =
     gbind (of_sum (blobPath env name)) (\<lambda>path.
       on_err (\<lambda>err. if os_is_not_exist err
                    then Errorf ''delete key: key %q not found'' [FStr name]
                    else Wrapf ''delete key: %w'' [] err)
         (os_remove path))"

section \<open>Paths of keys\<close>

lemma userConfigDir_nonempty: "userConfigDir env = Inr cfg \<Longrightarrow> cfg \<noteq> []"
  by (auto simp: userConfigDir_def Let_def split: if_splits)

lemma plain_blobFile [simp]: "plain_elem (blobFile name)"
  using b64_safe [of slash "bytes_of_string name"] by (auto simp: plain_elem_def blobFile_def)

lemma plain_store_dir [simp]: "plain_elem ''key-protecc''"
  by (simp add: plain_elem_def)

lemma blobFile_inject: "blobFile n = blobFile m \<longleftrightarrow> n = m"
proof
  assume "blobFile n = blobFile m"
  then have "bytes_of_string n = bytes_of_string m" by (simp add: blobFile_def b64_encode_inject)
  then have "string_of_bytes (bytes_of_string n) = string_of_bytes (bytes_of_string m)"
    by (rule arg_cong)
  then show "n = m" by simp
qed simp

lemma blobPath_Inr:
  "blobPath env name = Inr p \<longleftrightarrow>
     (\<exists>cfg. userConfigDir env = Inr cfg \<and> p = path_join [cfg, ''key-protecc'', blobFile name])"
  by (auto simp: blobPath_def split: sum.splits)

lemma blobPath_inject:
  assumes "blobPath env n = Inr p" and "blobPath env m = Inr p"
  shows "n = m"
proof -
  from assms obtain cfg where c: "userConfigDir env = Inr cfg"
    "path_join [cfg, ''key-protecc'', blobFile n] = path_join [cfg, ''key-protecc'', blobFile m]"
    by (auto simp: blobPath_Inr)
  from path_join3_inject [OF userConfigDir_nonempty [OF c(1)] plain_store_dir plain_blobFile
      plain_blobFile c(2)]
  show ?thesis by (simp add: blobFile_inject)
qed

text \<open>Every key file lies directly in the store directory.\<close>

lemma blobPath_dir:
  assumes "userConfigDir env = Inr cfg" and "blobPath env name = Inr p"
  shows "path_dir p = path_join [cfg, ''key-protecc''] \<and> p = path_dir p @ slash # blobFile name"
proof -
  have c: "cfg \<noteq> []" using assms(1) by (rule userConfigDir_nonempty)
  have p: "p = path_join [cfg, ''key-protecc'', blobFile name]"
    using assms by (auto simp: blobPath_Inr)
  have d: "path_dir p = path_join [cfg, ''key-protecc'']"
    unfolding p by (rule path_dir_join3 [OF c plain_store_dir plain_blobFile])
  moreover have "p = path_join [cfg, ''key-protecc''] @ slash # blobFile name"
    unfolding p path_join3 [OF c plain_store_dir plain_blobFile] path_join2 [OF c plain_store_dir]
    by (simp add: render_def join_path_snoc [of "clean_elems cfg @ [''key-protecc'']", simplified])
  ultimately show ?thesis by simp
qed

text \<open>A temporary file never has the name of a key.\<close>

lemma dec_digits_nonempty [simp]: "dec_digits n \<noteq> []"
  by (subst dec_digits.simps) simp

lemma last_dec_digits: "\<exists>d < 10. last (dec_digits n) = char_of (48 + d :: nat)"
  by (subst dec_digits.simps) (auto intro: exI [of _ "n mod 10"])

lemma last_dec_digits_neq: "last (dec_digits n) \<noteq> CHR ''y''"
proof
  assume y: "last (dec_digits n) = CHR ''y''"
  from last_dec_digits [of n] obtain d :: nat where d: "d < 10" "last (dec_digits n) = char_of (48 + d)"
    by blast
  with y have "(of_char (CHR ''y'') :: nat) = of_char (char_of (48 + d) :: char)" by simp
  also have "\<dots> = 48 + d" using d(1) by simp
  finally show False using d(1) by simp
qed

lemma blobPath_not_temp: "blobPath env name = Inr p \<Longrightarrow> p \<noteq> temp_name dir pre n"
proof
  assume "blobPath env name = Inr p" and t: "p = temp_name dir pre n"
  then obtain cfg where "userConfigDir env = Inr cfg" "p = path_dir p @ slash # blobFile name"
    using blobPath_dir by (auto simp: blobPath_Inr)
  then have "last p = last (slash # blobFile name)" by (metis last_appendR list.distinct(1))
  also have "\<dots> = CHR ''y''" by (simp add: blobFile_def)
  finally show False using t last_dec_digits_neq [of n] by (simp add: temp_name_def)
qed

section \<open>Publishing a blob\<close>

lemma inert_file_sync [simp]: "inert (file_sync f)"
proof -
  have id: "w\<lparr>inodes := (inodes w)(i := map_option (\<lambda>n. n) (inodes w i))\<rparr> = w" for w :: "'a os_scheme" and i
    by (simp add: option.map_ident fun_upd_idem)
  have r: "inert (syscall (ret ()) :: ('a os_scheme, unit) go)" by (simp add: inert_syscall)
  have "file_sync f w = (if fds w (file_fd f) = None then fail err_closed w else syscall (ret ()) w)"
    for w :: "'a os_scheme"
    by (auto simp: file_sync_def on_inode_def id syscall_def ret_def [abs_def] split: option.split node.split)
  then show ?thesis by (auto intro!: inertI simp: inert_snd [OF r] fail_def)
qed

lemma inert_syncDir [simp]: "inert (syncDir dir)"
proof (rule inertI)
  fix w :: "'a os_scheme"
  obtain r1 w1 where o: "os_open dir w = (r1, w1)" by fastforce
  have k: "tree_kept w w1" using inert_open o by (rule inert_kept)
  have "tree_kept w (snd (file_close d (snd (file_sync d w1))))" for d
    using tree_kept_trans [OF k inert_snd [OF inert_file_sync]] inert_snd [OF inert_close]
    by (rule tree_kept_trans)
  with k show "tree_kept w (snd (syncDir dir w))"
    by (simp add: syncDir_def o split: outcome.split)
qed

lemma syncDir_returned [simp]: "returned (fst (syncDir dir w))"
  by (auto simp: syncDir_def split: prod.split outcome.split)

text \<open>How \<open>commitTemp\<close> ends: published with the variable cleared, or with only the temporary file left.\<close>

definition committed ::
    "'x os_scheme \<Rightarrow> string \<Rightarrow> string \<Rightarrow> bytes \<Rightarrow> unit outcome \<Rightarrow> string \<times> 'x os_scheme \<Rightarrow> bool" where
  "committed w0 t path buf r vw \<longleftrightarrow>
     (if returned r then fst vw = [] \<and> linked w0 t path (buf, 384) (snd vw)
      else fst vw = t \<and> only_temp w0 t (snd vw))"

lemma commit_stage:
  assumes f: "triple P f (\<lambda>r w. if returned r then S w else only_temp w0 t w)"
    and g: "triple (\<lambda>vw. fst vw = t \<and> S (snd vw)) g (committed w0 t path buf)"
  shows "triple (\<lambda>vw. fst vw = t \<and> P (snd vw)) (gbind (lift_go (on_err h f)) (\<lambda>_. g))
    (committed w0 t path buf)"
proof (rule triple_gbind [where R = "\<lambda>r vw. fst vw = t \<and> (if returned r then S (snd vw) else only_temp w0 t (snd vw))"])
  show "triple (\<lambda>vw. fst vw = t \<and> P (snd vw)) (lift_go (on_err h f))
      (\<lambda>r vw. fst vw = t \<and> (if returned r then S (snd vw) else only_temp w0 t (snd vw)))"
  proof (rule tripleI)
    fix vw r vw'
    assume vw: "fst vw = t \<and> P (snd vw)" and e: "lift_go (on_err h f) vw = (r, vw')"
    obtain r1 w1 where fw: "f (snd vw) = (r1, w1)" by fastforce
    from tripleD [OF f fw] vw e fw
    show "fst vw' = t \<and> (if returned r then S (snd vw') else only_temp w0 t (snd vw'))"
      by (cases r1) (auto simp: lift_go_def on_err_def)
  qed
  show "triple (\<lambda>vw. fst vw = t \<and> (if returned (Ret x) then S (snd vw) else only_temp w0 t (snd vw))) g
      (committed w0 t path buf)" for x :: 'b
    using g by simp
qed (auto simp: committed_def)


text \<open>The steps of \<open>commitTemp\<close>, each with the state of the temporary file it leaves.\<close>

lemma stage_on_inode:
  assumes "\<And>c. C c \<Longrightarrow> D (upd c)"
  shows "triple (open_temp w0 f i C) (on_inode f part upd)
    (\<lambda>r w. if returned r then open_temp w0 f i D w else only_temp w0 (file_name f) w)"
  by (rule triple_conseq [OF triple_on_inode [of C D, OF assms]])
    (auto simp: any_temp_only split: if_splits)

definition closed_temp :: "'x os_scheme \<Rightarrow> os_file \<Rightarrow> nat \<Rightarrow> inode \<Rightarrow> 'x os_scheme \<Rightarrow> bool" where
  "closed_temp w0 f i c w \<longleftrightarrow> in_temp w0 (file_name f) i c w"

lemma stage_close:
  "triple (open_temp w0 f i (\<lambda>c'. c' = c)) (file_close f)
    (\<lambda>r w. if returned r then closed_temp w0 f i c w else only_temp w0 (file_name f) w)"
proof (rule tripleI)
  fix w r w'
  assume w: "open_temp w0 f i (\<lambda>c'. c' = c) w" and c: "file_close f w = (r, w')"
  have "tree_kept w w'" using inert_close c by (rule inert_kept)
  moreover have "in_temp w0 (file_name f) i c w" using w by (auto simp: open_temp_def)
  ultimately have "in_temp w0 (file_name f) i c w'" by (rule in_temp_kept)
  then show "if returned r then closed_temp w0 f i c w' else only_temp w0 (file_name f) w'"
    by (simp add: closed_temp_def in_temp_only)
qed

lemma stage_link:
  assumes "path \<noteq> file_name f"
  shows "triple (closed_temp w0 f i c) (os_link (file_name f) path)
    (\<lambda>r w. if returned r then linked w0 (file_name f) path (content c, mode c) w
      else only_temp w0 (file_name f) w)"
proof (rule tripleI)
  fix w r w'
  assume "closed_temp w0 f i c w" and l: "os_link (file_name f) path w = (r, w')"
  then have "in_temp w0 (file_name f) i c w" by (simp add: closed_temp_def)
  from os_link_temp [OF this assms l]
  show "if returned r then linked w0 (file_name f) path (content c, mode c) w'
      else only_temp w0 (file_name f) w'" by (auto simp: in_temp_only)
qed

lemma commit_end:
  "triple (\<lambda>vw. fst vw = t \<and> linked w0 t path (buf, 384) (snd vw))
    (gbind (lift_go (ignore (os_remove t))) (\<lambda>_. gbind (set_var []) (\<lambda>_. lift_go (syncDir dir))))
    (committed w0 t path buf)"
proof (rule tripleI)
  fix vw r vw'
  assume vw: "fst vw = t \<and> linked w0 t path (buf, 384) (snd vw)"
    and e: "gbind (lift_go (ignore (os_remove t))) (\<lambda>_. gbind (set_var [])
      (\<lambda>_. lift_go (syncDir dir))) vw = (r, vw')"
  obtain r1 w1 where rm: "os_remove t (snd vw) = (r1, w1)" by fastforce
  obtain r2 w2 where sd: "syncDir dir w1 = (r2, w2)" by fastforce
  from e rm sd have r: "r = r2" "vw' = ([], w2)"
    by (auto simp: go_defs ignore_def split: outcome.splits prod.splits)
  from vw rm have "linked w0 t path (buf, 384) w1" using linked_remove_temp by blast
  with inert_kept [OF inert_syncDir sd] have "linked w0 t path (buf, 384) w2" by (rule linked_kept)
  moreover have "returned r2" using syncDir_returned [of dir w1] sd by simp
  ultimately show "committed w0 t path buf r vw'" by (simp add: committed_def r)
qed

lemma commitTemp_triple:
  assumes "path \<noteq> file_name tmp"
  shows "triple (\<lambda>vw. fst vw = file_name tmp \<and>
      open_temp w0 tmp i (\<lambda>c. c = \<lparr>content = [], mode = 384\<rparr>) (snd vw))
    (commitTemp path dir buf tmp) (committed w0 (file_name tmp) path buf)"
proof -
  let ?t = "file_name tmp" and ?c = "\<lparr>content = buf, mode = 384\<rparr>"
  have l: "triple (closed_temp w0 tmp i ?c) (os_link ?t path)
      (\<lambda>r w. if returned r then linked w0 ?t path (buf, 384) w else only_temp w0 ?t w)"
    using stage_link [OF assms, of w0 i ?c] by (simp only: inode.select_convs)
  have s: "triple (open_temp w0 tmp i (\<lambda>c. c = ?c)) (file_sync tmp)
      (\<lambda>r w. if returned r then open_temp w0 tmp i (\<lambda>c. c = ?c) w else only_temp w0 ?t w)"
    unfolding file_sync_def by (rule stage_on_inode)
  have w: "triple (open_temp w0 tmp i (\<lambda>c. c = \<lparr>content = [], mode = 384\<rparr>)) (file_write tmp buf)
      (\<lambda>r w. if returned r then open_temp w0 tmp i (\<lambda>c. c = ?c) w else only_temp w0 ?t w)"
    unfolding file_write_def by (rule stage_on_inode) simp
  have p: "triple (open_temp w0 tmp i (\<lambda>c. c = \<lparr>content = [], mode = 384\<rparr>)) (file_chmod tmp 384)
      (\<lambda>r w. if returned r then open_temp w0 tmp i (\<lambda>c. c = \<lparr>content = [], mode = 384\<rparr>) w
        else only_temp w0 ?t w)"
    unfolding file_chmod_def by (rule stage_on_inode) simp
  show ?thesis
    unfolding commitTemp_def
    by (intro commit_stage [OF p] commit_stage [OF w] commit_stage [OF s]
        commit_stage [OF stage_close] commit_stage [OF l] commit_end)
qed

section \<open>The result of publishing\<close>

definition temp_of :: "string \<Rightarrow> string \<Rightarrow> bool" where
  "temp_of path t \<longleftrightarrow> (\<exists>n. t = temp_name (path_dir path) ''.tpmkey-'' n)"

lemma cleanup_only_temp:
  "only_temp w0 (file_name tmp) w \<Longrightarrow> only_temp w0 (file_name tmp) (cleanupTemp tmp (file_name tmp) w)"
proof -
  assume o: "only_temp w0 (file_name tmp) w"
  obtain r1 w1 where c: "file_close tmp w = (r1, w1)" by fastforce
  obtain r2 w2 where rm: "os_remove (file_name tmp) w1 = (r2, w2)" by fastforce
  have "only_temp w0 (file_name tmp) w1"
    using inert_kept [OF inert_close c] o by (rule only_temp_kept)
  from only_temp_remove [OF this rm] o show ?thesis
    by (cases "file_name tmp = []") (simp_all add: cleanupTemp_def c rm)
qed

lemma tree_same_only: "tree_same w0 w \<Longrightarrow> only_temp w0 t w"
  by (auto simp: tree_same_def only_temp_def elim: since_mono)

lemma publish_result:
  assumes wf: "os_wf w0" and path: "\<And>t. temp_of path t \<Longrightarrow> path \<noteq> t"
    and p: "publish path buf w0 = (r, w')"
  shows "\<exists>t. temp_of path t \<and> (if returned r then linked w0 t path (buf, 384) w' else only_temp w0 t w')"
proof -
  let ?dir = "path_dir path"
  let ?Q = "\<lambda>r w. \<exists>t. temp_of path t \<and>
    (if returned r then linked w0 t path (buf, 384) w else only_temp w0 t w)"
  have t0: "temp_of path (temp_name ?dir ''.tpmkey-'' 0)" by (auto simp: temp_of_def)
  have body: "triple (temp_made w0 ?dir ''.tpmkey-'' (Ret tmp))
      (local_var (file_name tmp) (\<lambda>tmpName _. cleanupTemp tmp tmpName) (commitTemp path ?dir buf tmp)) ?Q"
    for tmp
  proof (rule tripleI)
    fix w r w'
    assume "temp_made w0 ?dir ''.tpmkey-'' (Ret tmp) w"
    then obtain i where t: "temp_of path (file_name tmp)"
      and o: "open_temp w0 tmp i (\<lambda>c. c = \<lparr>content = [], mode = 384\<rparr>) w"
      by (auto simp: temp_made_def temp_of_def open_temp_def)
    assume e: "local_var (file_name tmp) (\<lambda>tmpName _. cleanupTemp tmp tmpName)
        (commitTemp path ?dir buf tmp) w = (r, w')"
    obtain r1 v1 w1 where c: "commitTemp path ?dir buf tmp (file_name tmp, w) = (r1, v1, w1)"
      by (metis prod.exhaust)
    from e c have r: "r = r1" "w' = cleanupTemp tmp v1 w1" by (auto simp: local_var_def)
    from tripleD [OF commitTemp_triple [OF path [OF t]] c] o
    have "committed w0 (file_name tmp) path buf r1 (v1, w1)" by auto
    with cleanup_only_temp [of w0 tmp w1] r t show "?Q r w'"
      by (auto simp: committed_def cleanupTemp_def split: if_splits)
  qed
  have mk: "triple (tree_same w0) (on_err (Wrapf ''create temp file: %w'' [])
      (os_create_temp ?dir ''.tpmkey-'')) (temp_made w0 ?dir ''.tpmkey-'')"
    by (rule triple_on_err [OF triple_create_temp]) (simp_all add: temp_made_def)
  have "triple (tree_same w0) (publish path buf) ?Q"
    unfolding publish_def Let_def
  proof (rule triple_gbind [where R = "\<lambda>_. tree_same w0"])
    show "triple (tree_same w0) (on_err (Wrapf ''create key store: %w'' []) (os_mkdir_all ?dir 448))
        (\<lambda>_. tree_same w0)"
      by (rule triple_on_err [OF triple_mkdir_all_same])
    show "triple (tree_same w0) (gbind (on_err (Wrapf ''create temp file: %w'' [])
        (os_create_temp ?dir ''.tpmkey-'')) (\<lambda>tmp. local_var (file_name tmp)
        (\<lambda>tmpName _. cleanupTemp tmp tmpName) (commitTemp path ?dir buf tmp))) ?Q" for x :: unit
    proof (rule triple_gbind [OF mk body])
      show "temp_made w0 ?dir ''.tpmkey-'' (Fail e) w \<Longrightarrow> ?Q (Fail e) w" for e w
        using t0 tree_same_only by (auto simp: temp_made_def)
      show "temp_made w0 ?dir ''.tpmkey-'' (Panic e) w \<Longrightarrow> ?Q (Panic e) w" for e w
        using t0 tree_same_only by (auto simp: temp_made_def)
    qed
  qed (use t0 tree_same_only in \<open>auto simp: temp_made_def\<close>)
  from tripleD [OF this p tree_same_refl [OF wf]] show ?thesis .
qed

section \<open>What publishing holds\<close>

lemma owns_quiet:
  assumes "quiet f" and "\<And>w r w' M. fds w' = fds w \<Longrightarrow> P w M \<Longrightarrow> Q r w' M"
  shows "owns ledger_log P f Q"
proof (rule ownsI)
  fix w M r w'
  assume "P w M" and f: "f w = (r, w')"
  with quietD [OF assms(1) f] assms(2) show "\<exists>es M'. ledger_log w' = ledger_log w @ es \<and> Q r w' M' \<and>
      (\<forall>F. run_log (M + F) es = Some (M' + F))"
    by (intro exI [of _ "[]"] exI [of _ M]) auto
qed

lemma syncDir_ignore:
  "syncDir dir = ignore (gbind (os_open dir) (\<lambda>d. gbind (ignore (file_sync d)) (\<lambda>_. file_close d)))"
  by (rule ext) (auto simp: syncDir_def ignore_def gbind_def split: prod.split outcome.split)

lemma moves_syncDir [ledger]: "moves ledger_log (\<lambda>_. {#}) (syncDir dir) (\<lambda>_ _. {#})"
  unfolding syncDir_ignore
proof (intro moves_ignore moves_gbind [OF moves_os_open])
  show "moves ledger_log (opened (Ret d)) (gbind (ignore (file_sync d)) (\<lambda>_. file_close d)) (\<lambda>_ _. {#})" for d
    by (rule moves_gbind [where R = "\<lambda>r w. if returned r then file_res d w else {#}"])
      (auto intro: moves_ignore [OF moves_weaken [OF moves_quiet_file]] moves_file_close)
qed simp_all

text \<open>While \<open>tmpName\<close> is set the descriptor is held unless it was closed; afterwards it is closed.\<close>

definition commit_open :: "os_file \<Rightarrow> string \<times> 'x os_scheme \<Rightarrow> lx_res multiset \<Rightarrow> bool" where
  "commit_open tmp vw M \<longleftrightarrow> fst vw \<noteq> [] \<and> M = file_res tmp (snd vw)"

definition commit_closed :: "os_file \<Rightarrow> string \<times> 'x os_scheme \<Rightarrow> lx_res multiset \<Rightarrow> bool" where
  "commit_closed tmp vw M \<longleftrightarrow> fds (snd vw) (file_fd tmp) = None \<and> M = {#}"

definition commit_res :: "os_file \<Rightarrow> string \<times> 'x os_scheme \<Rightarrow> lx_res multiset \<Rightarrow> bool" where
  "commit_res tmp vw M \<longleftrightarrow> M = (if fst vw = [] then {#} else file_res tmp (snd vw))"

lemmas commit_defs = commit_open_def commit_closed_def commit_res_def file_res_def

lemma owns_commit_quiet:
  assumes "quiet f" and "P = commit_open tmp \<or> P = commit_closed tmp"
  shows "owns (ledger_log \<circ> snd) P (lift_go (on_err h f)) (\<lambda>r vw M. P vw M)"
  by (intro owns_lift owns_quiet quiet_on_err) (use assms in \<open>auto simp: commit_defs\<close>)

lemma commit_resI: "commit_open tmp vw M \<or> commit_closed tmp vw M \<Longrightarrow> commit_res tmp vw M"
  by (auto simp: commit_defs)

lemma owns_file_close:
  "owns ledger_log (\<lambda>w M. M = file_res f w) (file_close f) (\<lambda>_ w M. fds w (file_fd f) = None \<and> M = {#})"
proof (rule ownsI)
  fix w :: "'a os_scheme" and M r w'
  assume M: "M = file_res f w" and c: "file_close f w = (r, w')"
  from movesD [OF moves_file_close c] obtain es where "ledger_log w' = ledger_log w @ es"
    "\<And>F. run_log (file_res f w + F) es = Some ({#} + F)" by metis
  with M file_close_closed [OF c] show "\<exists>es M'. ledger_log w' = ledger_log w @ es \<and>
      (fds w' (file_fd f) = None \<and> M' = {#}) \<and> (\<forall>F. run_log (M + F) es = Some (M' + F))" by metis
qed

lemma owns_commit_close:
  "owns (ledger_log \<circ> snd) (commit_open tmp) (lift_go (on_err h (file_close tmp))) (\<lambda>_. commit_closed tmp)"
  by (intro owns_lift owns_on_err [OF owns_conseq [OF owns_file_close]]) (auto simp: commit_defs)

lemma owns_commit_end:
  "owns (ledger_log \<circ> snd) (commit_closed tmp)
    (gbind (lift_go (ignore (os_remove t))) (\<lambda>_. gbind (set_var []) (\<lambda>_. lift_go (syncDir dir))))
    (\<lambda>_. commit_res tmp)"
proof (rule owns_gbind [where R = "\<lambda>_. commit_closed tmp"])
  show "owns (ledger_log \<circ> snd) (commit_closed tmp) (lift_go (ignore (os_remove t))) (\<lambda>_. commit_closed tmp)"
    by (intro owns_lift owns_ignore owns_quiet) (auto simp: commit_defs)
  show "owns (ledger_log \<circ> snd) (commit_closed tmp) (gbind (set_var []) (\<lambda>_. lift_go (syncDir dir)))
      (\<lambda>_. commit_res tmp)" for x :: unit
  proof (rule owns_gbind [where R = "\<lambda>r vw M. fst vw = [] \<and> returned r \<and> M = {#}"])
    show "owns (ledger_log \<circ> snd) (\<lambda>vw M. fst vw = [] \<and> returned (Ret x) \<and> M = {#}) (lift_go (syncDir dir)) (\<lambda>_. commit_res tmp)"
      for x :: unit
      by (intro owns_lift) (simp only: fst_conv, rule owns_pure,
          rule owns_conseq [OF moves_syncDir [unfolded moves_def]], auto simp: commit_res_def)
    show "owns (ledger_log \<circ> snd) (commit_closed tmp) (set_var [])
        (\<lambda>r vw M. fst vw = [] \<and> returned r \<and> M = {#})"
      by (rule owns_set_var) (simp add: commit_closed_def)
  qed simp_all
qed (auto intro: commit_resI)

lemma owns_commitTemp: "owns (ledger_log \<circ> snd) (commit_open tmp) (commitTemp path dir buf tmp) (\<lambda>_. commit_res tmp)"
  unfolding commitTemp_def
  by (intro owns_gbind [where R = "\<lambda>_. commit_open tmp", OF owns_commit_quiet]
      owns_gbind [OF owns_commit_close]
      owns_gbind [where R = "\<lambda>_. commit_closed tmp", OF owns_commit_quiet] owns_commit_end)
    (auto intro: commit_resI)

text \<open>Publishing gives every descriptor back, on every path, and never closes one twice.\<close>

lemma owns_cleanupTemp:
  "owns_st ledger_log (\<lambda>w. commit_res tmp (v, w)) (cleanupTemp tmp v) (\<lambda>_ M. M = {#})"
proof (cases "v = []")
  case True
  then show ?thesis
    by (simp add: cleanupTemp_def [abs_def]) (rule owns_st_id, simp add: commit_res_def)
next
  case False
  have "owns ledger_log (\<lambda>w M. M = file_res tmp w)
      (gbind (ignore (file_close tmp)) (\<lambda>_. os_remove v)) (\<lambda>_ _ M. M = {#})"
    by (rule owns_gbind [where R = "\<lambda>_ _ M. M = {#}"])
      (auto intro: owns_ignore owns_conseq [OF owns_file_close] owns_quiet)
  from owns_st_snd [OF this] have "owns_st ledger_log (\<lambda>w M. M = file_res tmp w)
      (\<lambda>w. snd (os_remove v (snd (file_close tmp w)))) (\<lambda>_ M. M = {#})"
    by (simp add: gbind_def ignore_def)
  with False show ?thesis
    by (simp add: cleanupTemp_def [abs_def]) (erule owns_st_conseq, auto simp: commit_res_def)
qed

definition temp_opened :: "os_file outcome \<Rightarrow> 'x os_scheme \<Rightarrow> lx_res multiset \<Rightarrow> bool" where
  "temp_opened r w M \<longleftrightarrow> M = opened r w \<and> (case r of Ret f \<Rightarrow> file_name f \<noteq> [] | _ \<Rightarrow> True)"

lemma owns_temp_opened: "owns ledger_log (\<lambda>_ M. M = {#}) (os_create_temp d pre) temp_opened"
  unfolding temp_opened_def
proof (rule owns_result [OF moves_create_temp [unfolded moves_def]])
  show "os_create_temp d pre w = (r, w') \<Longrightarrow> case r of Ret f \<Rightarrow> file_name f \<noteq> [] | _ \<Rightarrow> True" for w :: "'a os_scheme" and r w'
    using create_temp_name [of d pre w] by (cases r) (force dest: sym)+
qed

lemma moves_publish [ledger]: "moves ledger_log (\<lambda>_. {#}) (publish path buf) (\<lambda>_ _. {#})"
  unfolding publish_def Let_def
proof (rule moves_gbind [where R = "\<lambda>_ _. {#}"])
  show "moves ledger_log (\<lambda>_. {#}) (on_err h (os_mkdir_all d m)) (\<lambda>_ _. {#})" for h d m
    by (intro moves_quiet_const quiet_on_err) simp
  show "moves ledger_log (\<lambda>_. {#}) (gbind (on_err h (os_create_temp d pre)) (\<lambda>tmp.
      local_var (file_name tmp) (\<lambda>tmpName _. cleanupTemp tmp tmpName) (commitTemp path d buf tmp)))
      (\<lambda>_ _. {#})" for x :: unit and h d pre
    unfolding moves_def
  proof (rule owns_gbind [where R = "temp_opened"])
    show "owns ledger_log (\<lambda>_ M. M = {#}) (on_err h (os_create_temp d pre)) temp_opened"
      by (rule owns_on_err [OF owns_temp_opened]) (simp_all add: temp_opened_def)
    show "owns ledger_log (temp_opened (Ret tmp)) (local_var (file_name tmp)
        (\<lambda>tmpName _. cleanupTemp tmp tmpName) (commitTemp path d buf tmp)) (\<lambda>_ _ M. M = {#})" for tmp
      by (rule owns_local_var [OF owns_commitTemp _ owns_cleanupTemp])
        (simp add: commit_open_def temp_opened_def)
  qed (simp_all add: temp_opened_def)
qed simp_all

end
