(* ===== verification/KeyTable.thy ===== *)
theory KeyTable
  imports Prelude
begin

text \<open>
  The contract of a persistent key store, as the callers of a backend rely on it: \<open>view w\<close> is the
  table of stored keys in the state \<open>w\<close>, and the three operations either do to the table what their name
  says or leave it alone. An insertion never replaces an entry.

  The lemmas of the locale follow from the contract alone: runs of operations refine the
  abstract table machine \<open>table_run\<close>, and the facts a client wants (what was inserted can be read back,
  a taken name is refused, a deleted name is free again).
\<close>

datatype ('k, 'v) table_op = Insert 'k 'v | Lookup 'k | Delete 'k

datatype 'v table_result = Done | Found 'v | Refused

text \<open>
  The abstract machine. Any operation may be refused (I/O errors, a closed device, a missing
  key); an insertion that is not refused finds the key absent, a lookup finds the entry.
\<close>

fun table_step :: "('k \<Rightarrow> 'v option) \<Rightarrow> ('k, 'v) table_op \<Rightarrow> 'v table_result \<Rightarrow> ('k \<Rightarrow> 'v option) option" where
  "table_step m op Refused = Some m"
| "table_step m (Insert k v) Done = (if m k = None then Some (m(k \<mapsto> v)) else None)"
| "table_step m (Delete k) Done = Some (m(k := None))"
| "table_step m (Lookup k) (Found v) = (if m k = Some v then Some m else None)"
| "table_step m op res = None"

fun table_run ::
    "('k \<Rightarrow> 'v option) \<Rightarrow> ('k, 'v) table_op list \<Rightarrow> 'v table_result list \<Rightarrow> ('k \<Rightarrow> 'v option) option" where
  "table_run m [] [] = Some m"
| "table_run m (op # ops) (res # rs) =
     (case table_step m op res of None \<Rightarrow> None | Some m' \<Rightarrow> table_run m' ops rs)"
| "table_run m _ _ = None"

text \<open>Running the operations of a store and recording what they answered.\<close>

definition result_unit :: "unit outcome \<Rightarrow> 'v table_result" where
  "result_unit r = (if returned r then Done else Refused)"

definition result_value :: "'v outcome \<Rightarrow> 'v table_result" where
  "result_value r = (case r of Ret v \<Rightarrow> Found v | _ \<Rightarrow> Refused)"

fun store_step ::
    "('k \<Rightarrow> 'v \<Rightarrow> ('w, unit) go) \<Rightarrow> ('k \<Rightarrow> ('w, 'v) go) \<Rightarrow> ('k \<Rightarrow> ('w, unit) go)
     \<Rightarrow> ('k, 'v) table_op \<Rightarrow> 'w \<Rightarrow> 'v table_result \<times> 'w" where
  "store_step ins look del (Insert k v) w = (case ins k v w of (r, w') \<Rightarrow> (result_unit r, w'))"
| "store_step ins look del (Lookup k) w = (case look k w of (r, w') \<Rightarrow> (result_value r, w'))"
| "store_step ins look del (Delete k) w = (case del k w of (r, w') \<Rightarrow> (result_unit r, w'))"

fun store_run ::
    "('k \<Rightarrow> 'v \<Rightarrow> ('w, unit) go) \<Rightarrow> ('k \<Rightarrow> ('w, 'v) go) \<Rightarrow> ('k \<Rightarrow> ('w, unit) go)
     \<Rightarrow> ('k, 'v) table_op list \<Rightarrow> 'w \<Rightarrow> 'v table_result list \<times> 'w" where
  "store_run ins look del [] w = ([], w)"
| "store_run ins look del (op # ops) w =
     (case store_step ins look del op w of (res, w1) \<Rightarrow>
        (case store_run ins look del ops w1 of (rs, w2) \<Rightarrow> (res # rs, w2)))"

text \<open>The operations that may change the entry of a name.\<close>

fun touches :: "'k \<Rightarrow> ('k, 'v) table_op \<Rightarrow> bool" where
  "touches k (Insert k' v) = (k' = k)"
| "touches k (Lookup k') = False"
| "touches k (Delete k') = (k' = k)"

locale key_table =
  fixes view :: "'w \<Rightarrow> 'k \<Rightarrow> 'v option"
    and inv :: "'w \<Rightarrow> bool"
    and ins :: "'k \<Rightarrow> 'v \<Rightarrow> ('w, unit) go"
    and look :: "'k \<Rightarrow> ('w, 'v) go"
    and del :: "'k \<Rightarrow> ('w, unit) go"
  assumes ins_inv: "inv w \<Longrightarrow> ins k v w = (r, w') \<Longrightarrow> inv w'"
    and ins_done: "inv w \<Longrightarrow> ins k v w = (r, w') \<Longrightarrow> returned r \<Longrightarrow>
      view w k = None \<and> view w' = (view w)(k \<mapsto> v)"
    and ins_refused: "inv w \<Longrightarrow> ins k v w = (r, w') \<Longrightarrow> \<not> returned r \<Longrightarrow> view w' = view w"
    and look_inv: "inv w \<Longrightarrow> look k w = (s, w') \<Longrightarrow> inv w'"
    and look_view: "inv w \<Longrightarrow> look k w = (s, w') \<Longrightarrow> view w' = view w"
    and look_found: "inv w \<Longrightarrow> look k w = (Ret v, w') \<Longrightarrow> view w k = Some v"
    and del_inv: "inv w \<Longrightarrow> del k w = (r, w') \<Longrightarrow> inv w'"
    and del_done: "inv w \<Longrightarrow> del k w = (r, w') \<Longrightarrow> returned r \<Longrightarrow> view w' = (view w)(k := None)"
    and del_refused: "inv w \<Longrightarrow> del k w = (r, w') \<Longrightarrow> \<not> returned r \<Longrightarrow> view w' = view w"
begin

lemma step_refines:
  assumes "inv w" and "store_step ins look del op w = (res, w')"
  shows "inv w' \<and> table_step (view w) op res = Some (view w')"
proof (cases op)
  case (Insert k v)
  obtain r w1 where e: "ins k v w = (r, w1)" by fastforce
  with assms(2) Insert have "res = result_unit r" "w' = w1" by simp_all
  with e ins_inv [OF assms(1) e] ins_done [OF assms(1) e] ins_refused [OF assms(1) e] Insert
  show ?thesis by (cases "returned r") (simp_all add: result_unit_def)
next
  case (Lookup k)
  obtain r w1 where e: "look k w = (r, w1)" by fastforce
  with assms(2) Lookup have "res = result_value r" "w' = w1" by simp_all
  with e look_inv [OF assms(1) e] look_view [OF assms(1) e] look_found [OF assms(1)] Lookup
  show ?thesis by (cases r) (auto simp: result_value_def)
next
  case (Delete k)
  obtain r w1 where e: "del k w = (r, w1)" by fastforce
  with assms(2) Delete have "res = result_unit r" "w' = w1" by simp_all
  with e del_inv [OF assms(1) e] del_done [OF assms(1) e] del_refused [OF assms(1) e] Delete
  show ?thesis by (cases "returned r") (simp_all add: result_unit_def)
qed

lemma run_refines:
  "inv w \<Longrightarrow> store_run ins look del ops w = (rs, w') \<Longrightarrow>
    inv w' \<and> table_run (view w) ops rs = Some (view w')"
proof (induction ops arbitrary: w rs)
  case Nil
  then show ?case by simp
next
  case (Cons op ops)
  obtain res w1 where s: "store_step ins look del op w = (res, w1)" by fastforce
  from Cons.prems(2) s obtain rs1 where r: "store_run ins look del ops w1 = (rs1, w')"
    and e: "rs = res # rs1" by (auto split: prod.splits)
  from step_refines [OF Cons.prems(1) s] have "inv w1"
    and t: "table_step (view w) op res = Some (view w1)" by auto
  from Cons.IH [OF this(1) r] t e show ?case by simp
qed

text \<open>
  What was inserted is what is found, as long as no operation that touches the name came between.
\<close>

lemma table_step_untouched:
  "table_step m op res = Some m' \<Longrightarrow> \<not> touches k op \<Longrightarrow> m' k = m k"
  by (cases op; cases res) (auto split: if_splits)

lemma run_untouched:
  "inv w \<Longrightarrow> store_run ins look del ops w = (rs, w') \<Longrightarrow> \<forall>op \<in> set ops. \<not> touches k op \<Longrightarrow>
    inv w' \<and> view w' k = view w k"
proof (induction ops arbitrary: w rs)
  case Nil
  then show ?case by simp
next
  case (Cons op ops)
  obtain res w1 where s: "store_step ins look del op w = (res, w1)" by fastforce
  from Cons.prems(2) s obtain rs1 where r: "store_run ins look del ops w1 = (rs1, w')"
    by (auto split: prod.splits)
  from step_refines [OF Cons.prems(1) s] have w1: "inv w1"
    and t: "table_step (view w) op res = Some (view w1)" by auto
  from table_step_untouched [OF t, of k] Cons.prems(3) have "view w1 k = view w k" by simp
  with Cons.IH [OF w1 r] Cons.prems(3) show ?case by simp
qed

lemma inserted_is_found:
  assumes "inv w" and "ins k v w = (r, w1)" and "returned r"
    and "store_run ins look del ops w1 = (rs, w2)" and "\<forall>op \<in> set ops. \<not> touches k op"
    and "look k w2 = (Ret v', w3)"
  shows "v' = v"
proof -
  have "inv w1" "view w1 k = Some v"
    using ins_inv [OF assms(1,2)] ins_done [OF assms(1-3)] by auto
  with run_untouched [OF _ assms(4,5)] have "inv w2" "view w2 k = Some v" by auto
  with look_found [OF _ assms(6)] show ?thesis by simp
qed

text \<open>A taken name is refused until it is deleted.\<close>

lemma taken_is_refused:
  assumes "inv w" and "view w k \<noteq> None" and "ins k v w = (r, w')"
  shows "\<not> returned r \<and> view w' = view w"
proof (cases "returned r")
  case True
  from ins_done [OF assms(1,3) this] assms(2) show ?thesis by simp
next
  case False
  with ins_refused [OF assms(1,3)] show ?thesis by simp
qed

lemma deleted_not_found:
  assumes "inv w" and "del k w = (r, w1)" and "returned r"
    and "store_run ins look del ops w1 = (rs, w2)" and "\<forall>op \<in> set ops. \<not> touches k op"
  shows "look k w2 \<noteq> (Ret v', w3)"
proof
  assume l: "look k w2 = (Ret v', w3)"
  have "inv w1" "view w1 k = None"
    using del_inv [OF assms(1,2)] del_done [OF assms(1-3)] by auto
  with run_untouched [OF _ assms(4,5)] have "inv w2" "view w2 k = None" by auto
  with look_found [OF _ l] show False by simp
qed

end

end
