(* ===== verification/LinuxTable.thy ===== *)
theory LinuxTable
  imports LinuxStore KeyTable
begin

text \<open>
  The key store of the Linux backend as a table of keys: the blobs by key name, and the
  interpretation of the store contract on \<open>writeBlob\<close>'s publishing, on reading and on \<open>deleteKey\<close>.
\<close>

section \<open>The store as a table of keys\<close>

text \<open>The stored blobs by key name.\<close>

definition storedKeys :: "environment \<Rightarrow> 'x os_scheme \<Rightarrow> string \<Rightarrow> bytes option" where
  "storedKeys env w name =
     (case blobPath env name of Inl _ \<Rightarrow> None | Inr p \<Rightarrow> map_option fst (file_at w p))"

definition storeKey :: "environment \<Rightarrow> string \<Rightarrow> bytes \<Rightarrow> ('x os_scheme, unit) go" where
  "storeKey env name buf = gbind (of_sum (blobPath env name)) (\<lambda>path. publish path buf)"

definition fetchKey :: "environment \<Rightarrow> string \<Rightarrow> ('x os_scheme, bytes) go" where
  "fetchKey env name = gbind (of_sum (blobPath env name)) os_read_file"

lemma storedKeys_upd:
  assumes "blobPath env k = Inr p" and "off t (F(p := c)) (file_at w')" and "F = file_at w"
    and "\<exists>dir pre n. t = temp_name dir pre n"
  shows "storedKeys env w' = (storedKeys env w)(k := map_option fst c)"
proof
  fix name
  show "storedKeys env w' name = ((storedKeys env w)(k := map_option fst c)) name"
  proof (cases "blobPath env name")
    case (Inl e)
    with assms(1) show ?thesis by (auto simp: storedKeys_def)
  next
    case (Inr q)
    then have "q \<noteq> t" using assms(4) blobPath_not_temp by blast
    with assms(2) have "file_at w' q = (F(p := c)) q" by (rule offD)
    moreover have "q = p \<longleftrightarrow> name = k" using Inr assms(1) blobPath_inject by auto
    ultimately show ?thesis using Inr assms(1,3) by (simp add: storedKeys_def)
  qed
qed

lemma storedKeys_same:
  assumes "off t (file_at w) (file_at w')" and "\<exists>dir pre n. t = temp_name dir pre n"
  shows "storedKeys env w' = storedKeys env w"
proof
  fix name
  show "storedKeys env w' name = storedKeys env w name"
  proof (cases "blobPath env name")
    case (Inr q)
    then have "q \<noteq> t" using assms(2) blobPath_not_temp by blast
    with assms(1) have "file_at w' q = file_at w q" by (rule offD)
    with Inr show ?thesis by (simp add: storedKeys_def)
  qed (simp add: storedKeys_def)
qed

lemma storedKeys_cong: "file_at w' = file_at w \<Longrightarrow> storedKeys env w' = storedKeys env w"
  by (simp add: storedKeys_def fun_eq_iff split: sum.split)

lemma temp_of_temp: "temp_of path t \<Longrightarrow> \<exists>dir pre n. t = temp_name dir pre n"
  by (auto simp: temp_of_def)

lemma storeKey_result:
  assumes wf: "os_wf w" and s: "storeKey env k buf w = (r, w')"
  shows "os_wf w' \<and> (if returned r
    then storedKeys env w k = None \<and> storedKeys env w' = (storedKeys env w)(k \<mapsto> buf)
    else storedKeys env w' = storedKeys env w)"
proof (cases "blobPath env k")
  case (Inl e)
  with s wf show ?thesis by (auto simp: storeKey_def of_sum_def fail_def gbind_def)
next
  case (Inr p)
  with s have p: "publish p buf w = (r, w')" by (simp add: storeKey_def of_sum_def)
  have "\<And>t. temp_of p t \<Longrightarrow> p \<noteq> t" using Inr blobPath_not_temp by (auto simp: temp_of_def)
  from publish_result [OF wf this p] obtain t where t: "temp_of p t"
    "if returned r then linked w t p (buf, 384) w' else only_temp w t w'" by blast
  note tt = temp_of_temp [OF t(1)]
  show ?thesis
  proof (cases "returned r")
    case True
    with t have l: "linked w t p (buf, 384) w'" by simp
    then have "storedKeys env w k = None" using Inr by (simp add: storedKeys_def linked_def)
    moreover have "off t ((file_at w)(p := Some (buf, 384))) (file_at w')"
      using l by (simp add: linked_def published_def)
    from storedKeys_upd [OF Inr this refl tt]
    have "storedKeys env w' = (storedKeys env w)(k \<mapsto> buf)" by simp
    moreover have "os_wf w'" using l by (simp add: linked_def)
    ultimately show ?thesis using True by simp
  next
    case False
    with t have "only_temp w t w'" by simp
    then have "os_wf w'" "off t (file_at w) (file_at w')" by (auto simp: only_temp_def)
    with storedKeys_same [OF this(2) tt] False show ?thesis by simp
  qed
qed

lemma deferred_eq_Ret:
  "deferred d f w = (Ret y, w'') \<longleftrightarrow> (\<exists>w'. f w = (Ret y, w') \<and> w'' = d (Ret y) w')"
  by (auto simp: deferred_def split: prod.splits)

lemma os_open_Ret:
  assumes "os_open p w = (Ret f, w1)"
  obtains n where "node_at w p = Some n" and "fds w1 (file_fd f) = Some n"
proof -
  from assms obtain w2 where w2: "(case node_at w p of
      None \<Rightarrow> fail (Sys ENOENT) (w\<lparr>tick := Suc (tick w)\<rparr>)
    | Some n \<Rightarrow> open_node n p (w\<lparr>tick := Suc (tick w)\<rparr>)) = (Ret f, w2)" "w1 = record_view w2"
    unfolding os_open_def by (auto elim!: syscall_Ret)
  show thesis
  proof (cases "node_at w p")
    case None
    with w2 show thesis by (simp add: fail_def)
  next
    case (Some n)
    with w2(1) have "open_node n p (w\<lparr>tick := Suc (tick w)\<rparr>) = (Ret f, w2)" by simp
    from open_node_fields [OF this] have "fds w2 (file_fd f) = Some n" by auto
    with Some w2(2) that show thesis by simp
  qed
qed

lemma open_read:
  assumes "os_read_file p w = (Ret b, w')"
  shows "\<exists>m. file_at w p = Some (b, m)"
proof -
  from assms obtain f w1 w2 where o: "os_open p w = (Ret f, w1)"
    and r: "(case fds w1 (file_fd f) of
        Some (FileNode i) \<Rightarrow>
          syscall (case inodes w1 i of None \<Rightarrow> fail (Sys (EOther 5)) | Some n \<Rightarrow> ret (content n)) w1
      | _ \<Rightarrow> syscall (fail (Sys EISDIR)) w1) = (Ret b, w2)"
    by (auto simp: os_read_file_def gbind_eq_Ret deferred_eq_Ret)
  from o obtain n where n: "node_at w p = Some n" "fds w1 (file_fd f) = Some n" by (rule os_open_Ret)
  have in1: "inodes w1 = inodes w" using inert_kept [OF inert_open o] by (rule tree_keptD)
  show ?thesis
  proof (cases n)
    case (DirNode m)
    with n(2) r show ?thesis by (auto elim!: syscall_Ret simp: fail_def)
  next
    case (FileNode i)
    with n(2) r obtain n' where "inodes w1 i = Some n'" "content n' = b"
      by (cases "inodes w1 i") (auto elim!: syscall_Ret simp: fail_def ret_def)
    with in1 n FileNode show ?thesis by (auto simp: file_at_def)
  qed
qed

lemma inert_fetchKey [simp]: "inert (fetchKey env name)"
  unfolding fetchKey_def
  by (rule inert_gbind) (auto simp: of_sum_def split: sum.split)

lemma fetchKey_Ret:
  assumes "fetchKey env name w = (Ret b, w')"
  shows "storedKeys env w name = Some b"
proof -
  from assms obtain p where p: "blobPath env name = Inr p" and r: "os_read_file p w = (Ret b, w')"
    by (auto simp: fetchKey_def go_Ret)
  from open_read [OF r] p show ?thesis by (auto simp: storedKeys_def)
qed

lemma deleteKey_result:
  assumes wf: "os_wf w" and d: "deleteKey env k w = (r, w')"
  shows "os_wf w' \<and>
    storedKeys env w' = (if returned r then (storedKeys env w)(k := None) else storedKeys env w)"
proof (cases "blobPath env k")
  case (Inl e)
  with d wf show ?thesis by (auto simp: deleteKey_def of_sum_def fail_def gbind_def)
next
  case (Inr p)
  obtain r1 w1 where rm: "os_remove p w = (r1, w1)" by fastforce
  with d Inr have r: "w' = w1" "returned r = returned r1"
    by (auto simp: deleteKey_def of_sum_def on_err_def split: outcome.splits)
  have tn: "\<exists>dir pre n. temp_name [] [] 0 = temp_name dir pre n" by blast
  show ?thesis
  proof (cases "returned r1")
    case True
    with os_remove_result [OF rm] have "removed p w w1" by simp
    then have "os_wf w1" "file_at w1 = (file_at w)(p := None)" using wf by (auto simp: removed_def)
    moreover have "off (temp_name [] [] 0) ((file_at w)(p := None)) (file_at w1)"
      by (simp add: calculation(2) off_def)
    from storedKeys_upd [OF Inr this refl tn]
    have "storedKeys env w1 = (storedKeys env w)(k := None)" by simp
    ultimately show ?thesis using True r by simp
  next
    case False
    with os_remove_result [OF rm] have "tree_kept w w1" by simp
    then have "os_wf w1" "file_at w1 = file_at w" using wf by (simp_all add: tree_keptD)
    with storedKeys_cong [of w1 w] False r show ?thesis by simp
  qed
qed

text \<open>The store keeps the contract of a key table, whatever I/O errors happen.\<close>

interpretation linux_store: key_table "storedKeys env" os_wf "storeKey env" "fetchKey env" "deleteKey env"
  for env
proof (unfold_locales, goal_cases)
  case (1 w k v r w')
  with storeKey_result [OF 1] show ?case by simp
next
  case (2 w k v r w')
  with storeKey_result [OF 2(1,2)] show ?case by simp
next
  case (3 w k v r w')
  with storeKey_result [OF 3(1,2)] show ?case by simp
next
  case (4 w k s w')
  with inert_kept [OF inert_fetchKey 4(2)] show ?case by (simp add: tree_keptD)
next
  case (5 w k s w')
  show ?case using inert_kept [OF inert_fetchKey 5(2)] by (intro storedKeys_cong) (rule tree_keptD)
next
  case (6 w k v w')
  from 6(2) show ?case by (rule fetchKey_Ret)
next
  case (7 w k r w')
  with deleteKey_result [OF 7] show ?case by simp
next
  case (8 w k r w')
  with deleteKey_result [OF 8(1,2)] show ?case by simp
next
  case (9 w k r w')
  with deleteKey_result [OF 9(1,2)] show ?case by simp
qed

end
