(* ===== verification/GoDer.thy ===== *)
theory GoDer
  imports GoBytes
begin

text \<open>
  The DER form of an ECDSA signature: \<^verbatim>\<open>asn1.Marshal(struct{ R, S *big.Int }{r, s})\<close> of Go's
  \<^verbatim>\<open>encoding/asn1\<close> for non-negative \<open>r\<close> and \<open>s\<close> (both come from \<^verbatim>\<open>SetBytes\<close>), and the strict
  parser \<^verbatim>\<open>crypto/ecdsa\<close> and \<^verbatim>\<open>crypto/x509\<close> run on a signature (definite minimal lengths, minimal
  non-negative integers, nothing trailing). Both backends that get \<open>r\<close> and \<open>s\<close> from the chip sign
  through \<open>der_signature\<close>; \<open>parse_signature_iff\<close> says the parser accepts exactly its values.
\<close>

section \<open>Writing\<close>

text \<open>\<^verbatim>\<open>makeBigInt\<close>: big-endian, one zero byte for zero or before a set top bit.\<close>

definition der_int_body :: "nat \<Rightarrow> bytes" where
  "der_int_body n =
     (let bs = bytes_of_nat n in
      case bs of [] \<Rightarrow> [0] | b # _ \<Rightarrow> if 128 \<le> unat b then 0 # bs else bs)"

text \<open>\<^verbatim>\<open>appendTagAndLength\<close>.\<close>

definition der_length :: "nat \<Rightarrow> bytes" where
  "der_length n =
     (if n < 128 then [word_of_nat n]
      else word_of_nat (128 + length (bytes_of_nat n)) # bytes_of_nat n)"

definition der_tlv :: "byte \<Rightarrow> bytes \<Rightarrow> bytes" where
  "der_tlv tag body = tag # der_length (length body) @ body"

definition der_integer :: "nat \<Rightarrow> bytes" where
  "der_integer n = der_tlv 2 (der_int_body n)"

definition der_signature :: "nat \<Rightarrow> nat \<Rightarrow> bytes" where
  "der_signature r s = der_tlv 48 (der_integer r @ der_integer s)"

section \<open>Reading\<close>

text \<open>A length of at most four bytes, in its shortest form.\<close>

definition parse_length :: "bytes \<Rightarrow> (nat \<times> bytes) option" where
  "parse_length bs =
     (case bs of
        [] \<Rightarrow> None
      | b # r \<Rightarrow>
          if unat b < 128 then Some (unat b, r)
          else (let k = unat b - 128; n = nat_of_bytes (take k r) in
                if k = 0 \<or> 4 < k \<or> length r < k \<or> n < 128 \<or> hd r = 0 then None
                else Some (n, drop k r)))"

definition parse_tlv :: "byte \<Rightarrow> bytes \<Rightarrow> (bytes \<times> bytes) option" where
  "parse_tlv tag bs =
     (case bs of
        [] \<Rightarrow> None
      | t # r \<Rightarrow>
          if t \<noteq> tag then None
          else (case parse_length r of
                  None \<Rightarrow> None
                | Some (n, r') \<Rightarrow> if length r' < n then None else Some (take n r', drop n r')))"

definition parse_int_body :: "bytes \<Rightarrow> nat option" where
  "parse_int_body bs =
     (case bs of
        [] \<Rightarrow> None
      | b # r \<Rightarrow>
          if 128 \<le> unat b \<or> (b = 0 \<and> r \<noteq> [] \<and> unat (hd r) < 128) then None
          else Some (nat_of_bytes bs))"

definition parse_signature :: "bytes \<Rightarrow> (nat \<times> nat) option" where
  "parse_signature bs =
     (case parse_tlv 48 bs of
        Some (inner, []) \<Rightarrow>
          (case parse_tlv 2 inner of
             None \<Rightarrow> None
           | Some (rb, rest) \<Rightarrow>
               (case parse_tlv 2 rest of
                  Some (sb, []) \<Rightarrow>
                    (case (parse_int_body rb, parse_int_body sb) of
                       (Some r, Some s) \<Rightarrow> Some (r, s)
                     | _ \<Rightarrow> None)
                | _ \<Rightarrow> None))
      | _ \<Rightarrow> None)"

section \<open>Integers\<close>

lemma der_int_body_nonempty [simp]: "der_int_body n \<noteq> []"
  by (cases "bytes_of_nat n") (simp_all add: der_int_body_def Let_def del: bytes_of_nat_eq_Nil)

lemma nat_of_der_int_body [simp]: "nat_of_bytes (der_int_body n) = n"
proof (cases "bytes_of_nat n")
  case Nil
  then show ?thesis by (simp add: der_int_body_def)
next
  case (Cons b bs)
  have "nat_of_bytes (b # bs) = n" using nat_of_bytes_of_nat [of n] by (simp only: Cons)
  with Cons show ?thesis by (simp add: der_int_body_def Let_def)
qed

lemma parse_der_int_body [simp]: "parse_int_body (der_int_body n) = Some n"
proof (cases "bytes_of_nat n")
  case Nil
  then show ?thesis by (simp add: der_int_body_def parse_int_body_def)
next
  case (Cons b bs)
  then have "n \<noteq> 0" by (metis bytes_of_nat_0 list.distinct(1))
  with hd_bytes_of_nat [of n] Cons have b: "b \<noteq> 0" by simp
  have "nat_of_bytes (b # bs) = n" using nat_of_bytes_of_nat [of n] by (simp only: Cons)
  with Cons b show ?thesis by (simp add: der_int_body_def parse_int_body_def Let_def)
qed

text \<open>A byte string without leading zero is the one \<^verbatim>\<open>Bytes\<close> gives.\<close>

lemma bytes_of_nat_of_bytes:
  assumes "bs \<noteq> [] \<Longrightarrow> hd bs \<noteq> 0"
  shows "bytes_of_nat (nat_of_bytes bs) = bs"
  using assms
proof (induction bs rule: rev_induct)
  case Nil
  then show ?case by simp
next
  case (snoc b bs)
  have v: "nat_of_bytes (bs @ [b]) = nat_of_bytes bs * 256 + unat b"
    by (simp add: nat_of_bytes_append)
  have pos: "0 < nat_of_bytes (bs @ [b])"
  proof (rule ccontr)
    assume "\<not> 0 < nat_of_bytes (bs @ [b])"
    then have "\<forall>c \<in> set (bs @ [b]). c = 0" by (simp add: nat_of_bytes_eq_0 del: set_append)
    moreover have "hd (bs @ [b]) \<in> set (bs @ [b])" by (rule hd_in_set) simp
    ultimately show False using snoc.prems by fastforce
  qed
  have "bs \<noteq> [] \<Longrightarrow> hd bs \<noteq> 0" using snoc.prems by (simp add: hd_append split: if_splits)
  with snoc.IH have "bytes_of_nat (nat_of_bytes bs) = bs" .
  then show ?case using pos
    by (subst bytes_of_nat_pos) (simp_all add: v)
qed

lemma parse_int_body_eq: "parse_int_body bs = Some n \<longleftrightarrow> bs = der_int_body n"
proof
  assume p: "parse_int_body bs = Some n"
  then obtain b r where bs: "bs = b # r" by (cases bs) (auto simp: parse_int_body_def)
  with p have b: "unat b < 128" "b = 0 \<Longrightarrow> r \<noteq> [] \<Longrightarrow> 128 \<le> unat (hd r)"
    and n: "n = nat_of_bytes bs"
    by (auto simp: parse_int_body_def split: if_splits)
  show "bs = der_int_body n"
  proof (cases "b = 0")
    case False
    then have "bytes_of_nat n = bs" using n bs by (simp add: bytes_of_nat_of_bytes del: nat_of_bytes.simps)
    with b bs show ?thesis by (simp add: der_int_body_def)
  next
    case True
    with n bs have n2: "n = nat_of_bytes r" by simp
    have "r \<noteq> [] \<Longrightarrow> hd r \<noteq> 0" using b(2) [OF True] by (auto simp flip: unat_eq_0)
    then have "bytes_of_nat n = r" using n2 by (simp add: bytes_of_nat_of_bytes)
    with b(2) [OF True] True bs show ?thesis
      by (cases r) (auto simp: der_int_body_def)
  qed
qed simp

section \<open>Lengths and elements\<close>

text \<open>Lengths a four-byte field can hold.\<close>

abbreviation der_fits :: "nat \<Rightarrow> bool" where
  "der_fits n \<equiv> n < 256 ^ 4"

lemma parse_der_length: "der_fits n \<Longrightarrow> parse_length (der_length n @ r) = Some (n, r)"
proof (cases "n < 128")
  case True
  then show ?thesis by (simp add: der_length_def parse_length_def unat_of_nat)
next
  case False
  assume "der_fits n"
  then have k: "length (bytes_of_nat n) \<le> 4" by (rule length_bytes_of_nat)
  have ne: "bytes_of_nat n \<noteq> []" using False by simp
  then have h: "hd (bytes_of_nat n @ r) \<noteq> 0" using hd_bytes_of_nat [of n] False by simp
  have "unat (word_of_nat (128 + length (bytes_of_nat n)) :: byte) = 128 + length (bytes_of_nat n)"
    using k by (intro unat_byte_of_nat) simp
  with False k ne h show ?thesis
    by (simp add: der_length_def parse_length_def)
qed

lemma parse_der_tlv:
  "der_fits (length body) \<Longrightarrow> parse_tlv tag (der_tlv tag body @ r) = Some (body, r)"
  by (simp add: parse_tlv_def der_tlv_def parse_der_length)

lemma parse_length_eq:
  assumes p: "parse_length bs = Some (n, r)"
  shows "bs = der_length n @ r \<and> der_fits n"
proof -
  from p obtain b r0 where bs: "bs = b # r0" by (cases bs) (auto simp: parse_length_def)
  show ?thesis
  proof (cases "unat b < 128")
    case True
    with p bs have "n = unat b" "r = r0" by (auto simp: parse_length_def)
    with True bs show ?thesis by (simp add: der_length_def)
  next
    case False
    let ?k = "unat b - 128"
    from False p bs have k: "?k \<noteq> 0" "?k \<le> 4" "?k \<le> length r0" "hd r0 \<noteq> 0"
      and n: "n = nat_of_bytes (take ?k r0)" "128 \<le> n" "r = drop ?k r0"
      by (auto simp: parse_length_def Let_def split: if_splits)
    have "bytes_of_nat n = take ?k r0"
      unfolding n(1) using k by (intro bytes_of_nat_of_bytes) (simp add: hd_take)
    moreover have "n < 256 ^ length (take ?k r0)" unfolding n(1) by (rule nat_of_bytes_bound)
    then have "n < 256 ^ ?k" using k(3) by (simp add: min_absorb2)
    moreover have "(256::nat) ^ ?k \<le> 256 ^ 4" using k(2) by (intro power_increasing) simp_all
    moreover have "word_of_nat (128 + ?k) = b" using False by simp
    ultimately show ?thesis using k(3) n(2,3) bs by (simp add: der_length_def min_absorb2)
  qed
qed

lemma parse_tlv_eq:
  "parse_tlv tag bs = Some (body, r) \<longleftrightarrow> der_fits (length body) \<and> bs = der_tlv tag body @ r"
proof
  assume p: "parse_tlv tag bs = Some (body, r)"
  then obtain bs' n r' where bs: "bs = tag # bs'" and l: "parse_length bs' = Some (n, r')"
    and b: "n \<le> length r'" "body = take n r'" "r = drop n r'"
    by (cases bs) (auto simp: parse_tlv_def split: if_splits option.splits)
  from parse_length_eq [OF l] b bs show "der_fits (length body) \<and> bs = der_tlv tag body @ r"
    by (simp add: der_tlv_def min_absorb2)
qed (auto simp: parse_der_tlv)

section \<open>Signatures\<close>

text \<open>The parser accepts exactly the signatures the signer writes, with their numbers.\<close>

lemma parse_signature_iff:
  "parse_signature bs = Some (r, s) \<longleftrightarrow>
     bs = der_signature r s \<and> der_fits (length (der_integer r @ der_integer s))"
proof
  assume p: "parse_signature bs = Some (r, s)"
  then obtain inner rb rest sb where
    "parse_tlv 48 bs = Some (inner, [])" "parse_tlv 2 inner = Some (rb, rest)"
    "parse_tlv 2 rest = Some (sb, [])" "parse_int_body rb = Some r" "parse_int_body sb = Some s"
    by (auto simp: parse_signature_def split: option.splits list.splits)
  then show "bs = der_signature r s \<and> der_fits (length (der_integer r @ der_integer s))"
    by (auto simp: parse_tlv_eq parse_int_body_eq der_signature_def der_integer_def)
next
  assume bs: "bs = der_signature r s \<and> der_fits (length (der_integer r @ der_integer s))"
  let ?rb = "der_int_body r" and ?sb = "der_int_body s"
  from bs have "der_fits (length ?rb)" "der_fits (length ?sb)"
    by (auto simp: der_integer_def der_tlv_def)
  then have "parse_tlv 2 (der_integer r @ der_integer s) = Some (?rb, der_integer s)"
    "parse_tlv 2 (der_integer s) = Some (?sb, [])"
    using parse_der_tlv [of ?sb 2 "[]"] by (simp_all add: der_integer_def parse_der_tlv)
  moreover have "parse_tlv 48 bs = Some (der_integer r @ der_integer s, [])"
    using bs parse_der_tlv [of "der_integer r @ der_integer s" 48 "[]"] by (simp add: der_signature_def)
  ultimately show "parse_signature bs = Some (r, s)"
    by (simp add: parse_signature_def)
qed

text \<open>A coordinate of a P-256 signature has at most 32 bytes, so the short length form is enough.\<close>

lemma length_der_int_body: "n < 256 ^ k \<Longrightarrow> length (der_int_body n) \<le> Suc k"
proof -
  assume "n < 256 ^ k"
  then have "length (bytes_of_nat n) \<le> k" by (rule length_bytes_of_nat)
  then show ?thesis by (auto simp: der_int_body_def Let_def split: list.split)
qed

lemma length_der_integer: "n < 256 ^ 32 \<Longrightarrow> length (der_integer n) \<le> 35"
  using length_der_int_body [of n 32] by (simp add: der_integer_def der_tlv_def der_length_def)

lemma length_der_signature: "r < 256 ^ 32 \<Longrightarrow> s < 256 ^ 32 \<Longrightarrow> length (der_signature r s) \<le> 72"
  using length_der_integer [of r] length_der_integer [of s]
  by (simp add: der_signature_def der_tlv_def der_length_def)

lemma parse_der_signature:
  "r < 256 ^ 32 \<Longrightarrow> s < 256 ^ 32 \<Longrightarrow> parse_signature (der_signature r s) = Some (r, s)"
  using length_der_integer [of r] length_der_integer [of s] by (simp add: parse_signature_iff)

end
