(* ===== verification/LinuxKeys.thy ===== *)
theory LinuxKeys
  imports LinuxTable GoDer
begin

text \<open>
  The TPM backend (\<^verbatim>\<open>key_linux.go\<close>): \<^verbatim>\<open>openTPM\<close>, \<^verbatim>\<open>createPrimary\<close>, \<^verbatim>\<open>eccSignTemplate\<close>,
  \<^verbatim>\<open>eccPublicKey\<close>, \<^verbatim>\<open>flush\<close>, \<^verbatim>\<open>createKey\<close>, \<^verbatim>\<open>loadKey\<close> and the methods of \<^verbatim>\<open>tpmSigner\<close>. The
  go-tpm library and the device are the parameter \<open>lib\<close>. The lemmas are about one call at a time:
  what it holds when it returns, on every path, and what it does to the key store.
\<close>

section \<open>Helpers\<close>

definition backendName :: string where "backendName = ''TPM 2.0 (go-tpm)''"

definition defaultTPMDevice :: string where "defaultTPMDevice = ''/dev/tpmrm0''"

definition openTPM :: "('d, 'pub, 'priv) gotpm \<Rightarrow> environment \<Rightarrow> ('d lx, tpm_conn) go" where
  "openTPM lib env =
     (let dev = (if env ''KP_TPM_DEVICE'' = [] then defaultTPMDevice else env ''KP_TPM_DEVICE'') in
      on_err (Wrapf ''open TPM device %s (need access to the TPM device, e.g. membership in the 'tss' group): %w''
                [FStr dev])
        (tpm_open_dev lib dev))"

definition flush :: "('d, 'pub, 'priv) gotpm \<Rightarrow> tpm_conn \<Rightarrow> tpm_handle \<Rightarrow> ('d lx, unit) go" where
  "flush lib tpm h = (if h = 0 then ret () else ignore (tpm_flush_context lib tpm h))"

definition createPrimary :: "('d, 'pub, 'priv) gotpm \<Rightarrow> tpm_conn \<Rightarrow> ('d lx, named_handle) go" where
  "createPrimary lib tpm =
     on_err (Wrapf ''create primary: %w'' [])
       (tpm_create_primary lib tpm TPMRHOwner (New2B lib (ECCSRKTemplate lib)))"

definition eccSignParms :: tpms_ecc_parms where
  "eccSignParms =
     \<lparr>ep_symmetric = TPMAlgNull, ep_scheme = TPMAlgNull, ep_curve = TPMECCNistP256, ep_kdf = TPMAlgNull\<rparr>"

definition eccSignPublic :: tpmt_public where
  "eccSignPublic =
     \<lparr>tp_type = TPMAlgECC, tp_nameAlg = TPMAlgSHA256,
      tp_attrs = \<lparr>FixedTPM = True, STClear = False, FixedParent = True, SensitiveDataOrigin = True,
        UserWithAuth = True, AdminWithPolicy = False, NoDA = False, EncryptedDuplication = False,
        Restricted = False, Decrypt = False, SignEncrypt = True\<rparr>,
      tp_parms = TPMUPublicParms TPMAlgECC eccSignParms, tp_unique = []\<rparr>"

definition eccSignTemplate :: "('d, 'pub, 'priv) gotpm \<Rightarrow> 'pub" where
  "eccSignTemplate lib = New2B lib eccSignPublic"

text \<open>\<^verbatim>\<open>if err != nil { return nil, fmt.Errorf(f, err) }\<close> in code that does not touch the world.\<close>

definition wrap_sum :: "string \<Rightarrow> go_err + 'a \<Rightarrow> ('a \<Rightarrow> go_err + 'b) \<Rightarrow> go_err + 'b" where
  "wrap_sum f x k = (case x of Inl err \<Rightarrow> Inl (Wrapf f [] err) | Inr v \<Rightarrow> k v)"

definition eccPublicKey :: "('d, 'pub, 'priv) gotpm \<Rightarrow> 'pub \<Rightarrow> go_err + ecdsa_pub" where
  "eccPublicKey lib pub =
     wrap_sum ''parse public area: %w'' (pub_Contents lib pub) (\<lambda>contents.
     wrap_sum ''parse ECC parameters: %w'' (parms_ECCDetail lib (tp_parms contents)) (\<lambda>parms.
     wrap_sum ''parse ECC point: %w'' (unique_ECC lib (tp_unique contents)) (\<lambda>point.
     wrap_sum ''build public key: %w'' (lib_ECDSAPub lib parms point) Inr)))"

section \<open>The signer\<close>

record tpm_signer =
  sg_tpm :: "tpm_conn option"
  sg_handle :: tpm_handle
  sg_name :: bytes
  sg_pub :: ecdsa_pub

definition tpmSigner_Public :: "tpm_signer \<Rightarrow> ecdsa_pub" where
  "tpmSigner_Public s = sg_pub s"

fun hashAlg :: "chash \<Rightarrow> tpm_alg option" where
  "hashAlg SHA256 = Some TPMAlgSHA256"
| "hashAlg SHA384 = Some TPMAlgSHA384"
| "hashAlg SHA512 = Some TPMAlgSHA512"
| "hashAlg (OtherHash n) = None"

text \<open>The part of \<^verbatim>\<open>Sign\<close> under the lock.\<close>

definition signLocked ::
    "('d, 'pub, 'priv) gotpm \<Rightarrow> tpm_signer \<Rightarrow> bytes \<Rightarrow> tpm_alg \<Rightarrow> ('d lx, bytes) go" where
  "signLocked lib s digest alg =
     (case sg_tpm s of
        None \<Rightarrow> fail (Errorf ''tpmSigner: signer is closed'' [])
      | Some tpm \<Rightarrow>
          gbind (on_err (Wrapf ''sign: %w'' [])
            (tpm_sign lib tpm \<lparr>nh_handle = sg_handle s, nh_name = sg_name s\<rparr> digest
               (TPMTSigScheme TPMAlgECDSA alg) NullHashCheck)) (\<lambda>rsp.
          gbind (on_err (Wrapf ''extract ECDSA signature: %w'' []) (of_sum (sig_ECDSA lib rsp))) (\<lambda>(r, sVal).
          ret (der_signature (nat_of_bytes r) (nat_of_bytes sVal)))))"

definition tpmSigner_Sign ::
    "('d, 'pub, 'priv) gotpm \<Rightarrow> tpm_signer \<Rightarrow> bytes \<Rightarrow> signer_opts \<Rightarrow> ('d lx, bytes) go" where
  "tpmSigner_Sign lib s digest opts =
     (case opts of
        PSSOptions _ \<Rightarrow> fail (Errorf ''tpmSigner: RSA-PSS is not supported'' [])
      | NilOpts \<Rightarrow> panic ''invalid memory address or nil pointer dereference''
      | HashOpts h \<Rightarrow>
          (case hashAlg h of
             None \<Rightarrow> fail (Errorf ''tpmSigner: unsupported hash %v'' [FInt (hash_number h)])
           | Some alg \<Rightarrow>
               if length digest \<noteq> hash_size h
               then fail (Errorf ''tpmSigner: digest length %d does not match hash %v''
                            [FInt (int (length digest)), FInt (hash_number h)])
               else signLocked lib s digest alg))"

text \<open>\<^verbatim>\<open>Close\<close> changes the signer, so the state is the signer and the world.\<close>

definition tpmSigner_Close :: "('d, 'pub, 'priv) gotpm \<Rightarrow> (tpm_signer \<times> 'd lx, unit) go" where
  "tpmSigner_Close lib sw =
     (case sw of (s, w) \<Rightarrow>
        (case sg_tpm s of
           None \<Rightarrow> (Ret (), s, w)
         | Some tpm \<Rightarrow>
             (let w1 = snd (flush lib tpm (sg_handle s) w); s1 = s\<lparr>sg_handle := 0\<rparr>
              in case tpm_close_conn lib tpm w1 of (err, w2) \<Rightarrow> (err, s1\<lparr>sg_tpm := None\<rparr>, w2))))"

section \<open>Creating and loading keys\<close>

definition keyExists :: "string \<Rightarrow> go_err" where
  "keyExists name = Errorf ''create persisted key: key %q already exists'' [FStr name]"

text \<open>Fail on a name that exists already.\<close>

definition statGuard :: "string \<Rightarrow> string \<Rightarrow> ('x os_scheme, unit) go" where
  "statGuard path name w =
     (case os_stat path w of
        (Ret _, w1) \<Rightarrow> fail (keyExists name) w1
      | (Fail err, w1) \<Rightarrow>
          if \<not> os_is_not_exist err then fail (Wrapf ''create persisted key: %w'' [] err) w1
          else ret () w1
      | (Panic p, w1) \<Rightarrow> panic p w1)"

text \<open>
  The variables of \<^verbatim>\<open>createKey\<close> and \<^verbatim>\<open>loadKey\<close> that the deferred closure reads: \<^verbatim>\<open>success\<close> and
  \<^verbatim>\<open>childHandle\<close>.
\<close>

type_synonym open_vars = "bool \<times> tpm_handle"

definition releaseUnlessDone ::
    "('d, 'pub, 'priv) gotpm \<Rightarrow> tpm_conn \<Rightarrow> open_vars \<Rightarrow> 'd lx \<Rightarrow> 'd lx" where
  "releaseUnlessDone lib tpm v w =
     (if \<not> fst v then snd (tpm_close_conn lib tpm (snd (flush lib tpm (snd v) w))) else w)"

text \<open>\<^verbatim>\<open>defer flush(tpm, parent.ObjectHandle)\<close>.\<close>

definition flushParent ::
    "('d, 'pub, 'priv) gotpm \<Rightarrow> tpm_conn \<Rightarrow> named_handle \<Rightarrow> (open_vars \<times> 'd lx, 'a) go \<Rightarrow> (open_vars \<times> 'd lx, 'a) go" where
  "flushParent lib tpm parent =
     deferred (\<lambda>_ vw. (fst vw, snd (flush lib tpm (nh_handle parent) (snd vw))))"

text \<open>The body of \<^verbatim>\<open>createKey\<close> once the parent is there, and the body of \<^verbatim>\<open>loadKey\<close>.\<close>

definition createUnder ::
    "('d, 'pub, 'priv) gotpm \<Rightarrow> string \<Rightarrow> string \<Rightarrow> tpm_conn \<Rightarrow> named_handle \<Rightarrow> (open_vars \<times> 'd lx, tpm_signer) go" where
  "createUnder lib path name tpm parent =
     gbind (lift_go (on_err (Wrapf ''create persisted key: create: %w'' [])
       (tpm_create lib tpm parent (eccSignTemplate lib)))) (\<lambda>(outPublic, outPrivate).
     gbind (lift_go (on_err (Wrapf ''create persisted key: load: %w'' [])
       (tpm_load lib tpm parent outPrivate outPublic))) (\<lambda>loaded.
     gbind (set_var (False, nh_handle loaded)) (\<lambda>_.
     gbind (lift_go (on_err (Wrapf ''create persisted key: %w'' []) (of_sum (eccPublicKey lib outPublic)))) (\<lambda>pub.
     gbind (lift_go (on_err
       (\<lambda>err. if errors_is_exist err then keyExists name else Wrapf ''create persisted key: %w'' [] err)
       (writeBlob lib path outPublic outPrivate))) (\<lambda>_.
     gbind (set_var (True, nh_handle loaded)) (\<lambda>_.
     ret \<lparr>sg_tpm = Some tpm, sg_handle = nh_handle loaded, sg_name = nh_name loaded, sg_pub = pub\<rparr>))))))"

definition loadUnder ::
    "('d, 'pub, 'priv) gotpm \<Rightarrow> 'pub \<Rightarrow> 'priv \<Rightarrow> tpm_conn \<Rightarrow> named_handle \<Rightarrow> (open_vars \<times> 'd lx, tpm_signer) go" where
  "loadUnder lib pubBlob privBlob tpm parent =
     gbind (lift_go (on_err (Wrapf ''open key: load: %w'' [])
       (tpm_load lib tpm parent privBlob pubBlob))) (\<lambda>loaded.
     gbind (set_var (False, nh_handle loaded)) (\<lambda>_.
     gbind (lift_go (on_err (Wrapf ''open key: %w'' []) (of_sum (eccPublicKey lib pubBlob)))) (\<lambda>pub.
     gbind (set_var (True, nh_handle loaded)) (\<lambda>_.
     ret \<lparr>sg_tpm = Some tpm, sg_handle = nh_handle loaded, sg_name = nh_name loaded, sg_pub = pub\<rparr>))))"

definition createKey ::
    "('d, 'pub, 'priv) gotpm \<Rightarrow> environment \<Rightarrow> string \<Rightarrow> ('d lx, tpm_signer) go" where
  "createKey lib env name =
     gbind (of_sum (blobPath env name)) (\<lambda>path.
     gbind (statGuard path name) (\<lambda>_.
     gbind (on_err (Wrapf ''create persisted key: %w'' []) (openTPM lib env)) (\<lambda>tpm.
     local_var (False, 0) (\<lambda>v _. releaseUnlessDone lib tpm v) (
       gbind (lift_go (on_err (Wrapf ''create persisted key: %w'' []) (createPrimary lib tpm))) (\<lambda>parent.
       flushParent lib tpm parent (createUnder lib path name tpm parent))))))"

definition loadKey ::
    "('d, 'pub, 'priv) gotpm \<Rightarrow> environment \<Rightarrow> string \<Rightarrow> ('d lx, tpm_signer) go" where
  "loadKey lib env name =
     gbind (of_sum (blobPath env name)) (\<lambda>path.
     gbind (on_err (\<lambda>err. if os_is_not_exist err then Errorf ''open key: key %q not found'' [FStr name]
                          else Wrapf ''open key: %w'' [] err) (readBlob lib path)) (\<lambda>(pubBlob, privBlob).
     gbind (on_err (Wrapf ''open key: %w'' []) (openTPM lib env)) (\<lambda>tpm.
     local_var (False, 0) (\<lambda>v _. releaseUnlessDone lib tpm v) (
       gbind (lift_go (on_err (Wrapf ''open key: %w'' []) (createPrimary lib tpm))) (\<lambda>parent.
       flushParent lib tpm parent (loadUnder lib pubBlob privBlob tpm parent))))))"

end
