(* ===== verification/LinuxLedger.thy ===== *)
theory LinuxLedger
  imports LinuxKeys KeyBackend
begin

text \<open>
  Who holds the TPM connection, the transient objects and the files of the Linux backend. Each
  lemma covers every path of a call, whatever the device answers and whichever system calls fail:
  a failing \<^verbatim>\<open>createKey\<close> or \<^verbatim>\<open>loadKey\<close> gives everything back, a successful one leaves exactly
  the connection and the child object to the signer, and \<^verbatim>\<open>Close\<close> gives these back once.
\<close>

section \<open>The TPM commands\<close>

definition obj :: "tpm_conn \<Rightarrow> tpm_handle \<Rightarrow> lx_res multiset" where
  "obj c h = (if h = 0 then {#} else {#TpmObject c h#})"

definition opened_conn :: "tpm_conn outcome \<Rightarrow> lx_res multiset" where
  "opened_conn r = (case r of Ret c \<Rightarrow> {#TpmConn c#} | _ \<Rightarrow> {#})"

definition got_obj :: "tpm_conn \<Rightarrow> named_handle outcome \<Rightarrow> lx_res multiset" where
  "got_obj c r = (case r of Ret nh \<Rightarrow> obj c (nh_handle nh) | _ \<Rightarrow> {#})"

lemma opened_conn_simps [simp]:
  "opened_conn (Ret c) = {#TpmConn c#}" "opened_conn (Fail e) = {#}" "opened_conn (Panic p) = {#}"
  by (simp_all add: opened_conn_def)

lemma got_obj_simps [simp]:
  "got_obj c (Ret nh) = obj c (nh_handle nh)" "got_obj c (Fail e) = {#}" "got_obj c (Panic p) = {#}"
  by (simp_all add: got_obj_def)

lemma obj_0 [simp]: "obj c 0 = {#}"
  by (simp add: obj_def)

lemma on_dev_log [simp]: "ledger_log (snd (on_dev f w)) = ledger_log w"
  by (simp add: on_dev_def split: prod.split sum.split)

lemma moves_open_dev [ledger]: "moves ledger_log (\<lambda>_. {#}) (tpm_open_dev lib dev) (\<lambda>r _. opened_conn r)"
  unfolding tpm_open_dev_def
  by (rule moves_gbind [where R = "\<lambda>_ _. {#}"]) (auto intro!: movesI)

lemma moves_on_conn: "moves ledger_log (\<lambda>_. {#TpmConn c#}) (on_conn c f) (\<lambda>_ _. {#TpmConn c#})"
  by (rule movesI) (auto simp: on_conn_def log_ev_def intro!: exI [of _ "[Use (TpmConn c)]"])

lemma moves_use_object:
  "moves ledger_log (\<lambda>_. {#TpmConn c#} + obj c h) (\<lambda>w. on_conn c f (use_object c h w))
     (\<lambda>_ _. {#TpmConn c#} + obj c h)"
proof (rule movesI)
  fix w :: "'a lx"
  show "\<exists>es. ledger_log (snd (on_conn c f (use_object c h w))) = ledger_log w @ es \<and>
      (\<forall>F. run_log ({#TpmConn c#} + obj c h + F) es = Some ({#TpmConn c#} + obj c h + F))"
    by (cases "h = 0")
      (auto simp: on_conn_def use_object_def obj_def log_ev_def
        intro: exI [of _ "[Use (TpmConn c)]"] exI [of _ "[Use (TpmObject c h), Use (TpmConn c)]"])
qed

lemma moves_acq_object:
  "moves ledger_log (\<lambda>_. M) (\<lambda>w. (Ret nh, acq_object c (nh_handle nh) w)) (\<lambda>r _. got_obj c r + M)"
proof (rule movesI)
  fix w
  show "\<exists>es. ledger_log (snd (Ret nh, acq_object c (nh_handle nh) w)) = ledger_log w @ es \<and>
      (\<forall>F. run_log (M + F) es = Some (got_obj c (fst (Ret nh, acq_object c (nh_handle nh) w)) + M + F))"
    by (cases "nh_handle nh = 0")
      (auto simp: acq_object_def obj_def log_ev_def intro: exI [of _ "[Acq (TpmObject c (nh_handle nh))]"])
qed

lemma moves_create_primary [ledger]:
  "moves ledger_log (\<lambda>_. {#TpmConn c#}) (tpm_create_primary lib c hier pub)
     (\<lambda>r _. got_obj c r + {#TpmConn c#})"
  unfolding tpm_create_primary_def
  by (rule moves_gbind [OF moves_on_conn moves_acq_object]) simp_all

lemma moves_tpm_create [ledger]:
  "moves ledger_log (\<lambda>_. {#TpmConn c#} + obj c (nh_handle parent)) (tpm_create lib c parent pub)
     (\<lambda>_ _. {#TpmConn c#} + obj c (nh_handle parent))"
  unfolding tpm_create_def by (rule moves_use_object)

lemma moves_tpm_load [ledger]:
  "moves ledger_log (\<lambda>_. {#TpmConn c#} + obj c (nh_handle parent)) (tpm_load lib c parent priv pub)
     (\<lambda>r _. got_obj c r + ({#TpmConn c#} + obj c (nh_handle parent)))"
  unfolding tpm_load_def
  by (rule moves_gbind [OF moves_use_object moves_acq_object]) simp_all

lemma moves_tpm_sign [ledger]:
  "moves ledger_log (\<lambda>_. {#TpmConn c#} + obj c (nh_handle key)) (tpm_sign lib c key d sch v)
     (\<lambda>_ _. {#TpmConn c#} + obj c (nh_handle key))"
  unfolding tpm_sign_def by (rule moves_use_object)

lemma moves_flush [ledger]:
  "moves ledger_log (\<lambda>_. {#TpmConn c#} + obj c h) (flush lib c h) (\<lambda>_ _. {#TpmConn c#})"
proof (cases "h = 0")
  case True
  then show ?thesis by (auto simp: flush_def obj_def intro: moves_ret)
next
  case False
  have "moves ledger_log (\<lambda>_. {#TpmConn c#} + obj c h) (tpm_flush_context lib c h) (\<lambda>_ _. {#TpmConn c#})"
    using False by (intro movesI exI [of _ "[Rel (TpmObject c h), Use (TpmConn c)]"])
      (simp add: tpm_flush_context_def on_conn_def obj_def log_ev_def)
  from moves_ignore [OF this] False show ?thesis by (simp add: flush_def)
qed

lemma moves_close_conn [ledger]:
  "moves ledger_log (\<lambda>_. {#TpmConn c#}) (tpm_close_conn lib c) (\<lambda>_ _. {#})"
  by (rule movesI) (auto simp: tpm_close_conn_def log_ev_def intro!: exI [of _ "[Rel (TpmConn c)]"])

section \<open>Opening a key\<close>

definition signer_res :: "tpm_signer \<Rightarrow> lx_res multiset" where
  "signer_res s = (case sg_tpm s of None \<Rightarrow> {#} | Some c \<Rightarrow> {#TpmConn c#} + obj c (sg_handle s))"

abbreviation signer_made :: "tpm_signer outcome \<Rightarrow> lx_res multiset" where
  "signer_made \<equiv> made signer_res"

text \<open>
  The body under the two local variables holds the connection, the child's object once it is
  loaded, and \<open>P\<close> (the parent's object, or nothing); on success all but \<open>P\<close> is the signer's.
\<close>

definition key_open :: "tpm_conn \<Rightarrow> lx_res multiset \<Rightarrow> open_vars \<times> 'd lx \<Rightarrow> lx_res multiset \<Rightarrow> bool" where
  "key_open c P vw M \<longleftrightarrow> \<not> fst (fst vw) \<and> M = {#TpmConn c#} + P + obj c (snd (fst vw))"

definition key_handle :: "tpm_signer outcome \<Rightarrow> open_vars \<Rightarrow> tpm_handle" where
  "key_handle r v = (case r of Ret s \<Rightarrow> sg_handle s | _ \<Rightarrow> snd v)"

definition key_post :: "tpm_conn \<Rightarrow> lx_res multiset \<Rightarrow> tpm_signer outcome \<Rightarrow> open_vars \<times> 'd lx
    \<Rightarrow> lx_res multiset \<Rightarrow> bool" where
  "key_post c P r vw M \<longleftrightarrow>
     (fst (fst vw) \<longleftrightarrow> returned r) \<and> (\<forall>s. r = Ret s \<longrightarrow> sg_tpm s = Some c) \<and>
     M = {#TpmConn c#} + P + obj c (key_handle r (fst vw))"

lemma key_post_simps [simp]:
  "key_post c P (Fail e) vw M = key_open c P vw M" "key_post c P (Panic p) vw M = key_open c P vw M"
  by (simp_all add: key_post_def key_open_def key_handle_def)

lemma owns_flushParent:
  assumes "owns (ledger_log \<circ> snd) A f (key_post c (obj c (nh_handle parent)))"
  shows "owns (ledger_log \<circ> snd) A (flushParent lib c parent f) (key_post c {#})"
  unfolding flushParent_def
proof (rule owns_deferred [OF assms owns_st_pair])
  fix r :: "tpm_signer outcome" and v :: open_vars
  let ?S = "(fst v \<longleftrightarrow> returned r) \<and> (\<forall>s. r = Ret s \<longrightarrow> sg_tpm s = Some c)"
  have "owns ledger_log (\<lambda>w M. ?S \<and> M = {#TpmConn c#} + obj c (nh_handle parent) + obj c (key_handle r v))
      (flush lib c (nh_handle parent)) (\<lambda>_ w. key_post c {#} r (v, w))"
    by (rule owns_pure)
      (rule owns_conseq [OF moves_frame [OF moves_flush, unfolded moves_def]], auto simp: key_post_def)
  then show "owns_st ledger_log (\<lambda>w. key_post c (obj c (nh_handle parent)) r (v, w))
      (\<lambda>w. snd (flush lib c (nh_handle parent) w)) (\<lambda>w. key_post c {#} r (v, w))"
    by (rule owns_st_conseq [OF owns_st_snd]) (auto simp: key_post_def)
qed

lemma owns_release:
  "owns_st ledger_log (\<lambda>w. key_post c {#} r (v, w)) (releaseUnlessDone lib c v) (\<lambda>_ M. M = signer_made r)"
proof -
  consider "fst v" | "\<not> fst v" "returned r" | "\<not> fst v" "\<not> returned r" by blast
  then show ?thesis
  proof cases
    case 1
    then show ?thesis
      by (simp add: releaseUnlessDone_def [abs_def])
        (rule owns_st_id, auto simp: key_post_def key_handle_def signer_res_def returned_iff)
  next
    case 2
    then show ?thesis by (intro owns_st_never) (simp add: key_post_def)
  next
    case 3
    have "moves ledger_log (\<lambda>_. {#TpmConn c#} + obj c (snd v))
        (gbind (ignore (flush lib c (snd v))) (\<lambda>_. tpm_close_conn lib c)) (\<lambda>_ _. {#})"
      by (rule moves_gbind [where R = "\<lambda>r _. if returned r then {#TpmConn c#} else {#}"])
        (auto intro: moves_ignore [OF moves_weaken [OF moves_flush]] moves_close_conn)
    from moves_st_snd [OF this] 3 show ?thesis
      by (simp add: releaseUnlessDone_def [abs_def] gbind_def ignore_def moves_st_def)
        (erule owns_st_conseq, cases r, auto simp: key_open_def made_none)
  qed
qed

text \<open>The steps of the two bodies.\<close>

lemmas owns_step = owns_gbind [OF owns_lift_moves]

abbreviation not_loaded :: "tpm_conn \<Rightarrow> lx_res multiset \<Rightarrow> open_vars \<times> 'd lx \<Rightarrow> lx_res multiset \<Rightarrow> bool" where
  "not_loaded c P vw M \<equiv> fst vw = (False, 0) \<and> M = {#TpmConn c#} + P"

lemma owns_body_primary:
  assumes "\<And>parent. owns (ledger_log \<circ> snd) (not_loaded c (obj c (nh_handle parent))) (k parent)
    (key_post c (obj c (nh_handle parent)))"
  shows "owns (ledger_log \<circ> snd) (not_loaded c {#})
    (gbind (lift_go (on_err h (createPrimary lib c))) (\<lambda>parent. flushParent lib c parent (k parent)))
    (key_post c {#})"
proof (rule owns_gbind [where R = "\<lambda>r. not_loaded c (got_obj c r)"])
  have "moves ledger_log (\<lambda>_. {#TpmConn c#}) (createPrimary lib c) (\<lambda>r _. got_obj c r + {#TpmConn c#})"
    unfolding createPrimary_def by (rule moves_on_err [OF moves_create_primary]) simp_all
  then show "owns (ledger_log \<circ> snd) (not_loaded c {#}) (lift_go (on_err h (createPrimary lib c)))
      (\<lambda>r. not_loaded c (got_obj c r))"
    by (rule owns_lift_moves [where S = "\<lambda>v. v = (False, 0)" and R = "\<lambda>_. {#}"]) auto
  show "owns (ledger_log \<circ> snd) (not_loaded c (got_obj c (Ret parent)))
      (flushParent lib c parent (k parent)) (key_post c {#})" for parent
    using owns_flushParent [OF assms] by simp
qed (auto simp: key_open_def)

lemma owns_body_load:
  assumes "\<And>loaded. owns (ledger_log \<circ> snd)
      (\<lambda>vw M. fst vw = (False, nh_handle loaded) \<and> M = {#TpmConn c#} + obj c (nh_handle parent) + obj c (nh_handle loaded))
      (k loaded) (key_post c (obj c (nh_handle parent)))"
  shows "owns (ledger_log \<circ> snd) (not_loaded c (obj c (nh_handle parent)))
    (gbind (lift_go (on_err h (tpm_load lib c parent priv pub))) (\<lambda>loaded.
      gbind (set_var (False, nh_handle loaded)) (\<lambda>_. k loaded)))
    (key_post c (obj c (nh_handle parent)))"
proof (rule owns_gbind [where R = "\<lambda>r. not_loaded c (obj c (nh_handle parent) + got_obj c r)"])
  show "owns (ledger_log \<circ> snd) (not_loaded c (obj c (nh_handle parent)))
      (lift_go (on_err h (tpm_load lib c parent priv pub)))
      (\<lambda>r. not_loaded c (obj c (nh_handle parent) + got_obj c r))"
    by (rule owns_lift_moves [OF moves_tpm_load, where S = "\<lambda>v. v = (False, 0)" and R = "\<lambda>_. {#}"]) auto
  show "owns (ledger_log \<circ> snd) (not_loaded c (obj c (nh_handle parent) + got_obj c (Ret loaded)))
      (gbind (set_var (False, nh_handle loaded)) (\<lambda>_. k loaded))
      (key_post c (obj c (nh_handle parent)))" for loaded
  proof (rule owns_gbind [where R = "\<lambda>r vw M. returned r \<and> fst vw = (False, nh_handle loaded) \<and>
      M = {#TpmConn c#} + obj c (nh_handle parent) + obj c (nh_handle loaded)"])
    show "owns (ledger_log \<circ> snd) (\<lambda>vw M. returned (Ret x) \<and> fst vw = (False, nh_handle loaded) \<and>
        M = {#TpmConn c#} + obj c (nh_handle parent) + obj c (nh_handle loaded)) (k loaded)
        (key_post c (obj c (nh_handle parent)))" for x :: unit
      using assms [of loaded] by simp
  qed (auto intro!: owns_set_var)
qed (auto simp: key_open_def)

text \<open>With the child loaded, what follows leaves the resources alone.\<close>

abbreviation child_loaded :: "tpm_conn \<Rightarrow> lx_res multiset \<Rightarrow> named_handle \<Rightarrow> open_vars \<times> 'd lx \<Rightarrow> lx_res multiset \<Rightarrow> bool" where
  "child_loaded c P loaded vw M \<equiv>
     fst vw = (False, nh_handle loaded) \<and> M = {#TpmConn c#} + P + obj c (nh_handle loaded)"

lemma owns_child_step:
  assumes "moves ledger_log (\<lambda>_. {#}) f (\<lambda>_ _. {#})"
    and "\<And>x. owns (ledger_log \<circ> snd) (child_loaded c P loaded) (k x) (key_post c P)"
  shows "owns (ledger_log \<circ> snd) (child_loaded c P loaded) (gbind (lift_go (on_err h f)) k) (key_post c P)"
proof (rule owns_gbind [OF _ assms(2)])
  show "owns (ledger_log \<circ> snd) (child_loaded c P loaded) (lift_go (on_err h f)) (\<lambda>_. child_loaded c P loaded)"
    by (rule owns_lift_moves [OF assms(1), where S = "\<lambda>v. v = (False, nh_handle loaded)"
          and R = "\<lambda>_. {#TpmConn c#} + P + obj c (nh_handle loaded)"]) auto
qed (auto simp: key_open_def)

lemma owns_child_done:
  "owns (ledger_log \<circ> snd) (child_loaded c P loaded)
     (gbind (set_var (True, nh_handle loaded)) (\<lambda>_.
       ret \<lparr>sg_tpm = Some c, sg_handle = nh_handle loaded, sg_name = n, sg_pub = pub\<rparr>)) (key_post c P)"
  by (rule owns_gbind [where R = "\<lambda>r vw M. returned r \<and> fst vw = (True, nh_handle loaded) \<and>
      M = {#TpmConn c#} + P + obj c (nh_handle loaded)"])
    (auto intro!: owns_set_var owns_ret simp: key_post_def key_handle_def)

text \<open>\<^verbatim>\<open>openTPM\<close> with the body that owns the connection.\<close>

lemma moves_openTPM [ledger]: "moves ledger_log (\<lambda>_. {#}) (openTPM lib env) (\<lambda>r _. opened_conn r)"
  unfolding openTPM_def Let_def by (rule moves_on_err [OF moves_open_dev]) simp_all

lemma moves_opened_body:
  assumes "\<And>c. owns (ledger_log \<circ> snd) (not_loaded c {#}) (body c) (key_post c {#})"
  shows "moves ledger_log (\<lambda>_. {#})
    (gbind (on_err h (openTPM lib env)) (\<lambda>tpm. local_var (False, 0) (\<lambda>v _. releaseUnlessDone lib tpm v) (body tpm)))
    (\<lambda>r _. signer_made r)"
proof (rule moves_gbind [where R = "\<lambda>r _. opened_conn r"])
  show "moves ledger_log (\<lambda>_. {#}) (on_err h (openTPM lib env)) (\<lambda>r _. opened_conn r)"
    by (rule moves_on_err [OF moves_openTPM]) simp_all
  show "moves ledger_log (\<lambda>_. opened_conn (Ret c))
      (local_var (False, 0) (\<lambda>v _. releaseUnlessDone lib c v) (body c)) (\<lambda>r _. signer_made r)" for c
    unfolding moves_def by (rule owns_local_var [OF assms _ owns_release]) simp
qed simp_all

lemma moves_readBlob [ledger]: "moves ledger_log (\<lambda>_. {#}) (readBlob lib path) (\<lambda>_ _. {#})"
  unfolding readBlob_def
  by (rule moves_gbind [OF moves_os_read_file]) (auto intro: movesI exI [of _ "[]"])

lemma moves_statGuard [ledger]: "moves ledger_log (\<lambda>_. {#}) (statGuard path name) (\<lambda>_ _. {#})"
proof (rule moves_quiet_const, rule quietI2)
  fix w :: "'a os_scheme"
  show "fds (snd (statGuard path name w)) = fds w \<and>
      ledger_log (snd (statGuard path name w)) = ledger_log w"
    using quiet_snd [OF quiet_stat, of path w]
    by (auto simp: statGuard_def go_defs split: prod.split outcome.split)
qed

lemma moves_writeBlob [ledger]: "moves ledger_log (\<lambda>_. {#}) (writeBlob lib path pub priv) (\<lambda>_ _. {#})"
  unfolding writeBlob_def by (rule moves_publish)

lemma owns_createUnder:
  "owns (ledger_log \<circ> snd) (not_loaded c (obj c (nh_handle parent))) (createUnder lib path name c parent)
    (key_post c (obj c (nh_handle parent)))"
  unfolding createUnder_def
proof (rule owns_gbind [where R = "\<lambda>_. not_loaded c (obj c (nh_handle parent))"])
  show "owns (ledger_log \<circ> snd) (not_loaded c (obj c (nh_handle parent)))
      (lift_go (on_err h (tpm_create lib c parent pub))) (\<lambda>_. not_loaded c (obj c (nh_handle parent)))" for h pub
    by (rule owns_lift_moves [OF moves_tpm_create, where S = "\<lambda>v. v = (False, 0)" and R = "\<lambda>_. {#}"]) auto
qed (simp_all only: key_post_simps split: prod.split,
    (intro allI impI owns_body_load owns_child_step owns_child_done moves_of_sum moves_writeBlob refl)?,
    auto simp: key_open_def)

lemma owns_loadUnder:
  "owns (ledger_log \<circ> snd) (not_loaded c (obj c (nh_handle parent))) (loadUnder lib pub priv c parent)
    (key_post c (obj c (nh_handle parent)))"
  unfolding loadUnder_def
  by (intro owns_body_load owns_child_step owns_child_done moves_of_sum) simp_all

lemma moves_createKey [ledger]: "moves ledger_log (\<lambda>_. {#}) (createKey lib env name) (\<lambda>r _. signer_made r)"
  unfolding createKey_def
  by (intro moves_gbind [where R = "\<lambda>_ _. {#}", OF moves_of_sum]
      moves_gbind [OF moves_statGuard] moves_opened_body owns_body_primary owns_createUnder) simp_all

lemma moves_loadKey [ledger]: "moves ledger_log (\<lambda>_. {#}) (loadKey lib env name) (\<lambda>r _. signer_made r)"
  unfolding loadKey_def
proof (intro moves_gbind [where R = "\<lambda>_ _. {#}", OF moves_of_sum] moves_gbind [where R = "\<lambda>_ _. {#}"])
  show "moves ledger_log (\<lambda>_. {#}) (on_err h (readBlob lib path)) (\<lambda>_ _. {#})" for h path
    by (rule moves_on_err [OF moves_readBlob]) simp_all
  show "moves ledger_log (\<lambda>_. {#}) (case b of (pubBlob, privBlob) \<Rightarrow>
      gbind (on_err h (openTPM lib env)) (\<lambda>tpm. local_var (False, 0) (\<lambda>v _. releaseUnlessDone lib tpm v) (
        gbind (lift_go (on_err h (createPrimary lib tpm))) (\<lambda>parent.
        flushParent lib tpm parent (loadUnder lib pubBlob privBlob tpm parent))))) (\<lambda>r _. signer_made r)" for b h
    by (cases b) (simp only: prod.case, intro moves_opened_body owns_body_primary owns_loadUnder)
qed simp_all

section \<open>Using and closing a signer\<close>

lemma moves_deleteKey [ledger]: "moves ledger_log (\<lambda>_. M) (deleteKey env name) (\<lambda>_ _. M)"
  unfolding deleteKey_def
  by (intro moves_gbind [where R = "\<lambda>_ _. M"] moves_of_sum moves_quiet_const quiet_on_err quiet_remove) simp_all

lemma moves_signLocked:
  "moves ledger_log (\<lambda>_. signer_res s) (signLocked lib s digest alg) (\<lambda>_ _. signer_res s)"
proof (cases "sg_tpm s")
  case None
  then show ?thesis by (simp add: signLocked_def moves_fail)
next
  case (Some c)
  let ?M = "\<lambda>_. signer_res s"
  have "moves ledger_log ?M (tpm_sign lib c \<lparr>nh_handle = sg_handle s, nh_name = n\<rparr> d sch v) (\<lambda>_. ?M)" for n d sch v
    using moves_tpm_sign [of c "\<lparr>nh_handle = sg_handle s, nh_name = n\<rparr>"]
    by (simp add: signer_res_def Some)
  from moves_on_err [OF this, where Q = "\<lambda>_. ?M"]
  have "moves ledger_log ?M (on_err h (tpm_sign lib c \<lparr>nh_handle = sg_handle s, nh_name = n\<rparr> d sch v)) (\<lambda>_. ?M)"
    for h n d sch v by simp
  moreover have "moves ledger_log ?M (gbind (on_err h (of_sum x)) (\<lambda>(r, sVal). ret (f r sVal))) (\<lambda>_. ?M)" for h x f
    by (intro moves_gbind [where R = "\<lambda>_. ?M"] moves_on_err [where R = "\<lambda>_. ?M"] moves_of_sum)
      (auto split: prod.split intro: moves_ret)
  ultimately show ?thesis
    unfolding signLocked_def Some option.case by (rule moves_gbind) simp_all
qed

lemma moves_Sign [ledger]:
  "moves ledger_log (\<lambda>_. signer_res s) (tpmSigner_Sign lib s digest opts) (\<lambda>_ _. signer_res s)"
  by (auto simp: tpmSigner_Sign_def split: signer_opts.split option.split
      intro: moves_fail moves_panic moves_signLocked)

lemma tpmSigner_Close_closed:
  "tpmSigner_Close lib (s, w) = (r, s', w') \<Longrightarrow>
    sg_tpm s' = None \<and> sg_pub s' = sg_pub s \<and> (sg_tpm s = None \<longrightarrow> r = Ret () \<and> s' = s \<and> w' = w)"
  by (auto simp: tpmSigner_Close_def Let_def split: option.splits prod.splits)

lemma moves_Close [ledger]:
  "moves (ledger_log \<circ> snd) (\<lambda>sw. signer_res (fst sw)) (tpmSigner_Close lib) (\<lambda>_ _. {#})"
proof (rule movesI)
  fix sw :: "tpm_signer \<times> 'a lx"
  obtain s w where sw: "sw = (s, w)" by (cases sw)
  show "\<exists>es. (ledger_log \<circ> snd) (snd (tpmSigner_Close lib sw)) = (ledger_log \<circ> snd) sw @ es \<and>
      (\<forall>F. run_log (signer_res (fst sw) + F) es = Some ({#} + F))"
  proof (cases "sg_tpm s")
    case None
    then show ?thesis by (auto simp: sw tpmSigner_Close_def signer_res_def)
  next
    case (Some c)
    have "moves ledger_log (\<lambda>_. {#TpmConn c#} + obj c (sg_handle s))
        (gbind (ignore (flush lib c (sg_handle s))) (\<lambda>_. tpm_close_conn lib c)) (\<lambda>_ _. {#})"
      by (rule moves_gbind [where R = "\<lambda>r _. if returned r then {#TpmConn c#} else {#}"])
        (auto intro: moves_ignore [OF moves_weaken [OF moves_flush]] moves_close_conn)
    from movesD [OF this, of w] Some show ?thesis
      by (fastforce simp: sw tpmSigner_Close_def signer_res_def gbind_def ignore_def Let_def split: prod.split)
  qed
qed

text \<open>The backend, and the contract on it.\<close>

definition linux_backend ::
    "('d, 'pub, 'priv) gotpm \<Rightarrow> environment \<Rightarrow> ('d lx, tpm_signer) backend" where
  "linux_backend lib env =
     \<lparr>bk_name = backendName, bk_create = createKey lib env, bk_load = loadKey lib env,
      bk_delete = deleteKey env, bk_public = tpmSigner_Public, bk_sign = tpmSigner_Sign lib,
      bk_close = tpmSigner_Close lib\<rparr>"

lemma linux_backend_simps [simp]:
  "bk_create (linux_backend lib env) = createKey lib env" "bk_load (linux_backend lib env) = loadKey lib env"
  "bk_delete (linux_backend lib env) = deleteKey env" "bk_public (linux_backend lib env) = tpmSigner_Public"
  "bk_sign (linux_backend lib env) = tpmSigner_Sign lib" "bk_close (linux_backend lib env) = tpmSigner_Close lib"
  "bk_name (linux_backend lib env) = backendName"
  by (simp_all add: linux_backend_def)

interpretation linux: key_backend ledger_log "linux_backend lib env" signer_res
  for lib env
proof unfold_locales
  show "signer_res s' = {#}" if "bk_close (linux_backend lib env) (s, w) = (r, s', w')" for s w r s' w'
    using tpmSigner_Close_closed [of lib s w r s' w'] that by (simp add: signer_res_def)
qed (simp_all add: moves_createKey moves_loadKey moves_deleteKey moves_Sign moves_Close)

end
