(* ===== verification/LinuxEffects.thy ===== *)
theory LinuxEffects
  imports LinuxLedger
begin

text \<open>
  What the calls of the Linux backend do to the table of stored keys. Commands to the TPM leave
  it alone; the one call that changes it inside \<^verbatim>\<open>createKey\<close> is \<^verbatim>\<open>writeBlob\<close>.
\<close>

section \<open>The table as an assertion\<close>

definition table_is :: "environment \<Rightarrow> (string \<Rightarrow> bytes option) \<Rightarrow> 'x os_scheme \<Rightarrow> bool" where
  "table_is env T w \<longleftrightarrow> os_wf w \<and> storedKeys env w = T"

lemma table_is_kept: "tree_kept w w' \<Longrightarrow> table_is env T w \<Longrightarrow> table_is env T w'"
  using storedKeys_cong [OF tree_keptD(4), of w w' env] tree_keptD(5) [of w w'] by (simp add: table_is_def)

lemma table_is_self: "os_wf w \<Longrightarrow> table_is env (storedKeys env w) w"
  by (simp add: table_is_def)

lemma triple_inert_table: "inert f \<Longrightarrow> triple (table_is env T) f (\<lambda>_. table_is env T)"
  by (simp add: triple_def table_is_kept [OF inert_snd])

section \<open>Calls that leave the tree alone\<close>

lemma inert_on_err: "inert f \<Longrightarrow> inert (on_err h f)"
  by (simp add: inert_def on_err_def split: prod.split outcome.split) (metis snd_conv)

lemma inert_of_sum [simp]: "inert (of_sum x)"
  by (cases x) (simp_all add: of_sum_def)

lemma inert_ignore: "inert f \<Longrightarrow> inert (ignore f)"
  by (simp add: inert_def ignore_def)

lemma inert_pair [simp]: "inert (\<lambda>w. (r, w))"
  by (simp add: inert_def)

lemma inert_log [simp]: "inert (\<lambda>w. (r, log_ev e w))"
  by (simp add: inert_def)

lemma inert_obj [simp]: "inert (\<lambda>w. (r, acq_object c h w))"
  by (simp add: inert_def acq_object_def)

lemma tree_kept_dev [simp]: "tree_kept w (w'\<lparr>tpm_dev := d\<rparr>) = tree_kept w w'"
proof -
  have "node_at (w'\<lparr>tpm_dev := d\<rparr>) = node_at w'" by (simp add: fun_eq_iff node_at_def)
  then show ?thesis by (simp add: tree_kept_def)
qed

lemma inert_on_dev [simp]: "inert (on_dev f)"
  by (rule inertI) (simp add: on_dev_def split: prod.split sum.split)

lemma inert_on_conn:
  assumes "\<And>w. tree_kept w (g w)"
  shows "inert (\<lambda>w. on_conn c f (g w))"
proof (rule inertI)
  fix w
  have "tree_kept w (log_ev (Use (TpmConn c)) (g w))" using assms by simp
  from this inert_snd [OF inert_on_dev] show "tree_kept w (snd (on_conn c f (g w)))"
    unfolding on_conn_def by (rule tree_kept_trans)
qed

lemma inert_tpm [simp]:
  "inert (tpm_open_dev lib dev)" "inert (tpm_create_primary lib c hier pub)"
  "inert (tpm_create lib c parent pub)" "inert (tpm_load lib c parent priv pub)"
  "inert (tpm_sign lib c key dig sch v)" "inert (tpm_flush_context lib c h)"
proof -
  have use: "tree_kept w (use_object c h w)" for h and w :: "'a lx"
    by (simp add: use_object_def)
  have plain: "inert (on_conn c f)" for f :: "'a \<Rightarrow> (go_err + 'z) \<times> 'a"
    using inert_on_conn [of "\<lambda>w. w"] by simp
  show "inert (tpm_open_dev lib dev)" unfolding tpm_open_dev_def by (rule inert_gbind) simp_all
  show "inert (tpm_create_primary lib c hier pub)"
    unfolding tpm_create_primary_def by (rule inert_gbind [OF plain]) simp
  show "inert (tpm_create lib c parent pub)"
    unfolding tpm_create_def [abs_def] by (rule inert_on_conn) (rule use)
  show "inert (tpm_load lib c parent priv pub)"
    unfolding tpm_load_def [abs_def] by (intro inert_gbind inert_on_conn use) simp
  show "inert (tpm_sign lib c key dig sch v)"
    unfolding tpm_sign_def [abs_def] by (rule inert_on_conn) (rule use)
  show "inert (tpm_flush_context lib c h)"
    unfolding tpm_flush_context_def [abs_def] by (rule inert_on_conn) simp
qed

lemma inert_close_conn [simp]: "inert (tpm_close_conn lib c)"
proof (rule inertI)
  fix w :: "'a lx"
  have "tree_kept w (log_ev (Rel (TpmConn c)) w)" by simp
  from this inert_snd [OF inert_on_dev] show "tree_kept w (snd (tpm_close_conn lib c w))"
    unfolding tpm_close_conn_def by (rule tree_kept_trans)
qed

lemma inert_flush [simp]: "inert (flush lib c h)"
  by (simp add: flush_def inert_ignore)

lemma inert_openTPM [simp]: "inert (openTPM lib env)"
  by (simp add: openTPM_def Let_def inert_on_err)

lemma inert_createPrimary [simp]: "inert (createPrimary lib c)"
  by (simp add: createPrimary_def inert_on_err)

lemma inert_statGuard [simp]: "inert (statGuard path name)"
proof (rule inertI)
  fix w :: "'a os_scheme"
  show "tree_kept w (snd (statGuard path name w))"
    using inert_snd [OF inert_stat, of w path]
    by (auto simp: statGuard_def go_defs split: prod.split outcome.split)
qed

lemma inert_readBlob [simp]: "inert (readBlob lib path)"
  unfolding readBlob_def by (rule inert_gbind) simp_all

lemma tree_kept_release: "tree_kept w (releaseUnlessDone lib c v w)"
  by (simp add: releaseUnlessDone_def
      tree_kept_trans [OF inert_snd [OF inert_flush] inert_snd [OF inert_close_conn]])

lemma inert_signLocked [simp]: "inert (signLocked lib s digest alg)"
  by (auto simp: signLocked_def split: option.split prod.split intro!: inert_gbind inert_on_err)

lemma inert_Sign: "inert (tpmSigner_Sign lib s digest opts)"
  by (auto simp: tpmSigner_Sign_def panic_def [abs_def] split: signer_opts.split option.split)

section \<open>\<^verbatim>\<open>createKey\<close>\<close>

definition blobOf :: "('d, 'pub, 'priv) gotpm \<Rightarrow> 'pub \<Rightarrow> 'priv \<Rightarrow> bytes" where
  "blobOf lib pub priv = encodeBlob (Marshal_pub lib pub) (Marshal_priv lib priv)"

text \<open>How \<^verbatim>\<open>createKey\<close> ends, from the table \<open>T\<close>.\<close>

definition created ::
    "('d, 'pub, 'priv) gotpm \<Rightarrow> environment \<Rightarrow> string \<Rightarrow> (string \<Rightarrow> bytes option) \<Rightarrow> tpm_signer outcome
     \<Rightarrow> 'd lx \<Rightarrow> bool" where
  "created lib env name T r w \<longleftrightarrow>
     (case r of
        Ret s \<Rightarrow> T name = None \<and> (\<exists>pub priv. eccPublicKey lib pub = Inr (sg_pub s) \<and>
          table_is env (T(name \<mapsto> blobOf lib pub priv)) w)
      | _ \<Rightarrow> table_is env T w)"

lemma created_simps [simp]:
  "created lib env name T (Fail e) w = table_is env T w"
  "created lib env name T (Panic p) w = table_is env T w"
  by (simp_all add: created_def)

lemma created_none: "\<not> returned r \<Longrightarrow> created lib env name T r w = table_is env T w"
  by (cases r) simp_all

lemma created_kept: "tree_kept w w' \<Longrightarrow> created lib env name T r w \<Longrightarrow> created lib env name T r w'"
  by (cases r) (auto simp: created_def intro: table_is_kept)

lemma triple_writeBlob:
  assumes "blobPath env name = Inr path"
  shows "triple (table_is env T) (writeBlob lib path pub priv)
    (\<lambda>r w. if returned r then T name = None \<and> table_is env (T(name \<mapsto> blobOf lib pub priv)) w
      else table_is env T w)"
proof (rule tripleI)
  fix w :: "'a os_scheme" and r w'
  assume T: "table_is env T w" and "writeBlob lib path pub priv w = (r, w')"
  then have "storeKey env name (blobOf lib pub priv) w = (r, w')"
    using assms by (simp add: storeKey_def of_sum_def writeBlob_def blobOf_def)
  from storeKey_result [OF _ this] T
  show "if returned r then T name = None \<and> table_is env (T(name \<mapsto> blobOf lib pub priv)) w'
      else table_is env T w'" by (auto simp: table_is_def split: if_splits)
qed

text \<open>A step under the local variables that leaves the tree alone.\<close>

lemma triple_lift_inert:
  assumes "inert f"
  shows "triple (\<lambda>vw. table_is env T (snd vw)) (lift_go (on_err h f)) (\<lambda>_ vw. table_is env T (snd vw))"
  by (rule triple_lift) (simp add: triple_inert_table assms inert_on_err)

lemma triple_skip_step:
  assumes "inert f" and "\<And>x. triple (\<lambda>vw. table_is env T (snd vw)) (k x) Q"
    and "\<And>r vw. \<not> returned r \<Longrightarrow> table_is env T (snd vw) \<Longrightarrow> Q r vw"
  shows "triple (\<lambda>vw. table_is env T (snd vw)) (gbind (lift_go (on_err h f)) k) Q"
  by (rule triple_gbind [OF triple_lift_inert [OF assms(1)] assms(2)]) (simp_all add: assms(3))

lemma triple_skip_set:
  assumes "triple (\<lambda>vw. table_is env T (snd vw)) (k ()) Q"
  shows "triple (\<lambda>vw. table_is env T (snd vw)) (gbind (set_var x) k) Q"
  by (rule triple_gbind [where R = "\<lambda>r vw. returned r \<and> table_is env T (snd vw)"])
    (use assms in \<open>auto intro: triple_set_var\<close>)

lemma triple_createUnder:
  assumes "blobPath env name = Inr path"
  shows "triple (\<lambda>vw. table_is env T (snd vw)) (createUnder lib path name c parent)
    (\<lambda>r vw. created lib env name T r (snd vw))"
proof -
  have last: "triple (\<lambda>vw. table_is env T (snd vw))
      (gbind (lift_go (on_err h (writeBlob lib path pub priv))) (\<lambda>_. gbind (set_var v) (\<lambda>_. ret s)))
      (\<lambda>r vw. created lib env name T r (snd vw))"
    if "eccPublicKey lib pub = Inr (sg_pub s)" for h pub priv v s
  proof (rule triple_gbind [where R = "\<lambda>r vw. if returned r then T name = None \<and>
      table_is env (T(name \<mapsto> blobOf lib pub priv)) (snd vw) else table_is env T (snd vw)"])
    show "triple (\<lambda>vw. table_is env T (snd vw)) (lift_go (on_err h (writeBlob lib path pub priv)))
      (\<lambda>r vw. if returned r then T name = None \<and> table_is env (T(name \<mapsto> blobOf lib pub priv)) (snd vw)
        else table_is env T (snd vw))"
      unfolding snd_conv by (intro triple_lift, unfold snd_conv)
        (rule triple_on_err [OF triple_writeBlob [OF assms]]; simp)
  qed (use that in \<open>auto simp: triple_def go_defs created_def\<close>)
  have ecc: "triple (\<lambda>vw. table_is env T (snd vw))
      (gbind (lift_go (on_err g (of_sum (eccPublicKey lib pub)))) (\<lambda>pk.
       gbind (lift_go (on_err h (writeBlob lib path pub priv))) (\<lambda>_. gbind (set_var v) (\<lambda>_.
         ret \<lparr>sg_tpm = Some c, sg_handle = hd, sg_name = n, sg_pub = pk\<rparr>))))
      (\<lambda>r vw. created lib env name T r (snd vw))" for g h pub priv v hd n
  proof (cases "eccPublicKey lib pub")
    case (Inl e)
    then show ?thesis by (auto simp: triple_def go_defs)
  next
    case (Inr pk)
    with last [of pub "\<lparr>sg_tpm = Some c, sg_handle = hd, sg_name = n, sg_pub = pk\<rparr>" h priv v]
    show ?thesis by (simp add: triple_def go_defs)
  qed
  show ?thesis
    unfolding createUnder_def
    by (intro triple_skip_step inert_tpm)
      (auto split: prod.split intro!: triple_skip_step triple_skip_set ecc simp: created_none)
qed

lemma triple_flushParent:
  assumes "triple P f (\<lambda>r vw. K r (snd vw))" and "\<And>r w w'. tree_kept w w' \<Longrightarrow> K r w \<Longrightarrow> K r w'"
  shows "triple P (flushParent lib c parent f) (\<lambda>r vw. K r (snd vw))"
  unfolding flushParent_def
  by (rule triple_deferred [OF assms(1)]) (simp add: assms(2) [OF inert_snd [OF inert_flush]])

lemma triple_opened_body:
  assumes K: "\<And>r w w'. tree_kept w w' \<Longrightarrow> K r w \<Longrightarrow> K r w'"
    and err: "\<And>r w. \<not> returned r \<Longrightarrow> table_is env T w \<Longrightarrow> K r w"
    and k: "\<And>c parent. triple (\<lambda>vw. table_is env T (snd vw)) (k c parent) (\<lambda>r vw. K r (snd vw))"
  shows "triple (table_is env T)
    (gbind (on_err h (openTPM lib env)) (\<lambda>tpm. local_var (False, 0) (\<lambda>v _. releaseUnlessDone lib tpm v)
      (gbind (lift_go (on_err h (createPrimary lib tpm))) (\<lambda>parent. flushParent lib tpm parent (k tpm parent)))))
    K"
proof (rule triple_gbind [OF triple_inert_table])
  show "triple (table_is env T) (local_var (False, 0) (\<lambda>v _. releaseUnlessDone lib tpm v)
      (gbind (lift_go (on_err h (createPrimary lib tpm))) (\<lambda>parent. flushParent lib tpm parent (k tpm parent)))) K" for tpm
  proof (rule triple_local_var)
    show "triple (\<lambda>vw. table_is env T (snd vw)) (gbind (lift_go (on_err h (createPrimary lib tpm)))
        (\<lambda>parent. flushParent lib tpm parent (k tpm parent))) (\<lambda>r vw. K r (snd vw))"
      by (intro triple_skip_step triple_flushParent k) (auto intro: K err)
  qed (auto intro: K [OF tree_kept_release])
qed (auto simp: inert_on_err intro: err)

lemma triple_createKey: "triple (table_is env T) (createKey lib env name) (created lib env name T)"
proof (cases "blobPath env name")
  case (Inl e)
  then show ?thesis by (simp add: triple_def createKey_def of_sum_def fail_def gbind_def)
next
  case (Inr path)
  have "triple (table_is env T) (gbind (statGuard path name) (\<lambda>_.
     gbind (on_err h (openTPM lib env)) (\<lambda>tpm. local_var (False, 0) (\<lambda>v _. releaseUnlessDone lib tpm v)
      (gbind (lift_go (on_err h (createPrimary lib tpm))) (\<lambda>parent.
        flushParent lib tpm parent (createUnder lib path name tpm parent)))))) (created lib env name T)" for h
  proof (rule triple_gbind [OF triple_inert_table [OF inert_statGuard]])
    show "triple (table_is env T) (gbind (on_err h (openTPM lib env)) (\<lambda>tpm.
        local_var (False, 0) (\<lambda>v _. releaseUnlessDone lib tpm v)
        (gbind (lift_go (on_err h (createPrimary lib tpm))) (\<lambda>parent.
          flushParent lib tpm parent (createUnder lib path name tpm parent)))))
        (created lib env name T)" for x :: unit
      by (rule triple_opened_body [OF _ _ triple_createUnder [OF Inr]])
        (simp_all add: created_none created_kept)
  qed simp_all
  with Inr show ?thesis by (simp add: triple_def createKey_def of_sum_def)
qed

section \<open>\<^verbatim>\<open>loadKey\<close>\<close>

definition loaded_from :: "('d, 'pub, 'priv) gotpm \<Rightarrow> bytes option \<Rightarrow> tpm_signer outcome \<Rightarrow> bool" where
  "loaded_from lib stored r \<longleftrightarrow>
     (\<forall>s. r = Ret s \<longrightarrow> (\<exists>b pub priv. stored = Some b \<and> fst (decodeBlob lib b) = Ret (pub, priv) \<and>
        eccPublicKey lib pub = Inr (sg_pub s)))"

lemma loaded_from_none: "\<not> returned r \<Longrightarrow> loaded_from lib stored r"
  by (auto simp: loaded_from_def)

lemma triple_loadUnder:
  assumes "stored = Some b" and "fst (decodeBlob lib b) = Ret (pub, priv)"
  shows "triple (\<lambda>vw. table_is env T (snd vw)) (loadUnder lib pub priv c parent)
    (\<lambda>r vw. table_is env T (snd vw) \<and> loaded_from lib stored r)"
proof -
  have "triple (\<lambda>vw. table_is env T (snd vw))
      (gbind (lift_go (on_err g (of_sum (eccPublicKey lib pub)))) (\<lambda>pk. gbind (set_var v) (\<lambda>_.
         ret \<lparr>sg_tpm = Some c, sg_handle = hd, sg_name = n, sg_pub = pk\<rparr>)))
      (\<lambda>r vw. table_is env T (snd vw) \<and> loaded_from lib stored r)" for g v hd n
    using assms by (cases "eccPublicKey lib pub") (auto simp: triple_def go_defs loaded_from_def)
  then show ?thesis
    unfolding loadUnder_def
    by (intro triple_skip_step [OF inert_tpm(4)] triple_skip_set) (simp_all add: loaded_from_none)
qed

lemma triple_readBlob:
  assumes "blobPath env name = Inr path"
  shows "triple (table_is env T) (readBlob lib path)
    (\<lambda>r w. table_is env T w \<and> (\<forall>pp. r = Ret pp \<longrightarrow> (\<exists>b. T name = Some b \<and> fst (decodeBlob lib b) = Ret pp)))"
proof (rule tripleI)
  fix w :: "'a os_scheme" and r w'
  assume T: "table_is env T w" and rd: "readBlob lib path w = (r, w')"
  have "table_is env T w'" using inert_kept [OF inert_readBlob rd] T by (rule table_is_kept)
  moreover have "\<exists>b. T name = Some b \<and> fst (decodeBlob lib b) = Ret pp" if "r = Ret pp" for pp
  proof -
    from rd that obtain b w1 where "os_read_file path w = (Ret b, w1)" "fst (decodeBlob lib b) = Ret pp"
      by (auto simp: readBlob_def gbind_eq_Ret)
    with open_read [OF this(1)] T assms show ?thesis by (auto simp: table_is_def storedKeys_def)
  qed
  ultimately show "table_is env T w' \<and>
      (\<forall>pp. r = Ret pp \<longrightarrow> (\<exists>b. T name = Some b \<and> fst (decodeBlob lib b) = Ret pp))" by blast
qed

lemma triple_loadKey:
  "triple (table_is env T) (loadKey lib env name) (\<lambda>r w. table_is env T w \<and> loaded_from lib (T name) r)"
proof (cases "blobPath env name")
  case (Inl e)
  then show ?thesis by (simp add: triple_def loadKey_def of_sum_def fail_def gbind_def loaded_from_def)
next
  case (Inr path)
  let ?K = "\<lambda>r w. table_is env T w \<and> loaded_from lib (T name) r"
  let ?C = "\<lambda>pp. \<exists>b. T name = Some b \<and> fst (decodeBlob lib b) = Ret pp"
  have body: "triple (table_is env T) (gbind (on_err h (openTPM lib env)) (\<lambda>tpm.
      local_var (False, 0) (\<lambda>v _. releaseUnlessDone lib tpm v)
      (gbind (lift_go (on_err h (createPrimary lib tpm))) (\<lambda>parent.
        flushParent lib tpm parent (loadUnder lib pubBlob privBlob tpm parent))))) ?K"
    if "?C (pubBlob, privBlob)" for h pubBlob privBlob
  proof -
    from that obtain b where b: "T name = Some b" "fst (decodeBlob lib b) = Ret (pubBlob, privBlob)"
      by blast
    show ?thesis
      by (rule triple_opened_body [OF _ _ triple_loadUnder [OF b]])
        (simp_all add: loaded_from_none table_is_kept)
  qed
  have "triple (table_is env T) (gbind (on_err g (readBlob lib path)) (\<lambda>(pubBlob, privBlob).
     gbind (on_err h (openTPM lib env)) (\<lambda>tpm. local_var (False, 0) (\<lambda>v _. releaseUnlessDone lib tpm v)
      (gbind (lift_go (on_err h (createPrimary lib tpm))) (\<lambda>parent.
        flushParent lib tpm parent (loadUnder lib pubBlob privBlob tpm parent)))))) ?K" for g h
  proof (rule triple_gbind_pure [where C = ?C])
    show "triple (table_is env T) (on_err g (readBlob lib path))
        (\<lambda>r w. table_is env T w \<and> (\<forall>pp. r = Ret pp \<longrightarrow> ?C pp))"
      by (rule triple_on_err [OF triple_readBlob [OF Inr]]) simp_all
  qed (auto intro: body simp: loaded_from_none split: prod.split)
  with Inr show ?thesis by (simp add: triple_def loadKey_def of_sum_def)
qed

end
