(* ===== verification/LinuxLive.thy ===== *)
theory LinuxLive
  imports LinuxEffects
begin

text \<open>
  That the operations succeed when nothing stands in the way: without I/O errors, with a
  device and a library that answer every command, a store directory and a free name,
  \<^verbatim>\<open>createKey\<close> returns a signer; \<^verbatim>\<open>loadKey\<close> and \<^verbatim>\<open>deleteKey\<close> succeed on a key that is stored.
\<close>

section \<open>Total runs\<close>

definition returns :: "('w \<Rightarrow> bool) \<Rightarrow> ('w, 'a) go \<Rightarrow> ('a \<Rightarrow> 'w \<Rightarrow> bool) \<Rightarrow> bool" where
  "returns P f Q \<longleftrightarrow> (\<forall>w. P w \<longrightarrow> (\<exists>x w'. f w = (Ret x, w') \<and> Q x w'))"

lemma returnsI: "(\<And>w. P w \<Longrightarrow> \<exists>x w'. f w = (Ret x, w') \<and> Q x w') \<Longrightarrow> returns P f Q"
  by (simp add: returns_def)

lemma returnsD:
  assumes "returns P f Q" and "P w"
  obtains x w' where "f w = (Ret x, w')" and "Q x w'"
  using assms by (auto simp: returns_def)

lemma returns_pre: "returns P f Q \<Longrightarrow> (\<And>w. P' w \<Longrightarrow> P w) \<Longrightarrow> returns P' f Q"
  by (auto simp: returns_def)

lemma returns_gbind:
  assumes "returns P f R" and "\<And>x. returns (R x) (g x) Q"
  shows "returns P (gbind f g) Q"
proof (rule returnsI)
  fix w
  assume "P w"
  with assms(1) obtain x w1 where f: "f w = (Ret x, w1)" "R x w1" by (rule returnsD)
  from returnsD [OF assms(2) f(2)] obtain y w2 where "g x w1 = (Ret y, w2)" "Q y w2" by metis
  with f show "\<exists>x w'. gbind f g w = (Ret x, w') \<and> Q x w'" by (simp add: gbind_def)
qed

lemma returns_on_err: "returns P f Q \<Longrightarrow> returns P (on_err h f) Q"
  by (fastforce simp: returns_def on_err_def)

lemma returns_ret: "(\<And>w. P w \<Longrightarrow> Q x w) \<Longrightarrow> returns P (ret x) Q"
  by (simp add: returns_def ret_def)

lemma returns_of_sum: "x = Inr v \<Longrightarrow> (\<And>w. P w \<Longrightarrow> Q v w) \<Longrightarrow> returns P (of_sum x) Q"
  by (simp add: of_sum_def returns_ret)

lemma returns_lift: "returns P f Q \<Longrightarrow> returns (\<lambda>vw. P (snd vw)) (lift_go f) (\<lambda>x vw. Q x (snd vw))"
  by (fastforce simp: returns_def lift_go_def)

lemma returns_set_var: "returns (\<lambda>vw. P (snd vw)) (set_var x) (\<lambda>_ vw. P (snd vw))"
  by (simp add: returns_def set_var_def)

lemma returns_local_var:
  assumes "returns (\<lambda>vw. P (snd vw)) body (\<lambda>x vw. R x (snd vw))" and "\<And>v x w. R x w \<Longrightarrow> Q x (d v (Ret x) w)"
  shows "returns P (local_var v0 d body) Q"
proof (rule returnsI)
  fix w
  assume "P w"
  with assms(1) obtain x v w1 where "body (v0, w) = (Ret x, v, w1)" "R x w1"
    by (fastforce simp: returns_def dest: spec [of _ "(v0, w)"])
  with assms(2) show "\<exists>x w'. local_var v0 d body w = (Ret x, w') \<and> Q x w'" by (simp add: local_var_def)
qed

lemma returns_deferred:
  assumes "returns P f R" and "\<And>x w. R x w \<Longrightarrow> Q x (d (Ret x) w)"
  shows "returns P (deferred d f) Q"
  using assms by (fastforce simp: returns_def deferred_def)

section \<open>Files without I/O errors\<close>

text \<open>No system call fails, the names are \<open>N\<close> and the open files are \<open>D\<close>.\<close>

definition calm :: "(string \<Rightarrow> node option) \<Rightarrow> (nat \<Rightarrow> node option) \<Rightarrow> 'x os_scheme \<Rightarrow> bool" where
  "calm N D w \<longleftrightarrow> faults w = (\<lambda>_. None) \<and> node_at w = N \<and> fds w = D"

lemma calm_record_view [simp]: "calm N D (record_view w) = calm N D w"
  by (simp add: calm_def record_view_def node_at_def fun_eq_iff)

lemma calm_tick [simp]: "calm N D (w\<lparr>tick := n\<rparr>) = calm N D w"
  by (simp add: calm_def node_at_def fun_eq_iff)

lemma calm_inodes [simp]: "calm N D (w\<lparr>inodes := n\<rparr>) = calm N D w"
  by (simp add: calm_def node_at_def fun_eq_iff)

lemma calm_log [simp]: "calm N D (log_ev e w) = calm N D w"
  by (simp add: calm_def log_ev_def node_at_def fun_eq_iff)

lemma calm_dev [simp]: "calm N D (w\<lparr>tpm_dev := d\<rparr>) = calm N D w"
  by (simp add: calm_def node_at_def fun_eq_iff)

lemma calm_syscall_part:
  assumes "\<And>w. calm N D w \<Longrightarrow> \<exists>x w'. f w = (Ret x, w') \<and> calm N' D' w' \<and> Q x"
  shows "returns (calm N D) (syscall_part part f) (\<lambda>x w. calm N' D' w \<and> Q x)"
proof (rule returnsI)
  fix w :: "'a os_scheme"
  assume c: "calm N D w"
  then have "calm N D (w\<lparr>tick := Suc (tick w)\<rparr>)" by simp
  from assms [OF this] obtain x w' where "f (w\<lparr>tick := Suc (tick w)\<rparr>) = (Ret x, w')" "calm N' D' w'" "Q x" by blast
  moreover have "faults w (tick w) = None" using c by (simp add: calm_def)
  ultimately show "\<exists>x w'. syscall_part part f w = (Ret x, w') \<and> calm N' D' w' \<and> Q x"
    by (simp add: syscall_part_def)
qed

lemmas calm_syscall = calm_syscall_part [where part = "\<lambda>_ w. w", folded syscall_def]

lemma calm_stat: "N p = Some n \<Longrightarrow> returns (calm N D) (os_stat p) (\<lambda>x w. calm N D w \<and> x = n)"
  unfolding os_stat_def by (rule calm_syscall) (simp add: calm_def ret_def)

lemma calm_mkdir_all:
  assumes "N p = Some (DirNode m)"
  shows "returns (calm N D) (os_mkdir_all p perm) (\<lambda>_. calm N D)"
proof (rule returnsI)
  fix w :: "'a os_scheme"
  assume c: "calm N D w"
  have "returns (calm N D) (os_stat p) (\<lambda>x w. calm N D w \<and> x = DirNode m)"
    using assms by (rule calm_stat)
  from returnsD [OF this c] obtain w' where "os_stat p w = (Ret (DirNode m), w')" "calm N D w'" by blast
  then show "\<exists>x w'. os_mkdir_all p perm w = (Ret x, w') \<and> calm N D w'"
    by (subst os_mkdir_all.simps) simp
qed

lemma calm_inode_op: "D (file_fd f) = Some n \<Longrightarrow> returns (calm N D) (on_inode f part upd) (\<lambda>_. calm N D)"
proof (rule returnsI)
  fix w :: "'a os_scheme"
  assume "D (file_fd f) = Some n" and c: "calm N D w"
  then have n: "fds w (file_fd f) = Some n" by (simp add: calm_def)
  show "\<exists>x w'. on_inode f part upd w = (Ret x, w') \<and> calm N D w'"
  proof (cases n)
    case (DirNode m)
    have "returns (calm N D) (syscall (ret ()) :: ('a os_scheme, unit) go) (\<lambda>x w. calm N D w \<and> True)"
      by (rule calm_syscall) (simp add: ret_def)
    from returnsD [OF this c] n DirNode show ?thesis by (auto simp: on_inode_def)
  next
    case (FileNode i)
    have "returns (calm N D) (syscall_part (\<lambda>k w. w\<lparr>inodes := (inodes w)(i := map_option (part k) (inodes w i))\<rparr>)
        (\<lambda>w. ret () (w\<lparr>inodes := (inodes w)(i := map_option upd (inodes w i))\<rparr>)) :: ('a os_scheme, unit) go)
        (\<lambda>x w. calm N D w \<and> True)"
      by (rule calm_syscall_part) (simp add: ret_def)
    from returnsD [OF this c] n FileNode show ?thesis by (auto simp: on_inode_def)
  qed
qed

lemma calm_close:
  assumes "D (file_fd f) = Some n"
  shows "returns (calm N D) (file_close f) (\<lambda>_. calm N (D(file_fd f := None)))"
proof (rule returnsI)
  fix w :: "'a os_scheme"
  assume c: "calm N D w"
  define w1 where "w1 = log_ev (Rel (OpenFile (file_fd f))) (w\<lparr>fds := (fds w)(file_fd f := None)\<rparr>)"
  have a: "calm N (D(file_fd f := None)) w1"
    using c by (simp add: w1_def calm_def node_at_def fun_eq_iff)
  have b: "returns (calm N (D(file_fd f := None))) (syscall (ret ()) :: ('a os_scheme, unit) go)
      (\<lambda>x w. calm N (D(file_fd f := None)) w \<and> True)"
    by (rule calm_syscall) (simp add: ret_def)
  from returnsD [OF b a] obtain u w' where w': "syscall (ret ()) w1 = (Ret u, w')" "calm N (D(file_fd f := None)) w'"
    by blast
  have "fds w (file_fd f) = Some n" using c assms by (simp add: calm_def)
  then have "file_close f w = syscall (ret ()) w1" by (simp add: file_close_def Let_def w1_def)
  with w' show "\<exists>x w'. file_close f w = (Ret x, w') \<and> calm N (D(file_fd f := None)) w'" by auto
qed

section \<open>Publishing\<close>

text \<open>The open file \<open>f\<close> on node \<open>n\<close>; nothing is said of other descriptors.\<close>

definition calm_file :: "(string \<Rightarrow> node option) \<Rightarrow> os_file \<Rightarrow> node \<Rightarrow> 'x os_scheme \<Rightarrow> bool" where
  "calm_file N f n w \<longleftrightarrow> (\<exists>D. calm N D w \<and> D (file_fd f) = Some n)"

definition calm_names :: "(string \<Rightarrow> node option) \<Rightarrow> 'x os_scheme \<Rightarrow> bool" where
  "calm_names N w \<longleftrightarrow> (\<exists>D. calm N D w)"

lemma returns_ex: "(\<And>D. returns (P D) f (\<lambda>x w. \<exists>D. Q D x w)) \<Longrightarrow> returns (\<lambda>w. \<exists>D. P D w) f (\<lambda>x w. \<exists>D. Q D x w)"
  by (fastforce simp: returns_def)

lemma calm_create_temp:
  assumes "N dir = Some (DirNode m)" and "\<And>k. N (temp_name dir pre k) = None" and "\<And>k. path_dir (temp_name dir pre k) = dir"
  shows "returns (calm_names N) (os_create_temp dir pre)
    (\<lambda>f w. \<exists>k i. file_name f = temp_name dir pre k \<and> calm_file (N(temp_name dir pre k \<mapsto> FileNode i)) f (FileNode i) w)"
proof (rule returnsI)
  fix w :: "'a os_scheme"
  assume "calm_names N w"
  then obtain D where c: "calm N D w" by (auto simp: calm_names_def)
  define t i where "t = temp_name dir pre (rands w (tick w))" and "i = next_ino w"
  let ?D = "D(next_fd w \<mapsto> FileNode i)"
  have "node_at w t = None" "dir_error w t = None" "faults w (tick w) = None"
    using c assms by (simp_all add: calm_def t_def dir_error_def)
  then obtain w1 where o: "os_open_excl t 384 w = (Ret \<lparr>file_fd = next_fd w, file_name = t\<rparr>, w1)"
    and w1: "w1 = record_view (log_ev (Acq (OpenFile (next_fd w)))
       ((set_node t (FileNode i) (w\<lparr>tick := Suc (tick w), inodes := (inodes w)(i \<mapsto> \<lparr>content = [], mode = 384\<rparr>), next_ino := Suc i\<rparr>))
         \<lparr>fds := (fds w)(next_fd w \<mapsto> FileNode i), next_fd := Suc (next_fd w)\<rparr>))"
    by (simp add: os_open_excl_def syscall_def syscall_part_def open_node_def node_at_def dir_error_def i_def)
  have "calm (N(t \<mapsto> FileNode i)) ?D w1"
    using c unfolding w1 calm_record_view calm_log by (simp add: calm_def fun_eq_iff node_at_def set_node_def update_conv')
  then have "calm_file (N(t \<mapsto> FileNode i)) \<lparr>file_fd = next_fd w, file_name = t\<rparr> (FileNode i) w1"
    by (auto simp: calm_file_def)
  moreover have "os_create_temp dir pre w = (Ret \<lparr>file_fd = next_fd w, file_name = t\<rparr>, w1)"
    by (simp add: os_create_temp_first o [unfolded t_def] t_def)
  ultimately show "\<exists>f w'. os_create_temp dir pre w = (Ret f, w') \<and>
      (\<exists>k i. file_name f = temp_name dir pre k \<and> calm_file (N(temp_name dir pre k \<mapsto> FileNode i)) f (FileNode i) w')"
    unfolding t_def by fastforce
qed

lemma calm_file_ops:
  "returns (calm_file N f n) (file_chmod f perm) (\<lambda>_. calm_file N f n)"
  "returns (calm_file N f n) (file_write f bs) (\<lambda>_. calm_file N f n)"
  "returns (calm_file N f n) (file_sync f) (\<lambda>_. calm_file N f n)"
proof -
  have "returns (calm_file N f n) (on_inode f part upd) (\<lambda>_. calm_file N f n)" for part upd
    using calm_inode_op [of _ f n N part upd] unfolding calm_file_def returns_def by blast
  then show "returns (calm_file N f n) (file_chmod f perm) (\<lambda>_. calm_file N f n)"
    "returns (calm_file N f n) (file_write f bs) (\<lambda>_. calm_file N f n)"
    "returns (calm_file N f n) (file_sync f) (\<lambda>_. calm_file N f n)"
    by (simp_all add: file_chmod_def file_write_def file_sync_def)
qed

lemma calm_file_close: "returns (calm_file N f n) (file_close f) (\<lambda>_. calm_names N)"
  using calm_close [of _ f n N] unfolding calm_file_def calm_names_def returns_def by blast

lemma calm_link:
  assumes "N old = Some (FileNode i)" and "N new = None" and "N (path_dir new) = Some (DirNode m)"
  shows "returns (calm_names N) (os_link old new) (\<lambda>_. calm_names (N(new \<mapsto> FileNode i)))"
proof -
  have "returns (calm N D) (os_link old new) (\<lambda>_ w. calm (N(new \<mapsto> FileNode i)) D w \<and> True)" for D
    unfolding os_link_def
    by (rule calm_syscall) (use assms in \<open>auto simp: calm_def dir_error_def ret_def\<close>)
  then show ?thesis unfolding calm_names_def returns_def by blast
qed

text \<open>Calls that leave the pattern of failures as it is, which all do.\<close>

definition steady :: "('x os_scheme, 'a) go \<Rightarrow> bool" where
  "steady f \<longleftrightarrow> (\<forall>w. faults (snd (f w)) = faults w)"

lemma steady_syscall_part:
  assumes "\<And>w. faults (snd (f w)) = faults w" and "\<And>k w. faults (part k w) = faults w"
  shows "steady (syscall_part part f)"
  unfolding steady_def
proof
  fix w :: "'a os_scheme"
  from assms(1) [of "w\<lparr>tick := Suc (tick w)\<rparr>"] assms(2) show "faults (snd (syscall_part part f w)) = faults w"
    by (cases rule: syscall_part_cases [of part f w]) (auto simp: record_view_def)
qed

lemma steady_syscall: "(\<And>w. faults (snd (f w)) = faults w) \<Longrightarrow> steady (syscall f)"
  unfolding syscall_def by (rule steady_syscall_part) simp_all

lemma steady_snd: "steady f \<Longrightarrow> f w = (r, w') \<Longrightarrow> faults w' = faults w"
  by (metis snd_conv steady_def)

lemma steady_unlink: "steady (sys_unlink p)" and steady_rmdir: "steady (sys_rmdir p)"
  and steady_open: "steady (os_open p)"
  unfolding sys_unlink_def sys_rmdir_def os_open_def
  by (auto intro!: steady_syscall simp: fail_def ret_def open_node_def del_node_def log_ev_def split: option.split node.split)

lemma steady_remove: "steady (os_remove p)"
  unfolding steady_def
proof
  fix w :: "'a os_scheme"
  obtain r1 w1 where u: "sys_unlink p w = (r1, w1)" by fastforce
  obtain r2 w2 where d: "sys_rmdir p w1 = (r2, w2)" by fastforce
  have "faults w1 = faults w" "faults w2 = faults w"
    using steady_snd [OF steady_unlink u] steady_snd [OF steady_rmdir d] by simp_all
  then show "faults (snd (os_remove p w)) = faults w"
    by (auto simp: os_remove_def u d split: outcome.split go_err.split errno.split)
qed

lemma steady_inode: "steady (on_inode f part upd)"
proof -
  have r: "steady (syscall (ret ()) :: ('a os_scheme, unit) go)" by (rule steady_syscall) (simp add: ret_def)
  have i: "steady (syscall_part (\<lambda>k w. w\<lparr>inodes := (inodes w)(i := map_option (part k) (inodes w i))\<rparr>)
      (\<lambda>w. ret () (w\<lparr>inodes := (inodes w)(i := map_option upd (inodes w i))\<rparr>)) :: ('a os_scheme, unit) go)" for i
    by (rule steady_syscall_part) (simp_all add: ret_def)
  show ?thesis
    unfolding steady_def on_inode_def
    by (simp add: fail_def r [unfolded steady_def, rule_format] i [unfolded steady_def, rule_format]
        split: option.split node.split)
qed

lemma steady_close: "steady (file_close f)"
proof -
  have r: "steady (syscall (ret ()) :: ('a os_scheme, unit) go)" by (rule steady_syscall) (simp add: ret_def)
  show ?thesis
    unfolding steady_def file_close_def
    by (simp add: fail_def Let_def log_ev_def r [unfolded steady_def, rule_format] split: option.split)
qed

definition no_faults :: "'x os_scheme \<Rightarrow> bool" where
  "no_faults w \<longleftrightarrow> faults w = (\<lambda>_. None)"

lemma calm_no_faults: "calm_names N w \<Longrightarrow> no_faults w"
  by (auto simp: calm_names_def calm_def no_faults_def)

lemma returns_ignore_steady: "steady f \<Longrightarrow> returns no_faults (ignore f) (\<lambda>_. no_faults)"
  by (simp add: returns_def ignore_def no_faults_def steady_def)

lemma no_faults_steady: "steady f \<Longrightarrow> no_faults (snd (f w)) = no_faults w"
  by (simp add: no_faults_def steady_def)

lemma returns_syncDir: "returns no_faults (syncDir dir) (\<lambda>_. no_faults)"
proof (rule returnsI)
  fix w :: "'a os_scheme"
  assume w: "no_faults w"
  obtain r w1 where o: "os_open dir w = (r, w1)" by fastforce
  then have "no_faults w1" using no_faults_steady [OF steady_open, of dir w] w by simp
  then have "no_faults (snd (file_close d (snd (file_sync d w1))))" for d
    by (simp add: file_sync_def no_faults_steady steady_inode steady_close)
  with \<open>no_faults w1\<close> show "\<exists>x w'. syncDir dir w = (Ret x, w') \<and> no_faults w'"
    by (cases r) (simp_all add: syncDir_def o)
qed

lemma no_faults_cleanup: "no_faults w \<Longrightarrow> no_faults (cleanupTemp tmp n w)"
  by (simp add: cleanupTemp_def no_faults_steady steady_remove steady_close)

text \<open>A free path in an existing directory without left-over temporary files.\<close>

definition ready :: "string \<Rightarrow> (string \<Rightarrow> node option) \<Rightarrow> bool" where
  "ready path N \<longleftrightarrow> N path = None \<and> (\<exists>m. N (path_dir path) = Some (DirNode m)) \<and>
     (\<forall>k. N (temp_name (path_dir path) ''.tpmkey-'' k) = None)"

lemma returns_commit:
  assumes "ready path N" and "file_name tmp = temp_name (path_dir path) ''.tpmkey-'' k"
    and "path \<noteq> file_name tmp" and "path_dir path \<noteq> file_name tmp"
  shows "returns (\<lambda>vw. calm_file (N(file_name tmp \<mapsto> FileNode i)) tmp (FileNode i) (snd vw))
    (commitTemp path (path_dir path) buf tmp) (\<lambda>_ vw. no_faults (snd vw))"
proof -
  let ?N = "N(file_name tmp \<mapsto> FileNode i)"
  obtain m where m: "N (path_dir path) = Some (DirNode m)" using assms(1) by (auto simp: ready_def)
  have link: "returns (calm_names ?N) (os_link (file_name tmp) path) (\<lambda>_. no_faults)"
    using calm_link [of ?N "file_name tmp" i path m] assms m calm_no_faults
    by (fastforce simp: ready_def returns_def)
  note step = returns_lift [OF returns_on_err]
  show ?thesis
    unfolding commitTemp_def
    by (intro returns_gbind [OF step [OF calm_file_ops(1)]] returns_gbind [OF step [OF calm_file_ops(2)]]
        returns_gbind [OF step [OF calm_file_ops(3)]] returns_gbind [OF step [OF calm_file_close]]
        returns_gbind [OF step [OF link]] returns_gbind [OF returns_lift [OF returns_ignore_steady [OF steady_remove]]]
        returns_gbind [OF returns_set_var] returns_lift [OF returns_syncDir])
qed

lemma path_dir_temp:
  assumes "blobPath env name = Inr path"
  shows "path_dir (temp_name (path_dir path) ''.tpmkey-'' k) = path_dir path"
proof -
  obtain cfg where cfg: "userConfigDir env = Inr cfg" using assms by (auto simp: blobPath_Inr)
  let ?es = "clean_elems cfg @ [''key-protecc'']" and ?e = "''.tpmkey-'' @ dec_digits k"
  note c = userConfigDir_nonempty [OF cfg]
  have dir: "path_dir path = render (rooted cfg) ?es"
    using blobPath_dir [OF cfg assms] path_join2 [OF c plain_store_dir] by simp
  have digits: "slash \<notin> set (dec_digits n)" for n
  proof (induction n rule: dec_digits.induct)
    case (1 n)
    have nd: "slash \<noteq> char_of (48 + d)" if "d < 10" for d :: nat
    proof
      assume "slash = char_of (48 + d)"
      then have "(of_char slash :: nat) = of_char (char_of (48 + d) :: char)" by simp
      with that show False by simp
    qed
    have "n mod 10 < 10" by simp
    from nd [OF this] nd [of n] 1 show ?case by (subst dec_digits.simps) (cases "n < 10"; simp)
  qed
  then have e: "plain_elem ?e" by (auto simp: plain_elem_def)
  have s: "clean_stack (rooted cfg) (rev ?es)"
    using clean_elems_stack [of cfg] by (simp add: clean_stack_Cons)
  have "temp_name (path_dir path) ''.tpmkey-'' k = render (rooted cfg) (?es @ [?e])"
    by (simp add: temp_name_def dir render_def join_path_snoc [of ?es, simplified])
  with path_dir_name [OF s _ e] show ?thesis by (simp add: dir)
qed

lemma returns_publish:
  assumes "blobPath env name = Inr path" and "ready path N"
  shows "returns (calm_names N) (publish path buf) (\<lambda>_. no_faults)"
proof -
  obtain m where m: "N (path_dir path) = Some (DirNode m)" using assms(2) by (auto simp: ready_def)
  have mk: "returns (calm_names N) (os_mkdir_all (path_dir path) 448) (\<lambda>_. calm_names N)"
    using calm_mkdir_all [where N = N and p = "path_dir path", OF m] unfolding calm_names_def returns_def by blast
  have tmp: "returns (calm_names N) (os_create_temp (path_dir path) ''.tpmkey-'')
      (\<lambda>f w. \<exists>k i. file_name f = temp_name (path_dir path) ''.tpmkey-'' k \<and>
        calm_file (N(temp_name (path_dir path) ''.tpmkey-'' k \<mapsto> FileNode i)) f (FileNode i) w)"
    by (rule calm_create_temp [where N = N and dir = "path_dir path", OF m _ path_dir_temp [OF assms(1)]]) (use assms(2) in \<open>simp add: ready_def\<close>)
  have commit: "returns (\<lambda>w. \<exists>k i. file_name f = temp_name (path_dir path) ''.tpmkey-'' k \<and>
        calm_file (N(temp_name (path_dir path) ''.tpmkey-'' k \<mapsto> FileNode i)) f (FileNode i) w)
      (local_var (file_name f) (\<lambda>tmpName _. cleanupTemp f tmpName) (commitTemp path (path_dir path) buf f))
      (\<lambda>_. no_faults)" for f
  proof (rule returnsI)
    fix w :: "'b os_scheme"
    assume "\<exists>k i. file_name f = temp_name (path_dir path) ''.tpmkey-'' k \<and>
        calm_file (N(temp_name (path_dir path) ''.tpmkey-'' k \<mapsto> FileNode i)) f (FileNode i) w"
    then obtain k i where f: "file_name f = temp_name (path_dir path) ''.tpmkey-'' k"
      "calm_file (N(file_name f \<mapsto> FileNode i)) f (FileNode i) w" by auto
    have "path \<noteq> file_name f" using blobPath_not_temp [OF assms(1)] f(1) by simp
    moreover have "path_dir path \<noteq> file_name f"
      using m assms(2) f(1) by (metis option.distinct(1) ready_def)
    ultimately have "returns (calm_file (N(file_name f \<mapsto> FileNode i)) f (FileNode i))
        (local_var (file_name f) (\<lambda>tmpName _. cleanupTemp f tmpName) (commitTemp path (path_dir path) buf f))
        (\<lambda>_. no_faults)"
      by (intro returns_local_var [OF returns_commit [OF assms(2) f(1)]] no_faults_cleanup)
    from returnsD [OF this f(2)] show "\<exists>x w'. local_var (file_name f) (\<lambda>tmpName _. cleanupTemp f tmpName)
        (commitTemp path (path_dir path) buf f) w = (Ret x, w') \<and> no_faults w'" by blast
  qed
  show ?thesis
    unfolding publish_def Let_def
    by (rule returns_gbind [OF returns_on_err [OF mk] returns_gbind [OF returns_on_err [OF tmp] commit]])
qed

section \<open>The device\<close>

text \<open>A device and library that answer every command, and know every public area they are given.\<close>

definition answers :: "('d, 'pub, 'priv) gotpm \<Rightarrow> bool" where
  "answers lib \<longleftrightarrow>
     (\<forall>dev d. \<exists>c d'. linuxtpm_Open lib dev d = (Inr c, d')) \<and>
     (\<forall>c h pub d. \<exists>nh d'. exec_CreatePrimary lib c h pub d = (Inr nh, d')) \<and>
     (\<forall>c parent pub d. \<exists>pp d'. exec_Create lib c parent pub d = (Inr pp, d')) \<and>
     (\<forall>c parent priv pub d. \<exists>nh d'. exec_Load lib c parent priv pub d = (Inr nh, d')) \<and>
     (\<forall>pub. \<exists>pk. eccPublicKey lib pub = Inr pk)"

lemma calm_names_simps [simp]:
  "calm_names N (log_ev e w) = calm_names N w" "calm_names N (w\<lparr>tpm_dev := d\<rparr>) = calm_names N w"
  by (simp_all add: calm_names_def)

lemma calm_objects [simp]:
  "calm_names N (acq_object c h w) = calm_names N w" "calm_names N (use_object c h w) = calm_names N w"
  by (simp_all add: acq_object_def use_object_def)

lemma calm_on_dev:
  "(\<And>d. \<exists>x d'. f d = (Inr x, d')) \<Longrightarrow> returns (calm_names N) (on_dev f) (\<lambda>_. calm_names N)"
  by (rule returnsI) (metis (mono_tags, lifting) calm_names_simps(2) old.prod.case on_dev_def sum.case(2))

lemma calm_on_conn:
  "(\<And>d. \<exists>x d'. f d = (Inr x, d')) \<Longrightarrow> returns (calm_names N) (on_conn c f) (\<lambda>_. calm_names N)"
  using calm_on_dev [of f N] unfolding returns_def on_conn_def by simp

lemma calm_tpm:
  assumes "answers lib"
  shows "returns (calm_names N) (openTPM lib env) (\<lambda>_. calm_names N)"
    and "returns (calm_names N) (createPrimary lib c) (\<lambda>_. calm_names N)"
    and "returns (calm_names N) (tpm_create lib c parent pub) (\<lambda>_. calm_names N)"
    and "returns (calm_names N) (tpm_load lib c parent priv pub) (\<lambda>_. calm_names N)"
proof -
  have log: "returns (calm_names N) (\<lambda>w. (Ret x, g w)) (\<lambda>_. calm_names N)"
    if "\<And>w. calm_names N w \<Longrightarrow> calm_names N (g w)" for x and g :: "'a lx \<Rightarrow> 'a lx"
    using that by (simp add: returns_def)
  have use: "returns (calm_names N) (\<lambda>w. on_conn c f (use_object c h w)) (\<lambda>_. calm_names N)"
    if "\<And>d. \<exists>x d'. f d = (Inr x, d')" for f :: "'a \<Rightarrow> (go_err + 'z) \<times> 'a" and h
    using calm_on_conn [of f N c, OF that] by (simp add: returns_def)
  note ans = assms [unfolded answers_def]
  show "returns (calm_names N) (openTPM lib env) (\<lambda>_. calm_names N)"
    unfolding openTPM_def Let_def tpm_open_dev_def
    by (intro returns_on_err returns_gbind [OF calm_on_dev] log) (use ans in auto)
  show "returns (calm_names N) (createPrimary lib c) (\<lambda>_. calm_names N)"
    unfolding createPrimary_def tpm_create_primary_def
    by (intro returns_on_err returns_gbind [OF calm_on_conn] log) (use ans in auto)
  show "returns (calm_names N) (tpm_create lib c parent pub) (\<lambda>_. calm_names N)"
    unfolding tpm_create_def [abs_def] by (rule use) (use ans in auto)
  show "returns (calm_names N) (tpm_load lib c parent priv pub) (\<lambda>_. calm_names N)"
    unfolding tpm_load_def by (intro returns_gbind [OF use] log) (use ans in auto)
qed

lemma steady_on_dev: "faults (snd (on_dev f w)) = faults w"
  by (simp add: on_dev_def split: prod.split sum.split)

lemma no_faults_flush: "no_faults w \<Longrightarrow> no_faults (snd (flush lib c h w))"
  by (simp add: no_faults_def flush_def ignore_def ret_def tpm_flush_context_def on_conn_def steady_on_dev)

lemma no_faults_release: "no_faults w \<Longrightarrow> no_faults (releaseUnlessDone lib c v w)"
  using no_faults_flush [of w lib c "snd v"]
  by (simp add: no_faults_def releaseUnlessDone_def tpm_close_conn_def steady_on_dev)

section \<open>The operations\<close>

lemma returns_opened:
  assumes "answers lib"
    and k: "\<And>c parent. returns (\<lambda>vw. calm_names N (snd vw)) (k c parent) (\<lambda>_ vw. no_faults (snd vw))"
  shows "returns (calm_names N)
    (gbind (on_err h (openTPM lib env)) (\<lambda>tpm. local_var (False, 0) (\<lambda>v _. releaseUnlessDone lib tpm v)
      (gbind (lift_go (on_err h (createPrimary lib tpm))) (\<lambda>parent. flushParent lib tpm parent (k tpm parent)))))
    (\<lambda>_. no_faults)"
proof (rule returns_gbind [OF returns_on_err [OF calm_tpm(1) [OF assms(1)]]])
  fix c
  show "returns (calm_names N) (local_var (False, 0) (\<lambda>v _. releaseUnlessDone lib c v)
      (gbind (lift_go (on_err h (createPrimary lib c))) (\<lambda>parent. flushParent lib c parent (k c parent))))
      (\<lambda>_. no_faults)"
  proof (rule returns_local_var)
    have "returns (\<lambda>vw. calm_names N (snd vw)) (flushParent lib c parent (k c parent)) (\<lambda>_ vw. no_faults (snd vw))" for parent
      unfolding flushParent_def by (rule returns_deferred [OF k]) (simp add: no_faults_flush)
    then show "returns (\<lambda>vw. calm_names N (snd vw))
        (gbind (lift_go (on_err h (createPrimary lib c))) (\<lambda>parent. flushParent lib c parent (k c parent)))
        (\<lambda>_ vw. no_faults (snd vw))"
      by (intro returns_gbind [OF returns_lift [OF returns_on_err [OF calm_tpm(2) [OF assms(1)]]]])
  qed (rule no_faults_release)
qed

lemma returns_wrapped_sum:
  "x = Inr v \<Longrightarrow> returns (\<lambda>vw. P (snd vw)) (lift_go (on_err h (of_sum x))) (\<lambda>_ vw. P (snd vw))"
  by (rule returns_lift [OF returns_on_err [OF returns_of_sum]])

lemma returns_createUnder:
  assumes "answers lib" and "blobPath env name = Inr path" and "ready path N"
  shows "returns (\<lambda>vw. calm_names N (snd vw)) (createUnder lib path name c parent) (\<lambda>_ vw. no_faults (snd vw))"
proof -
  note step = returns_gbind [OF returns_lift [OF returns_on_err]]
  have "returns (\<lambda>vw. calm_names N (snd vw))
      (gbind (lift_go (on_err g (of_sum (eccPublicKey lib pub)))) (\<lambda>pk.
       gbind (lift_go (on_err h (writeBlob lib path pub priv))) (\<lambda>_. gbind (set_var v) (\<lambda>_. ret (s pk)))))
      (\<lambda>_ vw. no_faults (snd vw))" for g h pub priv v and s :: "ecdsa_pub \<Rightarrow> tpm_signer"
  proof -
    obtain pk where pk: "eccPublicKey lib pub = Inr pk" using assms(1) unfolding answers_def by blast
    show ?thesis
      unfolding writeBlob_def
      by (rule returns_gbind [OF returns_wrapped_sum [OF pk] step [OF returns_publish [OF assms(2,3)]
          returns_gbind [OF returns_set_var returns_ret]]])
  qed
  note last = returns_gbind [OF returns_set_var this]
  show ?thesis
    unfolding createUnder_def
    by (rule step [OF calm_tpm(3) [OF assms(1)]], simp add: split_def)
      (rule step [OF calm_tpm(4) [OF assms(1)] last])
qed

lemma returns_statGuard: "N path = None \<Longrightarrow> returns (calm_names N) (statGuard path name) (\<lambda>_. calm_names N)"
proof (rule returnsI)
  fix w :: "'a os_scheme"
  assume N: "N path = None" and "calm_names N w"
  then obtain D where c: "calm N D w" by (auto simp: calm_names_def)
  with N have "os_stat path w = (Fail (Sys ENOENT), record_view (w\<lparr>tick := Suc (tick w)\<rparr>))"
    by (auto simp: calm_def os_stat_def syscall_def syscall_part_def fail_def node_at_def fun_eq_iff)
  moreover have "calm N D (record_view (w\<lparr>tick := Suc (tick w)\<rparr>))" using c by simp
  ultimately show "\<exists>x w'. statGuard path name w = (Ret x, w') \<and> calm_names N w'"
    by (auto simp: statGuard_def ret_def calm_names_def)
qed

lemma returns_createKey:
  assumes "answers lib" and "blobPath env name = Inr path" and "ready path N"
  shows "returns (calm_names N) (createKey lib env name) (\<lambda>_. no_faults)"
proof -
  have "N path = None" using assms(3) by (simp add: ready_def)
  then have "returns (calm_names N) (gbind (statGuard path name) (\<lambda>_.
     gbind (on_err h (openTPM lib env)) (\<lambda>tpm. local_var (False, 0) (\<lambda>v _. releaseUnlessDone lib tpm v)
      (gbind (lift_go (on_err h (createPrimary lib tpm))) (\<lambda>parent.
        flushParent lib tpm parent (createUnder lib path name tpm parent)))))) (\<lambda>_. no_faults)" for h
    by (intro returns_gbind [OF returns_statGuard] returns_opened returns_createUnder [OF assms] assms)
  then show ?thesis by (simp add: createKey_def assms(2) of_sum_def returns_def)
qed

lemma no_faults_calm: "no_faults w \<Longrightarrow> calm_names (node_at w) w"
  by (auto simp: no_faults_def calm_names_def calm_def)

lemma file_at_Some:
  assumes "file_at w p = Some (b, m)"
  obtains i where "node_at w p = Some (FileNode i)" and "inodes w i = Some \<lparr>content = b, mode = m\<rparr>"
  using assms by (auto simp: file_at_def split: option.splits node.splits intro!: that)

lemma no_faults_syscall: "no_faults w \<Longrightarrow> syscall f w = (case f (w\<lparr>tick := Suc (tick w)\<rparr>) of (r, w') \<Rightarrow> (r, record_view w'))"
  by (simp add: no_faults_def syscall_def syscall_part_def)

lemma no_faults_fields [simp]:
  "no_faults (record_view w) = no_faults w" "no_faults (log_ev e w) = no_faults w"
  "no_faults (w\<lparr>tick := n\<rparr>) = no_faults w" "no_faults (w\<lparr>fds := D\<rparr>) = no_faults w" "no_faults (w\<lparr>next_fd := k\<rparr>) = no_faults w"
  by (simp_all add: no_faults_def)

lemma no_faults_open:
  assumes "no_faults w" and "node_at w p = Some n"
  shows "\<exists>f w1. os_open p w = (Ret f, w1) \<and> no_faults w1 \<and> fds w1 (file_fd f) = Some n \<and> inodes w1 = inodes w"
proof -
  have "node_at (w\<lparr>tick := Suc (tick w)\<rparr>) p = Some n" using assms(2) by (simp add: node_at_def)
  then show ?thesis
    using assms(1) by (simp add: os_open_def no_faults_syscall open_node_def)
qed

lemma no_faults_read:
  assumes "no_faults w" and "file_at w p = Some (b, m)"
  shows "\<exists>w'. os_read_file p w = (Ret b, w') \<and> no_faults w'"
proof -
  from assms(2) obtain i where i: "node_at w p = Some (FileNode i)" "inodes w i = Some \<lparr>content = b, mode = m\<rparr>"
    by (rule file_at_Some)
  from no_faults_open [OF assms(1) i(1)] obtain f w1 where
    o: "os_open p w = (Ret f, w1)" "no_faults w1" "fds w1 (file_fd f) = Some (FileNode i)" "inodes w1 = inodes w" by blast
  define w2 where "w2 = record_view (w1\<lparr>tick := Suc (tick w1)\<rparr>)"
  have "os_read_file p w = (Ret b, snd (file_close f w2))"
    using o i(2) by (simp add: os_read_file_def gbind_def deferred_def no_faults_syscall ret_def w2_def)
  moreover have "no_faults (snd (file_close f w2))" using o(2) by (simp add: no_faults_steady steady_close w2_def)
  ultimately show ?thesis by blast
qed

lemma gbind_on: "f w = (Ret x, w1) \<Longrightarrow> gbind f g w = g x w1"
  by (simp add: gbind_def)

lemma on_err_on: "f w = (Ret x, w1) \<Longrightarrow> on_err h f w = (Ret x, w1)"
  by (simp add: on_err_def)

lemma loadKey_returns:
  assumes "answers lib" and "no_faults w" and "storedKeys env w name = Some b" and "fst (decodeBlob lib b) = Ret pp"
  shows "\<exists>s w'. loadKey lib env name w = (Ret s, w') \<and> no_faults w'"
proof -
  obtain pub priv where pp: "pp = (pub, priv)" by fastforce
  from assms(3) obtain path m where p: "blobPath env name = Inr path" "file_at w path = Some (b, m)"
    by (auto simp: storedKeys_def split: sum.splits)
  from no_faults_read [OF assms(2) p(2)] obtain w1 where r: "os_read_file path w = (Ret b, w1)" "no_faults w1" by blast
  then have rb: "readBlob lib path w = (Ret (pub, priv), w1)" using assms(4) by (simp add: readBlob_def gbind_def pp)
  note step = returns_gbind [OF returns_lift [OF returns_on_err]]
  obtain pk where pk: "eccPublicKey lib pub = Inr pk" using assms(1) unfolding answers_def by blast
  have "returns (\<lambda>vw. calm_names (node_at w1) (snd vw)) (loadUnder lib pub priv c parent) (\<lambda>_ vw. calm_names (node_at w1) (snd vw))"
    for c parent
    unfolding loadUnder_def
    by (rule step [OF calm_tpm(4) [OF assms(1)] returns_gbind [OF returns_set_var
        returns_gbind [OF returns_wrapped_sum [OF pk] returns_gbind [OF returns_set_var returns_ret]]]])
  then have "returns (\<lambda>vw. calm_names (node_at w1) (snd vw)) (loadUnder lib pub priv c parent) (\<lambda>_ vw. no_faults (snd vw))"
    for c parent
    using calm_no_faults unfolding returns_def by blast
  note opened = returns_opened [OF assms(1) this, unfolded returns_def, rule_format, OF no_faults_calm [OF r(2)]]
  have eq: "loadKey lib env name w = gbind (on_err (Wrapf ''open key: %w'' []) (openTPM lib env)) (\<lambda>tpm.
     local_var (False, 0) (\<lambda>v _. releaseUnlessDone lib tpm v) (
       gbind (lift_go (on_err (Wrapf ''open key: %w'' []) (createPrimary lib tpm))) (\<lambda>parent.
       flushParent lib tpm parent (loadUnder lib pub priv tpm parent)))) w1"
    by (simp add: loadKey_def p(1) of_sum_def gbind_on [where f = "on_err h (readBlob lib path)" and w = w for h, OF on_err_on [where f = "readBlob lib path" and w = w, OF rb]])
  show ?thesis unfolding eq by (rule opened)
qed

lemma deleteKey_returns:
  assumes "no_faults w" and "storedKeys env w name \<noteq> None"
  shows "\<exists>w'. deleteKey env name w = (Ret (), w')"
proof -
  from assms(2) obtain path b m where p: "blobPath env name = Inr path" "file_at w path = Some (b, m)"
    by (auto simp: storedKeys_def split: sum.splits)
  from p(2) obtain i where "node_at w path = Some (FileNode i)" by (rule file_at_Some)
  then have "node_at (w\<lparr>tick := Suc (tick w)\<rparr>) path = Some (FileNode i)" by (simp add: node_at_def)
  then have "\<exists>w'. os_remove path w = (Ret (), w')"
    using assms(1) by (simp add: os_remove_def sys_unlink_def no_faults_syscall ret_def)
  then show ?thesis by (auto simp: deleteKey_def p(1) of_sum_def on_err_def)
qed

end
