(* ===== verification/LinuxBackend.thy ===== *)
theory LinuxBackend
  imports LinuxLive
begin

text \<open>
  The properties of the Linux backend: what \<^verbatim>\<open>createKey\<close>, \<^verbatim>\<open>loadKey\<close>, \<^verbatim>\<open>deleteKey\<close> and
  \<^verbatim>\<open>writeBlob\<close> promise about the key store, who holds the TPM's resources over the life of a
  signer, and what \<^verbatim>\<open>Sign\<close> sends to the chip and returns.
\<close>

section \<open>A world to run in\<close>

text \<open>A file system with a home directory, and a device that answers every command.\<close>

definition sample_env :: environment where
  "sample_env v = (if v = ''HOME'' then ''/u'' else [])"

definition sample_pub :: ecdsa_pub where
  "sample_pub = \<lparr>pk_curve = P256, pk_x = 5, pk_y = 7\<rparr>"

definition sample_tpm :: "(nat, bytes, bytes) gotpm" where
  "sample_tpm =
     \<lparr>linuxtpm_Open = (\<lambda>_ d. (Inr d, d)),
      exec_CreatePrimary = (\<lambda>_ _ _ d. (Inr \<lparr>nh_handle = 1, nh_name = []\<rparr>, d)),
      exec_Create = (\<lambda>_ _ _ d. (Inr ([1], [2]), d)),
      exec_Load = (\<lambda>_ _ _ _ d. (Inr \<lparr>nh_handle = 2, nh_name = [9]\<rparr>, d)),
      exec_Sign = (\<lambda>_ _ _ _ _ d. (Inr [4, 5], d)),
      exec_FlushContext = (\<lambda>_ _ d. (Inr (), d)),
      conn_Close = (\<lambda>_ d. (Inr (), d)),
      New2B = (\<lambda>_. [1]), ECCSRKTemplate = eccSignPublic,
      Marshal_pub = (\<lambda>p. p), Marshal_priv = (\<lambda>p. p), Unmarshal_pub = Inr, Unmarshal_priv = Inr,
      pub_Contents = (\<lambda>_. Inr eccSignPublic), parms_ECCDetail = (\<lambda>_. Inr eccSignParms),
      unique_ECC = (\<lambda>_. Inr \<lparr>pt_x = [5], pt_y = [7]\<rparr>), lib_ECDSAPub = (\<lambda>_ _. Inr sample_pub),
      sig_ECDSA = (\<lambda>s. Inr (take 1 s, take 1 (drop 1 s)))\<rparr>"

definition sample_lx :: "nat lx" where
  "sample_lx =
     \<lparr>names = [(''/'', DirNode 493), (''/u'', DirNode 493)], inodes = (\<lambda>_. None), next_ino = 0,
      fds = (\<lambda>_. None), next_fd = 3, faults = (\<lambda>_. None), rands = (\<lambda>n. n), tick = 0,
      ledger_log = [], hist = [], tpm_dev = 0\<rparr>"

text \<open>The same with key areas of one bit each, which the marshaller can read back.\<close>

definition live_tpm :: "(nat, bool, bool) gotpm" where
  "live_tpm =
     \<lparr>linuxtpm_Open = (\<lambda>_ d. (Inr d, d)),
      exec_CreatePrimary = (\<lambda>_ _ _ d. (Inr \<lparr>nh_handle = 1, nh_name = []\<rparr>, d)),
      exec_Create = (\<lambda>_ _ _ d. (Inr (True, False), d)),
      exec_Load = (\<lambda>_ _ _ _ d. (Inr \<lparr>nh_handle = 2, nh_name = [9]\<rparr>, d)),
      exec_Sign = (\<lambda>_ _ _ _ _ d. (Inr [4, 5], d)),
      exec_FlushContext = (\<lambda>_ _ d. (Inr (), d)),
      conn_Close = (\<lambda>_ d. (Inr (), d)),
      New2B = (\<lambda>_. True), ECCSRKTemplate = eccSignPublic,
      Marshal_pub = (\<lambda>b. [of_bool b]), Marshal_priv = (\<lambda>b. [of_bool b]),
      Unmarshal_pub = (\<lambda>bs. Inr (bs = [1])), Unmarshal_priv = (\<lambda>bs. Inr (bs = [1])),
      pub_Contents = (\<lambda>_. Inr eccSignPublic), parms_ECCDetail = (\<lambda>_. Inr eccSignParms),
      unique_ECC = (\<lambda>_. Inr \<lparr>pt_x = [5], pt_y = [7]\<rparr>), lib_ECDSAPub = (\<lambda>_ _. Inr sample_pub),
      sig_ECDSA = (\<lambda>s. Inr (take 1 s, take 1 (drop 1 s)))\<rparr>"

text \<open>A file system on which the store directory exists.\<close>

definition live_lx :: "nat lx" where
  "live_lx = sample_lx\<lparr>names := [(''/'', DirNode 493), (''/u'', DirNode 493), (''/u/.config'', DirNode 493),
     (''/u/.config/key-protecc'', DirNode 448)]\<rparr>"

lemma sample_wf: "os_wf sample_lx"
  by (simp add: os_wf_def node_at_def sample_lx_def)

section \<open>Creating, loading and deleting\<close>

text \<open>
  C1: \<^verbatim>\<open>createKey\<close> either stores exactly one new blob, under its name, which was free, and returns
  a signer whose public key is the one of the stored public area; or it fails and every stored key
  is as it was. This holds for every answer of the device and every pattern of failing system
  calls.
\<close>

theorem createKey_table:
  assumes "os_wf w"
  shows "case createKey lib env name w of (r, w') \<Rightarrow> os_wf w' \<and>
    (case r of
       Ret s \<Rightarrow> storedKeys env w name = None \<and> (\<exists>pub priv. eccPublicKey lib pub = Inr (sg_pub s) \<and>
         storedKeys env w' = (storedKeys env w)(name \<mapsto> encodeBlob (Marshal_pub lib pub) (Marshal_priv lib priv)))
     | _ \<Rightarrow> storedKeys env w' = storedKeys env w)"
proof -
  obtain r w' where c: "createKey lib env name w = (r, w')" by fastforce
  from tripleD [OF triple_createKey c table_is_self [OF assms]]
  show ?thesis by (cases r) (auto simp only: c created_def table_is_def blobOf_def prod.case outcome.case)
qed

lemma createKey_table_witness:
  "case createKey sample_tpm sample_env ''k'' sample_lx of (r, w') \<Rightarrow> os_wf w' \<and>
    (case r of
       Ret s \<Rightarrow> storedKeys sample_env sample_lx ''k'' = None \<and> (\<exists>pub priv.
         eccPublicKey sample_tpm pub = Inr (sg_pub s) \<and> storedKeys sample_env w' =
           (storedKeys sample_env sample_lx)(''k'' \<mapsto> encodeBlob (Marshal_pub sample_tpm pub) (Marshal_priv sample_tpm priv)))
     | _ \<Rightarrow> storedKeys sample_env w' = storedKeys sample_env sample_lx)"
  using createKey_table [OF sample_wf] .

text \<open>
  C2: \<^verbatim>\<open>loadKey\<close> changes no stored key, and a signer it returns carries the public key of the
  blob stored under the name; a name that is not stored is refused.
\<close>

theorem loadKey_table:
  assumes "os_wf w"
  shows "case loadKey lib env name w of (r, w') \<Rightarrow> os_wf w' \<and> storedKeys env w' = storedKeys env w \<and>
    (case r of
       Ret s \<Rightarrow> (\<exists>b pub priv. storedKeys env w name = Some b \<and> fst (decodeBlob lib b) = Ret (pub, priv) \<and>
         eccPublicKey lib pub = Inr (sg_pub s))
     | _ \<Rightarrow> True)"
proof -
  obtain r w' where c: "loadKey lib env name w = (r, w')" by fastforce
  from tripleD [OF triple_loadKey c table_is_self [OF assms]]
  show ?thesis by (cases r) (auto simp: c loaded_from_def table_is_def)
qed

lemma loadKey_table_witness:
  "case loadKey sample_tpm sample_env ''k'' sample_lx of (r, w') \<Rightarrow> os_wf w' \<and>
    storedKeys sample_env w' = storedKeys sample_env sample_lx \<and>
    (case r of
       Ret s \<Rightarrow> (\<exists>b pub priv. storedKeys sample_env sample_lx ''k'' = Some b \<and>
         fst (decodeBlob sample_tpm b) = Ret (pub, priv) \<and> eccPublicKey sample_tpm pub = Inr (sg_pub s))
     | _ \<Rightarrow> True)"
  using loadKey_table [OF sample_wf] .

text \<open>
  C3: \<^verbatim>\<open>deleteKey\<close> removes exactly the named key, or fails and removes none.
\<close>

theorem deleteKey_table:
  assumes "os_wf w"
  shows "case deleteKey env name w of (r, w') \<Rightarrow> os_wf w' \<and>
    storedKeys env w' = (if returned r then (storedKeys env w)(name := None) else storedKeys env w)"
proof -
  obtain r w' where d: "deleteKey env name w = (r, w')" by fastforce
  from deleteKey_result [OF assms d] show ?thesis by (simp add: d)
qed

lemma deleteKey_table_witness:
  "case deleteKey sample_env ''k'' sample_lx of (r, w') \<Rightarrow> os_wf w' \<and>
    storedKeys sample_env w' = (if returned r then (storedKeys sample_env sample_lx)(''k'' := None)
      else storedKeys sample_env sample_lx)"
  using deleteKey_table [OF sample_wf] .

text \<open>A marshaller pair that reads back what it wrote, in sizes the format can hold.\<close>

definition marshals :: "('d, 'pub, 'priv) gotpm \<Rightarrow> bool" where
  "marshals lib \<longleftrightarrow>
     (\<forall>p. Unmarshal_pub lib (Marshal_pub lib p) = Inr p \<and> fits32 (Marshal_pub lib p)) \<and>
     (\<forall>p. Unmarshal_priv lib (Marshal_priv lib p) = Inr p \<and> fits32 (Marshal_priv lib p))"

lemma decode_blob:
  "marshals lib \<Longrightarrow> decodeBlob lib (encodeBlob (Marshal_pub lib pub) (Marshal_priv lib priv)) = (Ret (pub, priv), [])"
  using readFrame_encodeBlob [of "Marshal_pub lib pub" "Marshal_priv lib priv" "[]"]
  by (simp add: marshals_def decodeBlob_def gbind_def on_err_def of_sum_def ret_def)

text \<open>
  What happens to a name between \<^verbatim>\<open>createKey\<close> and \<^verbatim>\<open>loadKey\<close>: any run of store operations on other
  names, of this or another process.
\<close>

definition run_store ::
    "environment \<Rightarrow> (string, bytes) table_op list \<Rightarrow> 'x os_scheme \<Rightarrow> bytes table_result list \<times> 'x os_scheme" where
  "run_store env = store_run (storeKey env) (fetchKey env) (deleteKey env)"

text \<open>
  C4: a key that was created and is loaded later, with any operations on other keys in between,
  has the public key it was created with.
\<close>

theorem create_then_load:
  assumes "marshals lib" and "os_wf w" and "\<forall>op \<in> set ops. \<not> touches name op"
  shows "case createKey lib env name w of
      (Ret s, w1) \<Rightarrow>
        (case loadKey lib env name (snd (run_store env ops w1)) of
           (Ret s', w3) \<Rightarrow> tpmSigner_Public s' = tpmSigner_Public s
         | _ \<Rightarrow> True)
    | _ \<Rightarrow> True"
proof -
  obtain r w1 where c: "createKey lib env name w = (r, w1)" by fastforce
  obtain rs w2 where o: "run_store env ops w1 = (rs, w2)" by fastforce
  obtain r' w3 where l: "loadKey lib env name w2 = (r', w3)" by fastforce
  have "sg_pub s' = sg_pub s" if s: "r = Ret s" "r' = Ret s'" for s s'
  proof -
    from tripleD [OF triple_createKey c table_is_self [OF assms(2)]] s obtain pub priv where
      k: "eccPublicKey lib pub = Inr (sg_pub s)" and t: "table_is env
        ((storedKeys env w)(name \<mapsto> blobOf lib pub priv)) w1" by (auto simp: created_def)
    then have w1: "os_wf w1" "storedKeys env w1 name = Some (blobOf lib pub priv)"
      by (auto simp: table_is_def)
    from linux_store.run_untouched [OF w1(1) o [unfolded run_store_def] assms(3)] w1(2)
    have w2: "os_wf w2" "storedKeys env w2 name = Some (blobOf lib pub priv)" by auto
    from tripleD [OF triple_loadKey l table_is_self [OF w2(1)]] w2(2) s(2)
    have "\<exists>pub' priv'. fst (decodeBlob lib (blobOf lib pub priv)) = Ret (pub', priv') \<and>
        eccPublicKey lib pub' = Inr (sg_pub s')" by (auto simp: loaded_from_def)
    with k decode_blob [OF assms(1), of pub priv] show ?thesis by (auto simp: blobOf_def)
  qed
  then show ?thesis
    by (cases r; cases r') (simp_all only: c o l tpmSigner_Public_def prod.case outcome.case snd_conv)
qed

lemma create_then_load_witness:
  "\<exists>lib :: (nat, bool, bool) gotpm. marshals lib \<and>
    (case createKey lib sample_env ''k'' sample_lx of
      (Ret s, w1) \<Rightarrow>
        (case loadKey lib sample_env ''k'' (snd (run_store sample_env [Insert ''j'' [1], Delete ''j''] w1)) of
           (Ret s', w3) \<Rightarrow> tpmSigner_Public s' = tpmSigner_Public s
         | _ \<Rightarrow> True)
    | _ \<Rightarrow> True)"
proof -
  let ?lib = "live_tpm"
  have m: "marshals ?lib"
    by (simp add: marshals_def live_tpm_def)
  have "\<forall>op \<in> set [Insert ''j'' [1], Delete ''j'']. \<not> touches ''k'' op" by simp
  from conjI [OF m create_then_load [OF m sample_wf this]] show ?thesis by (rule exI [where x = ?lib])
qed

text \<open>
  C6: every run of store operations, by one process or several, whatever fails on the way, is a run
  of the abstract table of keys: an insertion that reports success found the name free and bound
  it, a lookup that succeeds returns the bound blob, a deletion unbinds, a refusal changes nothing.
\<close>

theorem store_refines_table:
  assumes "os_wf w"
  shows "case run_store env ops w of (rs, w') \<Rightarrow>
    os_wf w' \<and> table_run (storedKeys env w) ops rs = Some (storedKeys env w')"
proof -
  obtain rs w' where o: "run_store env ops w = (rs, w')" by fastforce
  from linux_store.run_refines [OF assms o [unfolded run_store_def]] show ?thesis by (simp add: o)
qed

lemma store_refines_table_witness:
  "case run_store sample_env [Insert ''k'' [1], Insert ''k'' [2], Lookup ''k''] sample_lx of (rs, w') \<Rightarrow>
    os_wf w' \<and> table_run (storedKeys sample_env sample_lx)
      [Insert ''k'' [1], Insert ''k'' [2], Lookup ''k''] rs = Some (storedKeys sample_env w')"
  using store_refines_table [OF sample_wf] .

text \<open>
  C5: when nothing stands in the way the operations succeed. With a device and a library that answer, no
  I/O errors, a store directory and a free name, \<^verbatim>\<open>createKey\<close> returns a signer, a \<^verbatim>\<open>loadKey\<close>
  after it returns one with the same public key, and \<^verbatim>\<open>deleteKey\<close> then removes the key and
  leaves the store as it was.
\<close>

theorem healthy_life:
  assumes "answers lib" and "marshals lib" and "os_wf w" and "no_faults w"
    and "blobPath env name = Inr path" and "ready path (node_at w)"
  shows "\<exists>s w1 s' w2 w3. createKey lib env name w = (Ret s, w1) \<and> loadKey lib env name w1 = (Ret s', w2) \<and>
    tpmSigner_Public s' = tpmSigner_Public s \<and> deleteKey env name w2 = (Ret (), w3) \<and>
    storedKeys env w3 = storedKeys env w"
proof -
  from returnsD [OF returns_createKey [OF assms(1,5,6)] no_faults_calm [OF assms(4)]] obtain s w1 where
    c: "createKey lib env name w = (Ret s, w1)" "no_faults w1" by metis
  from tripleD [OF triple_createKey c(1) table_is_self [OF assms(3)]] obtain pub priv where
    t: "storedKeys env w name = None" "eccPublicKey lib pub = Inr (sg_pub s)"
      "table_is env ((storedKeys env w)(name \<mapsto> blobOf lib pub priv)) w1" by (auto simp: created_def)
  then have b: "storedKeys env w1 name = Some (blobOf lib pub priv)" by (simp add: table_is_def)
  have dec: "fst (decodeBlob lib (blobOf lib pub priv)) = Ret (pub, priv)"
    using decode_blob [OF assms(2)] by (simp add: blobOf_def)
  from loadKey_returns [OF assms(1) c(2) b dec] obtain s' w2 where
    l: "loadKey lib env name w1 = (Ret s', w2)" "no_faults w2" by blast
  have l': "table_is env ((storedKeys env w)(name \<mapsto> blobOf lib pub priv)) w2 \<and>
      loaded_from lib (((storedKeys env w)(name \<mapsto> blobOf lib pub priv)) name) (Ret s')"
    using triple_loadKey l(1) t(3) by (rule tripleD)
  have l2: "table_is env ((storedKeys env w)(name \<mapsto> blobOf lib pub priv)) w2" "sg_pub s' = sg_pub s"
    using l' t(2) dec unfolding loaded_from_def by auto
  then have w2: "os_wf w2" "storedKeys env w2 = (storedKeys env w)(name \<mapsto> blobOf lib pub priv)"
    by (simp_all add: table_is_def)
  from deleteKey_returns [OF l(2), of env name] w2(2) obtain w3 where d: "deleteKey env name w2 = (Ret (), w3)" by auto
  have "storedKeys env w3 = storedKeys env w"
    using deleteKey_result [OF w2(1) d] w2(2) t(1) by (simp add: fun_upd_idem)
  with c(1) l(1) l2(2) d show ?thesis by (simp add: tpmSigner_Public_def)
qed

lemma live_tpm_answers: "answers live_tpm" and live_tpm_marshals: "marshals live_tpm"
  by (auto simp: answers_def marshals_def live_tpm_def eccPublicKey_def wrap_sum_def eccSignPublic_def)

lemma live_lx_ready:
  "os_wf live_lx" "no_faults live_lx" "blobPath sample_env ''k'' = Inr ''/u/.config/key-protecc/aw.tpmkey''"
  "ready ''/u/.config/key-protecc/aw.tpmkey'' (node_at live_lx)"
proof -
  show "os_wf live_lx" by (simp add: os_wf_def node_at_def live_lx_def)
  show "no_faults live_lx" by (simp add: no_faults_def live_lx_def sample_lx_def)
  show "blobPath sample_env ''k'' = Inr ''/u/.config/key-protecc/aw.tpmkey''" by code_simp
  have "path_dir ''/u/.config/key-protecc/aw.tpmkey'' = ''/u/.config/key-protecc''" by code_simp
  then show "ready ''/u/.config/key-protecc/aw.tpmkey'' (node_at live_lx)"
    by (simp add: ready_def node_at_def live_lx_def temp_name_def)
qed

lemma healthy_life_witness:
  "\<exists>s w1 s' w2 w3. createKey live_tpm sample_env ''k'' live_lx = (Ret s, w1) \<and>
    loadKey live_tpm sample_env ''k'' w1 = (Ret s', w2) \<and>
    tpmSigner_Public s' = tpmSigner_Public s \<and> deleteKey sample_env ''k'' w2 = (Ret (), w3) \<and>
    storedKeys sample_env w3 = storedKeys sample_env live_lx"
  by (rule healthy_life [OF live_tpm_answers live_tpm_marshals live_lx_ready])

section \<open>Publishing a blob\<close>

text \<open>Everything under the store directory that is not a key file being published is as before.\<close>

definition agree_off :: "string \<Rightarrow> file_view \<Rightarrow> file_view \<Rightarrow> bool" where
  "agree_off t v v' \<longleftrightarrow> (\<forall>p. p \<noteq> t \<longrightarrow> v p = v' p)"

lemma off_agree: "off t X v \<longleftrightarrow> agree_off t v X"
  by (simp add: off_def agree_off_def)

text \<open>
  C7: publishing is atomic and never overwrites. There is a temporary name \<open>t\<close> such that at every
  moment (after every system call, so wherever the machine stops) the files are, but for \<open>t\<close>, those
  from before or those from before plus the complete new blob with mode 0600 at a path that
  was free; which of the two holds at the end is what the result says.
\<close>

theorem writeBlob_atomic:
  assumes "os_wf w" and "blobPath env name = Inr path"
  shows "case writeBlob lib path pub priv w of (r, w') \<Rightarrow>
    (\<exists>t. temp_of path t \<and> t \<noteq> path \<and>
      (let old = file_at w;
           new = (file_at w)(path \<mapsto> (encodeBlob (Marshal_pub lib pub) (Marshal_priv lib priv), 384))
       in list_all (\<lambda>v. v \<in> set (hist w) \<or> agree_off t v old \<or> (file_at w path = None \<and> agree_off t v new)) (hist w') \<and>
          (if returned r then file_at w path = None \<and> agree_off t (file_at w') new
           else agree_off t (file_at w') old)))"
proof -
  let ?buf = "encodeBlob (Marshal_pub lib pub) (Marshal_priv lib priv)"
  obtain r w' where p: "publish path ?buf w = (r, w')" by fastforce
  have nt: "path \<noteq> t" if "temp_of path t" for t
    using that assms(2) blobPath_not_temp by (auto simp: temp_of_def)
  from publish_result [OF assms(1) nt p] obtain t where t: "temp_of path t"
    "if returned r then linked w t path (?buf, 384) w' else only_temp w t w'" by blast
  then show ?thesis
    using nt [OF t(1)] p
    by (auto simp: writeBlob_def linked_def only_temp_def published_def since_def off_agree list_all_iff Let_def
        intro!: exI [of _ t])
qed

lemma writeBlob_atomic_witness:
  "blobPath sample_env ''k'' = Inr ''/u/.config/key-protecc/aw.tpmkey'' \<and>
   (case writeBlob sample_tpm ''/u/.config/key-protecc/aw.tpmkey'' [1] [2] sample_lx of (r, w') \<Rightarrow>
    (\<exists>t. temp_of ''/u/.config/key-protecc/aw.tpmkey'' t \<and> t \<noteq> ''/u/.config/key-protecc/aw.tpmkey'' \<and>
      (let old = file_at sample_lx;
           new = (file_at sample_lx)(''/u/.config/key-protecc/aw.tpmkey'' \<mapsto>
             (encodeBlob (Marshal_pub sample_tpm [1]) (Marshal_priv sample_tpm [2]), 384))
       in list_all (\<lambda>v. v \<in> set (hist sample_lx) \<or> agree_off t v old \<or>
            (file_at sample_lx ''/u/.config/key-protecc/aw.tpmkey'' = None \<and> agree_off t v new)) (hist w') \<and>
          (if returned r then file_at sample_lx ''/u/.config/key-protecc/aw.tpmkey'' = None \<and> agree_off t (file_at w') new
           else agree_off t (file_at w') old))))"
proof -
  have p: "blobPath sample_env ''k'' = Inr ''/u/.config/key-protecc/aw.tpmkey''" by code_simp
  show ?thesis by (rule conjI [OF p writeBlob_atomic [OF sample_wf p]])
qed

text \<open>
  C13: names of keys are kept apart: two different names never share a file, the file lies directly in
  the store directory whatever the name contains (slashes, dots, zero bytes, nothing at all), and it
  is never a temporary file of the store.
\<close>

theorem blobPath_sound:
  "case userConfigDir env of
     Inl err \<Rightarrow> blobPath env name = Inl (Wrapf ''locate config directory: %w'' [] err)
   | Inr cfg \<Rightarrow> (\<exists>path. blobPath env name = Inr path \<and>
       path = path_join [cfg, ''key-protecc''] @ slash # blobFile name \<and> slash \<notin> set (blobFile name) \<and>
       \<not> temp_of path path \<and> (blobPath env name' = Inr path) = (name' = name))"
proof (cases "userConfigDir env")
  case (Inr cfg)
  let ?p = "path_join [cfg, ''key-protecc'', blobFile name]"
  have p: "blobPath env name = Inr ?p" using Inr by (simp add: blobPath_def)
  have "?p = path_join [cfg, ''key-protecc''] @ slash # blobFile name"
    using blobPath_dir [OF Inr p] by metis
  moreover have "slash \<notin> set (blobFile name)" using plain_blobFile [of name] unfolding plain_elem_def by blast
  moreover have "\<not> temp_of ?p ?p" using blobPath_not_temp [OF p] by (auto simp: temp_of_def)
  moreover have "blobPath env name' = Inr ?p \<longleftrightarrow> name' = name" using blobPath_inject [OF _ p] p by blast
  ultimately show ?thesis using Inr p by auto
qed (simp add: blobPath_def)

section \<open>Who holds the TPM\<close>

text \<open>
  \<^verbatim>\<open>createKey\<close> and \<^verbatim>\<open>loadKey\<close> leak nothing: on every path the connection, the parent's and
  the child's transient objects, the temporary file and the directory handle are given back, each
  once and none used afterwards; a successful call keeps exactly the connection and the child, which
  the returned signer owns.
\<close>

lemma opening_releases:
  "(case createKey lib env name w of (r, w') \<Rightarrow> replays ledger_log w w' F (F + signer_made r)) \<and>
   (case loadKey lib env name w of (r, w') \<Rightarrow> replays ledger_log w w' F (F + signer_made r))"
  using linux.open_balanced(1,2) [of lib env name w F] by (simp add: split_def)

text \<open>
  C14: \<^verbatim>\<open>createKey\<close> and \<^verbatim>\<open>loadKey\<close> give back on every path the connection, the parent's and the child's
  transient objects, the temporary file and the directory handle, each once and none used afterwards, but for
  the connection and the child that a returned signer owns; over the whole life of that signer, used any number
  of times and closed (twice, with \<^verbatim>\<open>Sign\<close> calls after that), everything acquired is released exactly
  once and nothing is used after its release.
\<close>

theorem linux_balanced:
  "(case createKey lib env name w of (r, w') \<Rightarrow> replays ledger_log w w' F (F + signer_made r)) \<and>
   (case loadKey lib env name w of (r, w') \<Rightarrow> replays ledger_log w w' F (F + signer_made r)) \<and>
   replays ledger_log w (snd (signer_life (linux_backend lib env) (createKey lib env name) qs qs' w)) F F \<and>
   replays ledger_log w (snd (signer_life (linux_backend lib env) (loadKey lib env name) qs qs' w)) F F"
  using opening_releases [where lib = lib and env = env and name = name and w = w and F = F] linux.life_balanced [of lib env name qs qs' w F] by simp

section \<open>Signing\<close>

text \<open>
  C15: a request that is not a digest of the right length for a supported hash, or that comes after
  \<^verbatim>\<open>Close\<close>, is refused without touching the device.
\<close>

theorem Sign_guards:
  "if good_opts digest opts \<and> sg_tpm s \<noteq> None then True
   else \<not> returned (fst (tpmSigner_Sign lib s digest opts w)) \<and> snd (tpmSigner_Sign lib s digest opts w) = w"
proof (cases opts)
  case (HashOpts h)
  then show ?thesis
    by (cases h) (auto simp: tpmSigner_Sign_def good_opts_def signLocked_def fail_def)
qed (simp_all add: tpmSigner_Sign_def good_opts_def fail_def panic_def)

text \<open>The signature halves of a P-256 key, as the TPM specification bounds them.\<close>

definition p256_sizes :: "('d, 'pub, 'priv) gotpm \<Rightarrow> bool" where
  "p256_sizes lib \<longleftrightarrow>
     (\<forall>rsp R S. sig_ECDSA lib rsp = Inr (R, S) \<longrightarrow> length R \<le> 32 \<and> length S \<le> 32)"

lemma nat_of_bytes_le:
  assumes "length bs \<le> k"
  shows "nat_of_bytes bs < 256 ^ k"
proof -
  have "(256 :: nat) ^ length bs \<le> 256 ^ k" using assms by (intro power_increasing) simp_all
  with nat_of_bytes_bound [of bs] show ?thesis by linarith
qed

text \<open>
  C16: what \<^verbatim>\<open>Sign\<close> returns is the strict DER form, of at most 72 bytes, of exactly the two numbers
  the chip answered to the command for this key, this digest and the scheme of the declared hash.
\<close>

theorem Sign_returns_DER:
  assumes "p256_sizes lib"
  shows "case tpmSigner_Sign lib s digest opts w of
      (Ret sig, w') \<Rightarrow>
        (\<exists>h alg tpm rsp R S. opts = HashOpts h \<and> hashAlg h = Some alg \<and> length digest = hash_size h \<and>
           sg_tpm s = Some tpm \<and>
           fst (exec_Sign lib tpm \<lparr>nh_handle = sg_handle s, nh_name = sg_name s\<rparr> digest
             (TPMTSigScheme TPMAlgECDSA alg) NullHashCheck (tpm_dev w)) = Inr rsp \<and>
           sig_ECDSA lib rsp = Inr (R, S) \<and> length sig \<le> 72 \<and>
           parse_signature sig = Some (nat_of_bytes R, nat_of_bytes S))
    | _ \<Rightarrow> True"
proof (cases "tpmSigner_Sign lib s digest opts w")
  case (Pair r w')
  show ?thesis
  proof (cases r)
    case (Ret sig)
    with Pair obtain h alg where h: "opts = HashOpts h" "hashAlg h = Some alg" "length digest = hash_size h"
      and l: "signLocked lib s digest alg w = (Ret sig, w')"
      by (auto simp: tpmSigner_Sign_def fail_def panic_def split: signer_opts.splits option.splits if_splits)
    from l obtain tpm where tpm: "sg_tpm s = Some tpm" by (auto simp: signLocked_def fail_def split: option.splits)
    with l obtain rsp w1 R S where
      sg: "tpm_sign lib tpm \<lparr>nh_handle = sg_handle s, nh_name = sg_name s\<rparr> digest
        (TPMTSigScheme TPMAlgECDSA alg) NullHashCheck w = (Ret rsp, w1)"
      and RS: "sig_ECDSA lib rsp = Inr (R, S)" "sig = der_signature (nat_of_bytes R) (nat_of_bytes S)"
      by (auto simp: signLocked_def go_Ret)
    from sg have "fst (exec_Sign lib tpm \<lparr>nh_handle = sg_handle s, nh_name = sg_name s\<rparr> digest
        (TPMTSigScheme TPMAlgECDSA alg) NullHashCheck (tpm_dev w)) = Inr rsp"
      by (auto simp: tpm_sign_def on_conn_def on_dev_def use_object_def log_ev_def
          split: prod.splits sum.splits if_splits)
    moreover have "length R \<le> 32" "length S \<le> 32" using assms RS(1) by (auto simp: p256_sizes_def)
    then have "nat_of_bytes R < 256 ^ 32" "nat_of_bytes S < 256 ^ 32"
      using nat_of_bytes_le by blast+
    then have "length sig \<le> 72" "parse_signature sig = Some (nat_of_bytes R, nat_of_bytes S)"
      unfolding RS(2) by (rule length_der_signature, rule parse_der_signature)
    ultimately show ?thesis unfolding Pair Ret prod.case outcome.case using h tpm RS(1) by blast
  qed (simp_all add: Pair)
qed

lemma Sign_returns_DER_witness:
  "p256_sizes sample_tpm \<and> (case tpmSigner_Sign sample_tpm \<lparr>sg_tpm = Some 0, sg_handle = 2, sg_name = [], sg_pub = sample_pub\<rparr>
      (replicate 32 7) (HashOpts SHA256) sample_lx of
      (Ret sig, w') \<Rightarrow>
        (\<exists>h alg tpm rsp R S. HashOpts SHA256 = HashOpts h \<and> hashAlg h = Some alg \<and>
           length (replicate 32 (7 :: byte)) = hash_size h \<and>
           sg_tpm \<lparr>sg_tpm = Some 0, sg_handle = 2, sg_name = [], sg_pub = sample_pub\<rparr> = Some tpm \<and>
           fst (exec_Sign sample_tpm tpm
             \<lparr>nh_handle = sg_handle \<lparr>sg_tpm = Some 0, sg_handle = 2, sg_name = [], sg_pub = sample_pub\<rparr>,
              nh_name = sg_name \<lparr>sg_tpm = Some 0, sg_handle = 2, sg_name = [], sg_pub = sample_pub\<rparr>\<rparr>
             (replicate 32 7) (TPMTSigScheme TPMAlgECDSA alg) NullHashCheck (tpm_dev sample_lx)) = Inr rsp \<and>
           sig_ECDSA sample_tpm rsp = Inr (R, S) \<and> length sig \<le> 72 \<and>
           parse_signature sig = Some (nat_of_bytes R, nat_of_bytes S))
    | _ \<Rightarrow> True)"
proof -
  have p: "p256_sizes sample_tpm" by (auto simp: p256_sizes_def sample_tpm_def)
  show ?thesis by (rule conjI [OF p Sign_returns_DER [OF p]])
qed

section \<open>The blob format\<close>

text \<open>
  C17: what \<^verbatim>\<open>writeBlob\<close> frames, \<^verbatim>\<open>readBlob\<close>'s decoder gives back; and a key file cut off
  anywhere is reported as an error.
\<close>

theorem blob_roundtrip:
  assumes "marshals lib"
  shows "decodeBlob lib (encodeBlob (Marshal_pub lib pub) (Marshal_priv lib priv)) = (Ret (pub, priv), []) \<and>
    list_all (\<lambda>k. \<exists>e. fst (decodeBlob lib
      (take k (encodeBlob (Marshal_pub lib pub) (Marshal_priv lib priv)))) = Fail e)
      [0..<length (encodeBlob (Marshal_pub lib pub) (Marshal_priv lib priv))]"
proof (rule conjI)
  let ?b = "encodeBlob (Marshal_pub lib pub) (Marshal_priv lib priv)"
  show "decodeBlob lib ?b = (Ret (pub, priv), [])" using assms by (rule decode_blob)
  have "\<exists>e. fst (decodeBlob lib (take k ?b)) = Fail e" if "k < length ?b" for k
  proof -
    have "take k ?b \<noteq> ?b" using that by (metis length_take min_less_iff_conj nat_neq_iff)
    then have "strict_prefix (take k ?b) ?b" by (simp add: strict_prefix_def take_is_prefix)
    moreover have "fits32 (Marshal_pub lib pub)" "fits32 (Marshal_priv lib priv)"
      using assms unfolding marshals_def by blast+
    ultimately obtain e r where "readFrame (take k ?b) = (Fail e, r)"
      using readFrame_truncated by blast
    then show ?thesis by (simp add: decodeBlob_def gbind_def)
  qed
  then show "list_all (\<lambda>k. \<exists>e. fst (decodeBlob lib (take k ?b)) = Fail e) [0..<length ?b]"
    by (simp add: list_all_iff)
qed

lemma blob_roundtrip_witness:
  "\<exists>lib :: (nat, bool, bool) gotpm. marshals lib \<and>
     decodeBlob lib (encodeBlob (Marshal_pub lib True) (Marshal_priv lib False)) = (Ret (True, False), [])"
proof -
  let ?lib = "live_tpm"
  have m: "marshals ?lib" by (simp add: marshals_def live_tpm_def)
  show ?thesis by (rule exI [where x = ?lib]) (rule conjI [OF m conjunct1 [OF blob_roundtrip [OF m]]])
qed

text \<open>
  C18: the reader accepts a file exactly when it starts with a well-formed frame, whose chunks are
  the bytes it returns; any other content, of whatever length its length fields claim, is an error
  and never a panic.
\<close>

theorem readFrame_accepts:
  "case readFrame data of
     (Ret (p, q), rest) \<Rightarrow> fits32 p \<and> fits32 q \<and> data = encodeBlob p q @ rest
   | (Fail e, rest) \<Rightarrow> \<not> (\<exists>p q rest'. fits32 p \<and> fits32 q \<and> data = encodeBlob p q @ rest')
   | (Panic m, rest) \<Rightarrow> False"
proof (cases rule: readFrame_cases [of data])
  case (ok p q r')
  moreover from ok have "fits32 p \<and> fits32 q \<and> data = encodeBlob p q @ r'" unfolding readFrame_Ret .
  ultimately show ?thesis by (simp only: prod.case outcome.case)
next
  case (error e r')
  have "readFrame (encodeBlob p q @ rest) = (Ret (p, q), rest)" if "fits32 p" "fits32 q" for p q rest
    using that by (rule readFrame_encodeBlob)
  with error show ?thesis by auto
qed

section \<open>The contract about stored keys\<close>

lemma as_not_panic: "fst (on_dev f w) \<noteq> Panic m"
  by (simp add: on_dev_def split: prod.split sum.split)

text \<open>\<^verbatim>\<open>Close\<close> leaves the tree alone and does not panic.\<close>

lemma Close_kept:
  assumes "tpmSigner_Close lib (s, w) = (r, s', w')"
  shows "tree_kept w w'" and "r \<noteq> Panic m"
proof -
  have "tree_kept w w' \<and> r \<noteq> Panic m"
  proof (cases "sg_tpm s")
    case None
    with assms show ?thesis by (auto simp: tpmSigner_Close_def)
  next
    case (Some c)
    obtain w1 where f: "w1 = snd (flush lib c (sg_handle s) w)" by blast
    obtain r2 w2 where c: "tpm_close_conn lib c w1 = (r2, w2)" by fastforce
    have "tree_kept w w1" unfolding f by (rule inert_snd [OF inert_flush])
    moreover have "tree_kept w1 w2" using inert_kept [OF inert_close_conn c] .
    moreover have "r2 \<noteq> Panic m" using c as_not_panic by (metis fst_conv tpm_close_conn_def)
    ultimately show ?thesis
      using assms Some f c by (auto simp: tpmSigner_Close_def Let_def intro: tree_kept_trans)
  qed
  then show "tree_kept w w'" "r \<noteq> Panic m" by auto
qed

lemma storedKeys_kept: "tree_kept w w' \<Longrightarrow> storedKeys env w' = storedKeys env w"
  by (rule storedKeys_cong) (rule tree_keptD)

lemma syscall_no_panic: "(\<And>w. fst (f w) \<noteq> Panic m) \<Longrightarrow> fst (syscall f w) \<noteq> Panic m"
  unfolding syscall_def by (cases rule: syscall_part_cases [of "\<lambda>_ w. w" f w]) (auto, metis fst_conv)

lemma deleteKey_no_panic: "fst (deleteKey env name w) \<noteq> Panic m"
proof -
  have u: "fst (sys_unlink path v) \<noteq> Panic m" for path and v :: "'b os_scheme"
    unfolding sys_unlink_def by (rule syscall_no_panic) (simp add: fail_def ret_def split: option.split node.split)
  have r: "fst (sys_rmdir path v) \<noteq> Panic m" for path and v :: "'b os_scheme"
    unfolding sys_rmdir_def by (rule syscall_no_panic) (simp add: fail_def ret_def split: option.split node.split)
  have o: "fst (os_remove path v) \<noteq> Panic m" for path and v :: "'b os_scheme"
    using u [of path v] r [of path "snd (sys_unlink path v)"]
    by (auto simp: os_remove_def split: prod.splits outcome.splits go_err.splits errno.splits)
  show ?thesis
  proof (cases "blobPath env name")
    case (Inr path)
    with o [of path w] show ?thesis by (auto simp: deleteKey_def of_sum_def on_err_def split: prod.split outcome.split)
  qed (simp add: deleteKey_def of_sum_def fail_def gbind_def)
qed

definition linux_added :: "string \<Rightarrow> (string \<Rightarrow> bytes option) \<Rightarrow> (string \<Rightarrow> bytes option) \<Rightarrow> bool" where
  "linux_added name T T' \<longleftrightarrow> T name = None \<and> (\<exists>b. T' = T(name \<mapsto> b))"

interpretation linux_keys: key_store "linux_backend lib env" "storedKeys env" os_wf linux_added
    "\<lambda>_ T T'. T' = T" "\<lambda>name T T'. T' = T(name := None)"
  for lib env
proof unfold_locales
  fix w w' n r assume w: "os_wf w" and c: "bk_create (linux_backend lib env) n w = (r, w')"
  from tripleD [OF triple_createKey c [simplified] table_is_self [OF w]]
  show "os_wf w' \<and> (if returned r then linux_added n (storedKeys env w) (storedKeys env w')
      else storedKeys env w' = storedKeys env w)"
    by (cases r) (auto simp: created_def table_is_def linux_added_def)
next
  fix w w' n r assume w: "os_wf w" and l: "bk_load (linux_backend lib env) n w = (r, w')"
  from tripleD [OF triple_loadKey l [simplified] table_is_self [OF w]]
  show "os_wf w' \<and> storedKeys env w' = storedKeys env w" by (simp add: table_is_def)
next
  fix w w' n and q :: "unit outcome" assume w: "os_wf w" and d: "bk_delete (linux_backend lib env) n w = (q, w')"
  have "q \<noteq> Panic m" for m using deleteKey_no_panic [of env n w m] d by simp
  with deleteKey_result [OF w d [simplified]] show "os_wf w' \<and> (\<forall>m. q \<noteq> Panic m) \<and>
      (if returned q then storedKeys env w' = (storedKeys env w)(n := None) else storedKeys env w' = storedKeys env w)" by simp
next
  fix w w' s d opts sig assume w: "os_wf w" and c: "bk_sign (linux_backend lib env) s d opts w = (sig, w')"
  have "tree_kept w w'" using inert_kept [OF inert_Sign] c by simp
  with w show "os_wf w' \<and> storedKeys env w' = storedKeys env w" by (simp add: tree_keptD storedKeys_kept)
next
  fix w w' s s' and q :: "unit outcome"
  assume w: "os_wf w" and c: "bk_close (linux_backend lib env) (s, w) = (q, s', w')"
  from Close_kept [OF c [simplified]] w
  show "os_wf w' \<and> storedKeys env w' = storedKeys env w \<and> (\<forall>m. q \<noteq> Panic m)"
    by (auto simp: storedKeys_kept tree_keptD)
qed

end
