(* ===== verification/WindowsKeys.thy ===== *)
theory WindowsKeys
  imports KeyBackend GoDer
begin

text \<open>
  The Windows backend (\<^verbatim>\<open>key_windows.go\<close>) over the NCrypt calls of \<^verbatim>\<open>syscall_windows.go\<close>.
  The provider behind them is the parameter \<open>nc\<close>: each call returns a status and what it writes
  through its pointers, over a provider state \<open>'d\<close>; a buffer of \<open>n\<close> bytes handed to a call is passed
  as \<open>Some n\<close>, a nil buffer as \<open>None\<close>. \<^verbatim>\<open>windows.UTF16PtrFromString\<close> is also a parameter. The ledger
  records the provider and key handles: \<^verbatim>\<open>NCryptFreeObject\<close> gives one back, and so does a
  \<^verbatim>\<open>NCryptDeleteKey\<close> that succeeds.
\<close>

definition backendName_windows :: string where
  "backendName_windows = ''TPM (Microsoft Platform Crypto Provider)''"

section \<open>The provider\<close>

type_synonym uintptr = "64 word"
type_synonym nCryptProvHandle = uintptr
type_synonym nCryptKeyHandle = uintptr
type_synonym utf16 = "16 word list"

abbreviation msPlatformCryptoProvider :: string where
  "msPlatformCryptoProvider \<equiv> ''Microsoft Platform Crypto Provider''"

abbreviation nCryptECDSAP256Algorithm :: string where
  "nCryptECDSAP256Algorithm \<equiv> ''ECDSA_P256''"

abbreviation bCryptECCPublicBlob :: string where
  "bCryptECCPublicBlob \<equiv> ''ECCPUBLICBLOB''"

abbreviation nCryptKeyUsageProperty :: string where
  "nCryptKeyUsageProperty \<equiv> ''Key Usage''"

abbreviation nCryptAllowSigningFlag :: "32 word" where
  "nCryptAllowSigningFlag \<equiv> 2"

type_synonym security_status = "32 word"

datatype win_res = WinProv nCryptProvHandle | WinKey nCryptKeyHandle

record 'd ncrypt =
  UTF16PtrFromString :: "string \<Rightarrow> go_err + utf16"
  nCryptOpenStorageProvider :: "utf16 \<Rightarrow> 'd \<Rightarrow> (security_status \<times> nCryptProvHandle) \<times> 'd"
  nCryptCreatePersistedKey ::
    "nCryptProvHandle \<Rightarrow> utf16 \<Rightarrow> utf16 \<Rightarrow> 'd \<Rightarrow> (security_status \<times> nCryptKeyHandle) \<times> 'd"
  nCryptOpenKey :: "nCryptProvHandle \<Rightarrow> utf16 \<Rightarrow> 'd \<Rightarrow> (security_status \<times> nCryptKeyHandle) \<times> 'd"
  nCryptDeleteKey :: "nCryptKeyHandle \<Rightarrow> 'd \<Rightarrow> security_status \<times> 'd"
  nCryptSetProperty :: "nCryptKeyHandle \<Rightarrow> utf16 \<Rightarrow> bytes \<Rightarrow> 'd \<Rightarrow> (security_status \<times> unit) \<times> 'd"
  nCryptFinalizeKey :: "nCryptKeyHandle \<Rightarrow> 'd \<Rightarrow> (security_status \<times> unit) \<times> 'd"
  nCryptExportKey :: "nCryptKeyHandle \<Rightarrow> utf16 \<Rightarrow> nat option \<Rightarrow> 'd \<Rightarrow> (security_status \<times> bytes \<times> 32 word) \<times> 'd"
  nCryptSignHash :: "nCryptKeyHandle \<Rightarrow> bytes \<Rightarrow> nat option \<Rightarrow> 'd \<Rightarrow> (security_status \<times> bytes \<times> 32 word) \<times> 'd"
  nCryptFreeObject :: "uintptr \<Rightarrow> 'd \<Rightarrow> security_status \<times> 'd"

record 'd win =
  win_dev :: 'd
  win_log :: "win_res event list"

text \<open>The null handle stands for nothing.\<close>

fun null_res :: "win_res \<Rightarrow> bool" where
  "null_res (WinProv h) = (h = 0)"
| "null_res (WinKey h) = (h = 0)"

fun event_res :: "'r event \<Rightarrow> 'r" where
  "event_res (Acq r) = r"
| "event_res (Use r) = r"
| "event_res (Rel r) = r"

definition win_ev :: "win_res event \<Rightarrow> 'd win \<Rightarrow> 'd win" where
  "win_ev e w = (if null_res (event_res e) then w else w\<lparr>win_log := win_log w @ [e]\<rparr>)"

text \<open>\<^verbatim>\<open>ret := f(...); if ret != 0 { return nil, fmt.Errorf(msg, ret) }\<close>.\<close>

definition status_call ::
    "string \<Rightarrow> ('d \<Rightarrow> (security_status \<times> 'a) \<times> 'd) \<Rightarrow> ('d win, 'a) go" where
  "status_call msg f w =
     (case f (win_dev w) of
        ((st, x), d) \<Rightarrow>
          (if st \<noteq> 0 then (Fail (Errorf msg [FInt (uint st)]), w\<lparr>win_dev := d\<rparr>)
           else (Ret x, w\<lparr>win_dev := d\<rparr>)))"

text \<open>The same on a key that is held.\<close>

definition key_call ::
    "nCryptKeyHandle \<Rightarrow> string \<Rightarrow> ('d \<Rightarrow> (security_status \<times> 'a) \<times> 'd) \<Rightarrow> ('d win, 'a) go" where
  "key_call hKey msg f w = status_call msg f (win_ev (Use (WinKey hKey)) w)"

definition freeProv :: "'d ncrypt \<Rightarrow> nCryptProvHandle \<Rightarrow> 'd win \<Rightarrow> 'd win" where
  "freeProv nc h w = win_ev (Rel (WinProv h)) (w\<lparr>win_dev := snd (nCryptFreeObject nc h (win_dev w))\<rparr>)"

definition freeKey :: "'d ncrypt \<Rightarrow> nCryptKeyHandle \<Rightarrow> 'd win \<Rightarrow> 'd win" where
  "freeKey nc h w = win_ev (Rel (WinKey h)) (w\<lparr>win_dev := snd (nCryptFreeObject nc h (win_dev w))\<rparr>)"

definition utf16ptr :: "'d ncrypt \<Rightarrow> string \<Rightarrow> string \<Rightarrow> ('d win, utf16) go" where
  "utf16ptr nc msg s = on_err (Wrapf msg []) (of_sum (UTF16PtrFromString nc s))"

text \<open>A Go buffer of \<open>n\<close> bytes after a call wrote \<open>bs\<close> to its start.\<close>

definition filled :: "nat \<Rightarrow> bytes \<Rightarrow> bytes" where
  "filled n bs = take n bs @ replicate (n - length bs) 0"

lemma length_filled [simp]: "length (filled n bs) = n"
  by (simp add: filled_def)

section \<open>The public key blob\<close>

definition bCryptECDSAP256PublicMagic :: "32 word" where "bCryptECDSAP256PublicMagic = 0x31534345"

definition p256CoordinateLength :: nat where "p256CoordinateLength = 32"

text \<open>The header is read in place; every Windows port of Go is little-endian.\<close>

definition get_le32 :: "bytes \<Rightarrow> 32 word" where
  "get_le32 bs = (case bs of b0 # b1 # b2 # b3 # _ \<Rightarrow> get_be32 b3 b2 b1 b0 | _ \<Rightarrow> 0)"

definition put_le32 :: "32 word \<Rightarrow> bytes" where
  "put_le32 v = rev (put_be32 v)"

definition parseECCPublicBlob :: "bytes \<Rightarrow> go_err + ecdsa_pub" where
  "parseECCPublicBlob blob =
     (if length blob < 8 then Inl (Errorf ''blob too short: %d bytes'' [FInt (int (length blob))])
      else if get_le32 blob \<noteq> bCryptECDSAP256PublicMagic
      then Inl (Errorf ''unexpected magic: 0x%08x'' [FInt (uint (get_le32 blob))])
      else (let keyLen = unat (get_le32 (drop 4 blob)) in
        if keyLen \<noteq> p256CoordinateLength
        then Inl (Errorf ''unexpected coordinate length %d for P-256'' [FInt (int keyLen)])
        else if length blob < 8 + 2 * keyLen
        then Inl (Errorf ''blob truncated: need %d, have %d''
                    [FInt (int (8 + 2 * keyLen)), FInt (int (length blob))])
        else Inr \<lparr>pk_curve = P256, pk_x = int (nat_of_bytes (take keyLen (drop 8 blob))),
                  pk_y = int (nat_of_bytes (take keyLen (drop (8 + keyLen) blob)))\<rparr>))"

section \<open>The operations\<close>

definition openProvider :: "'d ncrypt \<Rightarrow> ('d win, nCryptProvHandle) go" where
  "openProvider nc =
     gbind (utf16ptr nc ''convert provider name: %w'' msPlatformCryptoProvider) (\<lambda>provName.
     gbind (status_call ''open storage provider: 0x%08x'' (nCryptOpenStorageProvider nc provName)) (\<lambda>hProv w.
       (Ret hProv, win_ev (Acq (WinProv hProv)) w)))"

definition exportECCPublicKey :: "'d ncrypt \<Rightarrow> nCryptKeyHandle \<Rightarrow> ('d win, ecdsa_pub) go" where
  "exportECCPublicKey nc hKey =
     gbind (utf16ptr nc ''convert blob type: %w'' bCryptECCPublicBlob) (\<lambda>blobType.
     gbind (key_call hKey ''export key (size): 0x%08x'' (nCryptExportKey nc hKey blobType None)) (\<lambda>(_, cb).
     if cb = 0 then panic ''index out of range [0] with length 0''
     else
       gbind (key_call hKey ''export key: 0x%08x'' (nCryptExportKey nc hKey blobType (Some (unat cb)))) (\<lambda>(bs, _).
       on_err (Wrapf ''parse ECC public blob: %w'' []) (of_sum (parseECCPublicBlob (filled (unat cb) bs))))))"

record tpm_signer_windows =
  sw_hProv :: nCryptProvHandle
  sw_hKey :: nCryptKeyHandle
  sw_pub :: ecdsa_pub

text \<open>\<^verbatim>\<open>defer func() { if !success { free } }()\<close>; \<^verbatim>\<open>success\<close> is set right before the one success return.\<close>

definition unless_success :: "('d win \<Rightarrow> 'd win) \<Rightarrow> ('d win, 'a) go \<Rightarrow> ('d win, 'a) go" where
  "unless_success free = deferred (\<lambda>r w. if \<not> returned r then free w else w)"

definition createKey_windows :: "'d ncrypt \<Rightarrow> string \<Rightarrow> ('d win, tpm_signer_windows) go" where
  "createKey_windows nc name =
     gbind (openProvider nc) (\<lambda>hProv.
     unless_success (freeProv nc hProv) (
       gbind (utf16ptr nc ''convert algorithm id: %w'' nCryptECDSAP256Algorithm) (\<lambda>algId.
       gbind (utf16ptr nc ''convert key name: %w'' name) (\<lambda>keyName.
       gbind (status_call ''create persisted key: 0x%08x'' (nCryptCreatePersistedKey nc hProv algId keyName))
         (\<lambda>hKey w. unless_success (freeKey nc hKey) (
           gbind (utf16ptr nc ''convert key usage property: %w'' nCryptKeyUsageProperty) (\<lambda>usageProp.
           gbind (key_call hKey ''set key usage: 0x%08x'' (nCryptSetProperty nc hKey usageProp (put_le32 nCryptAllowSigningFlag))) (\<lambda>_.
           gbind (key_call hKey ''finalize key: 0x%08x'' (nCryptFinalizeKey nc hKey)) (\<lambda>_.
           gbind (exportECCPublicKey nc hKey) (\<lambda>pub.
           ret \<lparr>sw_hProv = hProv, sw_hKey = hKey, sw_pub = pub\<rparr>)))))
           (win_ev (Acq (WinKey hKey)) w))))))"

definition loadKey_windows :: "'d ncrypt \<Rightarrow> string \<Rightarrow> ('d win, tpm_signer_windows) go" where
  "loadKey_windows nc name =
     gbind (openProvider nc) (\<lambda>hProv.
     unless_success (freeProv nc hProv) (
       gbind (utf16ptr nc ''convert key name: %w'' name) (\<lambda>keyName.
       gbind (status_call ''open key: 0x%08x'' (nCryptOpenKey nc hProv keyName))
         (\<lambda>hKey w. unless_success (freeKey nc hKey) (
           gbind (exportECCPublicKey nc hKey) (\<lambda>pub.
           ret \<lparr>sw_hProv = hProv, sw_hKey = hKey, sw_pub = pub\<rparr>))
           (win_ev (Acq (WinKey hKey)) w)))))"

text \<open>\<^verbatim>\<open>NCryptDeleteKey\<close> frees the handle when it succeeds, so only a failure is followed by a free.\<close>

definition deleteHandle :: "'d ncrypt \<Rightarrow> nCryptKeyHandle \<Rightarrow> ('d win, unit) go" where
  "deleteHandle nc hKey w =
     (case nCryptDeleteKey nc hKey (win_dev w) of
        (st, d) \<Rightarrow>
          (let w1 = win_ev (Use (WinKey hKey)) (w\<lparr>win_dev := d\<rparr>) in
           if st \<noteq> 0 then (Fail (Errorf ''delete key: 0x%08x'' [FInt (uint st)]), freeKey nc hKey w1)
           else (Ret (), win_ev (Rel (WinKey hKey)) w1)))"

definition deleteKey_windows :: "'d ncrypt \<Rightarrow> string \<Rightarrow> ('d win, unit) go" where
  "deleteKey_windows nc name =
     gbind (openProvider nc) (\<lambda>hProv.
     deferred (\<lambda>_ w. freeProv nc hProv w) (
       gbind (utf16ptr nc ''convert key name: %w'' name) (\<lambda>keyName.
       gbind (status_call ''open key: 0x%08x'' (nCryptOpenKey nc hProv keyName))
         (\<lambda>hKey w. deleteHandle nc hKey (win_ev (Acq (WinKey hKey)) w)))))"

section \<open>The signer\<close>

definition tpmSigner_Public_windows :: "tpm_signer_windows \<Rightarrow> ecdsa_pub" where
  "tpmSigner_Public_windows s = sw_pub s"

text \<open>The two \<^verbatim>\<open>NCryptSignHash\<close> calls: the size, then the signature, cut to the size of the second.\<close>

definition signHash :: "'d ncrypt \<Rightarrow> nCryptKeyHandle \<Rightarrow> bytes \<Rightarrow> ('d win, bytes) go" where
  "signHash nc hKey digest =
     gbind (key_call hKey ''sign hash (size): 0x%08x'' (nCryptSignHash nc hKey digest None)) (\<lambda>(_, cb).
     if cb = 0 then panic ''index out of range [0] with length 0''
     else
       gbind (key_call hKey ''sign hash: 0x%08x'' (nCryptSignHash nc hKey digest (Some (unat cb)))) (\<lambda>(bs, cb2).
       if unat cb < unat cb2 then panic ''slice bounds out of range''
       else ret (take (unat cb2) (filled (unat cb) bs))))"

definition rawToDER :: "bytes \<Rightarrow> go_err + bytes" where
  "rawToDER sig =
     (if length sig \<noteq> 2 * p256CoordinateLength
      then Inl (Errorf ''tpmSigner: unexpected raw signature length %d'' [FInt (int (length sig))])
      else Inr (der_signature (nat_of_bytes (take p256CoordinateLength sig))
                              (nat_of_bytes (drop p256CoordinateLength sig))))"

definition tpmSigner_Sign_windows ::
    "'d ncrypt \<Rightarrow> tpm_signer_windows \<Rightarrow> bytes \<Rightarrow> signer_opts \<Rightarrow> ('d win, bytes) go" where
  "tpmSigner_Sign_windows nc s digest opts =
     (case opts of
        PSSOptions _ \<Rightarrow> fail (Errorf ''tpmSigner: RSA-PSS is not supported'' [])
      | NilOpts \<Rightarrow> panic ''invalid memory address or nil pointer dereference''
      | HashOpts h \<Rightarrow>
          if \<not> supported_hash h then fail (Errorf ''tpmSigner: unsupported hash %v'' [FInt (hash_number h)])
          else if length digest \<noteq> hash_size h
          then fail (Errorf ''tpmSigner: digest length %d does not match hash %v''
                       [FInt (int (length digest)), FInt (hash_number h)])
          else gbind (signHash nc (sw_hKey s) digest) (\<lambda>sig. of_sum (rawToDER sig)))"

definition tpmSigner_Close_windows :: "'d ncrypt \<Rightarrow> (tpm_signer_windows \<times> 'd win, unit) go" where
  "tpmSigner_Close_windows nc sw =
     (case sw of (s, w) \<Rightarrow>
        (let (s1, w1) = (if sw_hKey s \<noteq> 0 then (s\<lparr>sw_hKey := 0\<rparr>, freeKey nc (sw_hKey s) w) else (s, w));
             (s2, w2) = (if sw_hProv s1 \<noteq> 0 then (s1\<lparr>sw_hProv := 0\<rparr>, freeProv nc (sw_hProv s1) w1) else (s1, w1))
         in (Ret (), s2, w2)))"

definition windows_backend :: "'d ncrypt \<Rightarrow> ('d win, tpm_signer_windows) backend" where
  "windows_backend nc =
     \<lparr>bk_name = backendName_windows, bk_create = createKey_windows nc,
      bk_load = loadKey_windows nc, bk_delete = deleteKey_windows nc,
      bk_public = tpmSigner_Public_windows, bk_sign = tpmSigner_Sign_windows nc,
      bk_close = tpmSigner_Close_windows nc\<rparr>"

end
