(* ===== verification/WindowsBackend.thy ===== *)
theory WindowsBackend
  imports WindowsKeys
begin

text \<open>
  The properties of the Windows backend: who holds the NCrypt handles on every path, the
  contract of a backend, the public key blob, what \<^verbatim>\<open>Sign\<close> returns and when it panics, and the
  key a failing \<^verbatim>\<open>createKey\<close> can leave in the provider.
\<close>

section \<open>The ledger\<close>

definition held :: "win_res \<Rightarrow> win_res multiset" where
  "held r = (if null_res r then {#} else {#r#})"

lemma win_log_dev [simp]: "win_log (w\<lparr>win_dev := d\<rparr>) = win_log w"
  by simp

lemma owns_status_call: "moves win_log (\<lambda>_. M) (status_call msg f) (\<lambda>_ _. M)"
  by (rule movesI) (auto simp: status_call_def split: prod.split)

lemma moves_key_call:
  "moves win_log (\<lambda>_. held (WinKey h) + M) (key_call h msg f) (\<lambda>_ _. held (WinKey h) + M)"
proof (rule movesI)
  fix w :: "'a win"
  have l: "win_log (snd (key_call h msg f w)) = win_log (win_ev (Use (WinKey h)) w)"
    by (simp add: key_call_def status_call_def split: prod.split)
  show "\<exists>es. win_log (snd (key_call h msg f w)) = win_log w @ es \<and>
      (\<forall>F. run_log (held (WinKey h) + M + F) es = Some (held (WinKey h) + M + F))"
    unfolding l by (cases "h = 0") (auto simp: win_ev_def held_def intro: exI [of _ "[Use (WinKey h)]"])
qed

lemma moves_utf16ptr: "moves win_log (\<lambda>_. M) (utf16ptr nc msg s) (\<lambda>_ _. M)"
  unfolding utf16ptr_def by (rule moves_on_err [where R = "\<lambda>_ _. M"]) (auto intro: moves_of_sum)

lemma moves_acq:
  assumes "moves win_log (\<lambda>_. held r + M) f Q"
  shows "moves win_log (\<lambda>_. M) (\<lambda>w. f (win_ev (Acq r) w)) Q"
proof (rule movesI)
  fix w
  obtain x w' where f: "f (win_ev (Acq r) w) = (x, w')" by fastforce
  from movesD [OF assms f] obtain es where es: "win_log w' = win_log (win_ev (Acq r) w) @ es"
    "\<And>F. run_log (held r + M + F) es = Some (Q x w' + F)" by metis
  show "\<exists>es. win_log (snd (f (win_ev (Acq r) w))) = win_log w @ es \<and>
      (\<forall>F. run_log (M + F) es = Some (Q (fst (f (win_ev (Acq r) w))) (snd (f (win_ev (Acq r) w))) + F))"
  proof (cases "null_res r")
    case True
    with es f show ?thesis by (auto simp: win_ev_def held_def)
  next
    case False
    with es f show ?thesis
      by (intro exI [of _ "Acq r # es"]) (simp add: win_ev_def held_def)
  qed
qed

lemma moves_st_rel:
  assumes "\<And>w. win_log (d w) = win_log (win_ev (Rel r) w)"
  shows "moves_st win_log (\<lambda>_. held r + M) d (\<lambda>_. M)"
  unfolding moves_st_iff
proof
  fix w
  show "\<exists>es. win_log (d w) = win_log w @ es \<and> (\<forall>F. run_log (held r + M + F) es = Some (M + F))"
    by (cases "null_res r") (auto simp: assms win_ev_def held_def intro: exI [of _ "[Rel r]"])
qed

lemma moves_st_freeKey: "moves_st win_log (\<lambda>_. held (WinKey h) + M) (freeKey nc h) (\<lambda>_. M)"
  by (rule moves_st_rel) (simp add: freeKey_def win_ev_def)

lemma moves_st_freeProv: "moves_st win_log (\<lambda>_. held (WinProv h) + M) (freeProv nc h) (\<lambda>_. M)"
  by (rule moves_st_rel) (simp add: freeProv_def win_ev_def)

text \<open>A handle that is freed unless the call succeeds is the caller's on success.\<close>

lemma moves_unless_success:
  assumes "moves win_log (\<lambda>_. held r + M) f (\<lambda>x _. if returned x then Q x else held r + M)"
    and "moves_st win_log (\<lambda>_. held r + M) free (\<lambda>_. M)"
  shows "moves win_log (\<lambda>_. held r + M) (unless_success free f) (\<lambda>x _. if returned x then Q x else M)"
  unfolding unless_success_def
  by (rule moves_deferred [OF assms(1)]) (use assms(2) in \<open>auto intro: moves_st_id simp: if_distrib\<close>)

definition win_signer_res :: "tpm_signer_windows \<Rightarrow> win_res multiset" where
  "win_signer_res s = held (WinKey (sw_hKey s)) + held (WinProv (sw_hProv s))"

text \<open>What a step that may fail leaves while \<open>M\<close> is held; on success it is the signer's.\<close>

lemma moves_step:
  assumes "moves win_log (\<lambda>_. M) f (\<lambda>_ _. M)" and "\<And>x. moves win_log (\<lambda>_. M) (k x) (\<lambda>r _. if returned r then Q r else M)"
  shows "moves win_log (\<lambda>_. M) (gbind f k) (\<lambda>r _. if returned r then Q r else M)"
  by (rule moves_gbind [OF assms]) simp_all

lemma moves_openProvider:
  assumes "\<And>h. moves win_log (\<lambda>_. held (WinProv h)) (k h) Q" and "\<And>e w. Q (Fail e) w = {#}" "\<And>p w. Q (Panic p) w = {#}"
  shows "moves win_log (\<lambda>_. {#}) (gbind (openProvider nc) k) Q"
proof -
  have "moves win_log (\<lambda>_. held (WinProv h)) (ret h)
      (\<lambda>r _. case r of Ret h \<Rightarrow> held (WinProv h) | _ \<Rightarrow> {#})" for h
    by (rule moves_ret) simp
  from moves_acq [where M = "{#}", unfolded add_0_right, OF this]
  have "moves win_log (\<lambda>_. {#}) (\<lambda>w. (Ret h, win_ev (Acq (WinProv h)) w))
      (\<lambda>r _. case r of Ret h \<Rightarrow> held (WinProv h) | _ \<Rightarrow> {#})" for h
    by (simp add: ret_def)
  then have "moves win_log (\<lambda>_. {#}) (openProvider nc) (\<lambda>r _. case r of Ret h \<Rightarrow> held (WinProv h) | _ \<Rightarrow> {#})"
    unfolding openProvider_def
    by (intro moves_gbind [OF moves_utf16ptr] moves_gbind [OF owns_status_call]) simp_all
  then show ?thesis by (rule moves_gbind) (simp_all add: assms)
qed

lemma moves_export:
  "moves win_log (\<lambda>_. held (WinKey h) + M) (exportECCPublicKey nc h) (\<lambda>_ _. held (WinKey h) + M)"
  unfolding exportECCPublicKey_def
  by (intro moves_gbind [OF moves_utf16ptr] moves_gbind [OF moves_key_call])
    (auto split: prod.split intro!: moves_panic moves_gbind [OF moves_key_call]
      moves_on_err [where R = "\<lambda>_ _. held (WinKey h) + M"] moves_of_sum)

lemma moves_with_key:
  assumes "moves win_log (\<lambda>_. held (WinKey h) + M) body (\<lambda>_ _. held (WinKey h) + M)"
    and "\<And>pub. f pub = \<lparr>sw_hProv = p, sw_hKey = h, sw_pub = pub\<rparr>" and "M = held (WinProv p)"
  shows "moves win_log (\<lambda>_. M)
    (\<lambda>w. unless_success (freeKey nc h) (gbind body (\<lambda>pub. ret (f pub))) (win_ev (Acq (WinKey h)) w))
    (\<lambda>r _. if returned r then made win_signer_res r else M)"
  by (intro moves_acq moves_unless_success moves_gbind [OF assms(1)] moves_st_freeKey)
    (auto intro!: moves_ret simp: assms(2,3) win_signer_res_def)

lemma moves_opened_windows:
  assumes "\<And>p. moves win_log (\<lambda>_. held (WinProv p)) (k p) (\<lambda>r _. if returned r then made win_signer_res r else held (WinProv p))"
  shows "moves win_log (\<lambda>_. {#}) (gbind (openProvider nc) (\<lambda>p. unless_success (freeProv nc p) (k p)))
    (\<lambda>r _. made win_signer_res r)"
proof (rule moves_openProvider)
  fix p
  have "moves win_log (\<lambda>_. held (WinProv p)) (unless_success (freeProv nc p) (k p))
      (\<lambda>r _. if returned r then made win_signer_res r else {#})"
    by (rule moves_unless_success [where M = "{#}", unfolded add_0_right, OF assms
          moves_st_freeProv [where M = "{#}", unfolded add_0_right]])
  then show "moves win_log (\<lambda>_. held (WinProv p)) (unless_success (freeProv nc p) (k p)) (\<lambda>r _. made win_signer_res r)"
    by (rule moves_weaken) (auto simp: made_none)
qed simp_all

lemma moves_createKey_windows:
  "moves win_log (\<lambda>_. {#}) (createKey_windows nc name) (\<lambda>r _. made win_signer_res r)"
  unfolding createKey_windows_def
proof (intro moves_opened_windows moves_step moves_utf16ptr owns_status_call)
  fix p algId keyName h
  let ?body = "gbind (utf16ptr nc ''convert key usage property: %w'' ''Key Usage'') (\<lambda>usageProp.
     gbind (key_call h ''set key usage: 0x%08x'' (nCryptSetProperty nc h usageProp (put_le32 2))) (\<lambda>_.
     gbind (key_call h ''finalize key: 0x%08x'' (nCryptFinalizeKey nc h)) (\<lambda>_. exportECCPublicKey nc h)))"
  have "moves win_log (\<lambda>_. held (WinKey h) + held (WinProv p)) ?body (\<lambda>_ _. held (WinKey h) + held (WinProv p))"
    by (intro moves_gbind [OF moves_utf16ptr] moves_gbind [OF moves_key_call] moves_export) simp_all
  from moves_with_key [OF this, of "\<lambda>pub. \<lparr>sw_hProv = p, sw_hKey = h, sw_pub = pub\<rparr>" p nc]
  show "moves win_log (\<lambda>_. held (WinProv p)) (\<lambda>w. unless_success (freeKey nc h)
     (gbind (utf16ptr nc ''convert key usage property: %w'' ''Key Usage'') (\<lambda>usageProp.
      gbind (key_call h ''set key usage: 0x%08x'' (nCryptSetProperty nc h usageProp (put_le32 2))) (\<lambda>_.
      gbind (key_call h ''finalize key: 0x%08x'' (nCryptFinalizeKey nc h)) (\<lambda>_.
      gbind (exportECCPublicKey nc h) (\<lambda>pub. ret \<lparr>sw_hProv = p, sw_hKey = h, sw_pub = pub\<rparr>)))))
      (win_ev (Acq (WinKey h)) w)) (\<lambda>r _. if returned r then made win_signer_res r else held (WinProv p))"
    by (simp add: gbind_assoc)
qed

lemma moves_loadKey_windows:
  "moves win_log (\<lambda>_. {#}) (loadKey_windows nc name) (\<lambda>r _. made win_signer_res r)"
  unfolding loadKey_windows_def
  by (intro moves_opened_windows moves_step moves_utf16ptr owns_status_call
      moves_with_key [OF moves_export]) simp_all

lemma moves_deleteHandle:
  "moves win_log (\<lambda>_. held (WinKey h) + M) (deleteHandle nc h) (\<lambda>_ _. M)"
proof (rule movesI)
  fix w :: "'a win"
  show "\<exists>es. win_log (snd (deleteHandle nc h w)) = win_log w @ es \<and>
      (\<forall>F. run_log (held (WinKey h) + M + F) es = Some (M + F))"
    by (cases "h = 0")
      (auto simp: deleteHandle_def freeKey_def win_ev_def held_def Let_def split: prod.split
        intro: exI [of _ "[Use (WinKey h), Rel (WinKey h)]"])
qed

lemma moves_deleteKey_windows: "moves win_log (\<lambda>_. {#}) (deleteKey_windows nc name) (\<lambda>_ _. {#})"
  unfolding deleteKey_windows_def
proof (rule moves_openProvider)
  fix p
  let ?P = "\<lambda>_. held (WinProv p)"
  have "moves win_log ?P (\<lambda>w. deleteHandle nc h (win_ev (Acq (WinKey h)) w)) (\<lambda>_. ?P)" for h
    by (intro moves_acq moves_deleteHandle)
  then show "moves win_log ?P (deferred (\<lambda>_ w. freeProv nc p w)
      (gbind (utf16ptr nc ''convert key name: %w'' name) (\<lambda>keyName.
       gbind (status_call ''open key: 0x%08x'' (nCryptOpenKey nc p keyName))
         (\<lambda>hKey w. deleteHandle nc hKey (win_ev (Acq (WinKey hKey)) w))))) (\<lambda>_ _. {#})"
    using moves_st_freeProv [of p "{#}" nc]
    by (intro moves_deferred [where R = "\<lambda>_. ?P"] moves_gbind [OF moves_utf16ptr] moves_gbind [OF owns_status_call])
      simp_all
qed simp_all

lemma moves_Sign_windows:
  "moves win_log (\<lambda>_. win_signer_res s) (tpmSigner_Sign_windows nc s digest opts) (\<lambda>_ _. win_signer_res s)"
proof -
  have "moves win_log (\<lambda>_. win_signer_res s) (signHash nc (sw_hKey s) d) (\<lambda>_ _. win_signer_res s)" for d
    unfolding signHash_def win_signer_res_def
    by (intro moves_gbind [OF moves_key_call])
      (auto split: prod.split intro!: moves_panic moves_ret moves_gbind [OF moves_key_call])
  then have "moves win_log (\<lambda>_. win_signer_res s) (gbind (signHash nc (sw_hKey s) digest)
      (\<lambda>sig. of_sum (rawToDER sig))) (\<lambda>_ _. win_signer_res s)"
    by (rule moves_gbind) (auto intro: moves_of_sum)
  then show ?thesis
    by (auto simp: tpmSigner_Sign_windows_def split: signer_opts.split intro: moves_fail moves_panic)
qed

lemma Close_windows_closed:
  "tpmSigner_Close_windows nc (s, w) = (r, s', w') \<Longrightarrow>
    r = Ret () \<and> sw_hKey s' = 0 \<and> sw_hProv s' = 0 \<and> sw_pub s' = sw_pub s"
  by (auto simp: tpmSigner_Close_windows_def Let_def split: if_splits)

lemma moves_Close_windows:
  "moves (win_log \<circ> snd) (\<lambda>sw. win_signer_res (fst sw)) (tpmSigner_Close_windows nc) (\<lambda>_ _. {#})"
proof (rule movesI)
  fix sw :: "tpm_signer_windows \<times> 'a win"
  obtain s w where sw: "sw = (s, w)" by (cases sw)
  let ?es = "(if sw_hKey s = 0 then [] else [Rel (WinKey (sw_hKey s))]) @
    (if sw_hProv s = 0 then [] else [Rel (WinProv (sw_hProv s))])"
  show "\<exists>es. (win_log \<circ> snd) (snd (tpmSigner_Close_windows nc sw)) = (win_log \<circ> snd) sw @ es \<and>
      (\<forall>F. run_log (win_signer_res (fst sw) + F) es = Some ({#} + F))"
    by (intro exI [of _ ?es])
      (simp add: sw tpmSigner_Close_windows_def freeKey_def freeProv_def win_ev_def win_signer_res_def held_def)
qed

lemma windows_backend_simps [simp]:
  "bk_create (windows_backend nc) = createKey_windows nc" "bk_load (windows_backend nc) = loadKey_windows nc"
  "bk_delete (windows_backend nc) = deleteKey_windows nc"
  "bk_public (windows_backend nc) = tpmSigner_Public_windows"
  "bk_sign (windows_backend nc) = tpmSigner_Sign_windows nc"
  "bk_close (windows_backend nc) = tpmSigner_Close_windows nc"
  by (simp_all add: windows_backend_def)

interpretation windows: key_backend win_log "windows_backend nc" win_signer_res
  for nc
proof unfold_locales
  show "win_signer_res s' = {#}" if "bk_close (windows_backend nc) (s, w) = (r, s', w')" for s w r s' w'
    using Close_windows_closed [of nc s w r s' w'] that by (simp add: win_signer_res_def held_def)
qed (simp_all add: moves_createKey_windows moves_loadKey_windows moves_deleteKey_windows
    moves_Sign_windows moves_Close_windows)

section \<open>Handles\<close>

text \<open>
  The Windows \<^verbatim>\<open>createKey\<close>, \<^verbatim>\<open>loadKey\<close> and \<^verbatim>\<open>deleteKey\<close> free every handle they opened exactly
  once, whatever the provider answers and also when they panic, never use a freed one, and on
  success hand over exactly the two handles the signer owns (\<^verbatim>\<open>deleteKey\<close>: none).
\<close>

lemma windows_open_balanced:
  "(case createKey_windows nc name w of (r, w') \<Rightarrow> replays win_log w w' F (F + made win_signer_res r)) \<and>
   (case loadKey_windows nc name w of (r, w') \<Rightarrow> replays win_log w w' F (F + made win_signer_res r)) \<and>
   replays win_log w (snd (deleteKey_windows nc name w)) F F"
  using windows.open_balanced [of nc name w F] by (simp add: split_def)

text \<open>
  C19: the Windows \<^verbatim>\<open>createKey\<close>, \<^verbatim>\<open>loadKey\<close> and \<^verbatim>\<open>deleteKey\<close> free every handle they opened exactly
  once on every path, whatever the provider answers and also when they panic, and hand over what a returned
  signer owns; over the whole life of that signer (any signatures, \<^verbatim>\<open>Close\<close> twice, \<^verbatim>\<open>Sign\<close> after
  \<^verbatim>\<open>Close\<close>) every handle is freed exactly once and none is used afterwards.
\<close>

theorem windows_balanced:
  "(case createKey_windows nc name w of (r, w') \<Rightarrow> replays win_log w w' F (F + made win_signer_res r)) \<and>
   (case loadKey_windows nc name w of (r, w') \<Rightarrow> replays win_log w w' F (F + made win_signer_res r)) \<and>
   replays win_log w (snd (deleteKey_windows nc name w)) F F \<and>
   replays win_log w (snd (signer_life (windows_backend nc) (createKey_windows nc name) qs qs' w)) F F \<and>
   replays win_log w (snd (signer_life (windows_backend nc) (loadKey_windows nc name) qs qs' w)) F F"
  using windows_open_balanced [where nc = nc and name = name and w = w and F = F] windows.life_balanced [of nc name qs qs' w F] by simp

section \<open>The public key blob\<close>

lemma get_le32_append: "length h = 4 \<Longrightarrow> get_le32 (h @ r) = v \<longleftrightarrow> h = put_le32 v"
proof -
  assume "length h = 4"
  then obtain b0 b1 b2 b3 where h: "h = [b0, b1, b2, b3]"
    by (auto simp: length_Suc_conv numeral_eq_Suc)
  have "get_le32 (h @ r) = get_be32 b3 b2 b1 b0" by (simp add: h get_le32_def)
  moreover have "put_be32 (get_be32 b3 b2 b1 b0) = rev h" by (simp add: h put_get_be32)
  ultimately show ?thesis
    using put_be32_inject [of "get_be32 b3 b2 b1 b0" v] by (auto simp: put_le32_def rev_swap)
qed

lemma length_put_le32 [simp]: "length (put_le32 v) = 4"
  by (simp add: put_le32_def)

text \<open>The blob \<^verbatim>\<open>NCryptExportKey\<close> documents: \<^verbatim>\<open>BCRYPT_ECCKEY_BLOB\<close>, then the two coordinates.\<close>

definition eccBlob :: "bytes \<Rightarrow> bytes \<Rightarrow> bytes" where
  "eccBlob X Y = put_le32 bCryptECDSAP256PublicMagic @ put_le32 32 @ X @ Y"

lemma parse_eccBlob:
  assumes "length X = 32" and "length Y = 32"
  shows "parseECCPublicBlob (eccBlob X Y @ rest) =
    Inr \<lparr>pk_curve = P256, pk_x = int (nat_of_bytes X), pk_y = int (nat_of_bytes Y)\<rparr>"
proof -
  let ?h = "put_le32 bCryptECDSAP256PublicMagic" and ?k = "put_le32 32"
  have b: "eccBlob X Y @ rest = ?h @ ?k @ X @ Y @ rest" by (simp add: eccBlob_def)
  have m: "get_le32 (?h @ ?k @ X @ Y @ rest) = bCryptECDSAP256PublicMagic"
    using get_le32_append [of ?h] by simp
  have d: "drop 4 (?h @ ?k @ X @ Y @ rest) = ?k @ X @ Y @ rest" by simp
  have k: "get_le32 (?k @ X @ Y @ rest) = 32" using get_le32_append [of ?k] by simp
  have x: "take 32 (drop 8 (?h @ ?k @ X @ Y @ rest)) = X" using assms by simp
  have y: "take 32 (drop (8 + 32) (?h @ ?k @ X @ Y @ rest)) = Y" using assms by simp
  have l: "length (?h @ ?k @ X @ Y @ rest) = 72 + length rest" using assms by simp
  show ?thesis
    unfolding parseECCPublicBlob_def b Let_def d m k l p256CoordinateLength_def
    using x y by simp
qed

text \<open>
  C22: \<^verbatim>\<open>parseECCPublicBlob\<close> accepts exactly the byte strings that start with a P-256 public key
  blob, and returns its two big-endian coordinates; it rejects everything else with an error.
\<close>

theorem parseECCPublicBlob_exact:
  "case parseECCPublicBlob blob of
     Inr pk \<Rightarrow> (\<exists>X Y rest. length X = 32 \<and> length Y = 32 \<and> blob = eccBlob X Y @ rest \<and>
       pk = \<lparr>pk_curve = P256, pk_x = int (nat_of_bytes X), pk_y = int (nat_of_bytes Y)\<rparr>)
   | Inl e \<Rightarrow> \<not> (\<exists>X Y rest. length X = 32 \<and> length Y = 32 \<and> blob = eccBlob X Y @ rest)"
proof (cases "parseECCPublicBlob blob")
  case (Inl e)
  have "parseECCPublicBlob (eccBlob X Y @ rest) \<noteq> Inl e" if "length X = 32" "length Y = 32" for X Y rest
    using parse_eccBlob [OF that] by simp
  with Inl show ?thesis by auto
next
  case (Inr pk)
  let ?X = "take 32 (drop 8 blob)" and ?Y = "take 32 (drop 40 blob)"
  from Inr have c: "8 \<le> length blob" "get_le32 blob = bCryptECDSAP256PublicMagic"
    "unat (get_le32 (drop 4 blob)) = 32" "72 \<le> length blob"
    and pk: "pk = \<lparr>pk_curve = P256, pk_x = int (nat_of_bytes ?X), pk_y = int (nat_of_bytes ?Y)\<rparr>"
    by (auto simp: parseECCPublicBlob_def Let_def p256CoordinateLength_def split: if_splits)
  from c(3) have k: "get_le32 (drop 4 blob) = 32" by (simp add: word_unat_eq_iff)
  have "take 4 blob = put_le32 bCryptECDSAP256PublicMagic"
    using get_le32_append [of "take 4 blob" "drop 4 blob" bCryptECDSAP256PublicMagic] c by simp
  moreover have "take 4 (drop 4 blob) = put_le32 32"
    using get_le32_append [of "take 4 (drop 4 blob)" "drop 4 (drop 4 blob)" 32] c(1) k
    by (simp only: append_take_drop_id) simp
  moreover have "blob = take 4 blob @ take 4 (drop 4 blob) @ ?X @ ?Y @ drop 72 blob"
  proof -
    have "drop 4 blob = take 4 (drop 4 blob) @ drop 8 blob"
      using append_take_drop_id [of 4 "drop 4 blob"] by simp
    moreover have "drop 8 blob = ?X @ drop 40 blob" "drop 40 blob = ?Y @ drop 72 blob"
      using append_take_drop_id [of 32 "drop 8 blob"] append_take_drop_id [of 32 "drop 40 blob"] by simp_all
    ultimately show ?thesis by (metis append_take_drop_id)
  qed
  ultimately have "blob = eccBlob ?X ?Y @ drop 72 blob" by (simp add: eccBlob_def)
  moreover have "length ?X = 32" "length ?Y = 32" using c(4) by simp_all
  ultimately show ?thesis unfolding Inr sum.case using pk by blast
qed

section \<open>Signing\<close>


section \<open>A key that a failing \<^verbatim>\<open>createKey\<close> leaves behind\<close>

text \<open>
  A provider that stores key names: \<^verbatim>\<open>NCryptCreatePersistedKey\<close> refuses a stored name, the key is
  stored when it is finalized, and the export fails (as it does when the chip is locked or out of
  resources).
\<close>

definition failing_export :: "(utf16 list \<times> utf16) ncrypt" where
  "failing_export =
     \<lparr>UTF16PtrFromString = (\<lambda>s. Inr (map (\<lambda>c. word_of_nat (of_char c)) s)),
      nCryptOpenStorageProvider = (\<lambda>_ d. ((0, 1), d)),
      nCryptCreatePersistedKey = (\<lambda>_ _ n d. if n \<in> set (fst d) then ((0x8009000F, 0), d) else ((0, 2), (fst d, n))),
      nCryptOpenKey = (\<lambda>_ n d. if n \<in> set (fst d) then ((0, 2), d) else ((0x80090016, 0), d)),
      nCryptDeleteKey = (\<lambda>_ d. (0, d)),
      nCryptSetProperty = (\<lambda>_ _ _ d. ((0, ()), d)),
      nCryptFinalizeKey = (\<lambda>_ d. ((0, ()), (snd d # fst d, snd d))),
      nCryptExportKey = (\<lambda>_ _ _ d. ((0x80280400, [], 0), d)),
      nCryptSignHash = (\<lambda>_ _ _ d. ((0x80090009, [], 0), d)),
      nCryptFreeObject = (\<lambda>_ d. (0, d))\<rparr>"

text \<open>
  \<^verbatim>\<open>createKey\<close> on Windows is not all or nothing: when the export after \<^verbatim>\<open>NCryptFinalizeKey\<close> fails,
  it reports an error, frees its handles and leaves the finalized key in the provider, so that a second
  attempt with the same name is refused as a duplicate.
\<close>

lemma createKey_windows_orphan:
  "\<exists>(nc :: (utf16 list \<times> utf16) ncrypt) w name w1 w2.
     createKey_windows nc name w = (Fail (Errorf ''export key (size): 0x%08x'' [FInt 0x80280400]), w1) \<and>
     fst (win_dev w) = [] \<and> length (fst (win_dev w1)) = 1 \<and>
     createKey_windows nc name w1 = (Fail (Errorf ''create persisted key: 0x%08x'' [FInt 0x8009000F]), w2)"
proof (intro exI conjI)
  let ?w = "\<lparr>win_dev = ([], []), win_log = []\<rparr>" and ?n = "''k''"
  let ?w1 = "snd (createKey_windows failing_export ?n ?w)"
  note defs = createKey_windows_def openProvider_def utf16ptr_def status_call_def key_call_def
    unless_success_def exportECCPublicKey_def freeKey_def freeProv_def win_ev_def failing_export_def go_defs
  show "createKey_windows failing_export ?n ?w =
      (Fail (Errorf ''export key (size): 0x%08x'' [FInt 0x80280400]), ?w1)"
    by (simp add: defs)
  show "fst (win_dev ?w) = []" by simp
  show "length (fst (win_dev ?w1)) = 1" by (simp add: defs)
  show "createKey_windows failing_export ?n ?w1 =
      (Fail (Errorf ''create persisted key: 0x%08x'' [FInt 0x8009000F]), snd (createKey_windows failing_export ?n ?w1))"
    by (simp add: defs)
qed

end
