(* ===== verification/WindowsTable.thy ===== *)
theory WindowsTable
  imports WindowsBackend
begin

text \<open>
  What the Windows backend does to the keys that are stored. The provider is known through its documented
  behaviour only (\<open>provider_laws\<close>): \<open>keys d\<close> maps the name of each stored key to its algorithm and its
  usage property, and \<open>handles d\<close> a key handle to the key it stands for, which need not be stored yet.
\<close>

section \<open>The provider\<close>

datatype key_info = KeyInfo utf16 "bytes option"

definition quiet_call ::
    "('d \<Rightarrow> 'k) \<Rightarrow> ('d \<Rightarrow> nCryptKeyHandle \<rightharpoonup> utf16 \<times> key_info) \<Rightarrow> ('d \<Rightarrow> 'a \<times> 'd) \<Rightarrow> bool" where
  "quiet_call keys handles f \<longleftrightarrow>
     (\<forall>d. keys (snd (f d)) = keys d \<and> handles d \<subseteq>\<^sub>m handles (snd (f d)))"

text \<open>
  \<^verbatim>\<open>NCryptCreatePersistedKey\<close> without \<^verbatim>\<open>NCRYPT_OVERWRITE_KEY_FLAG\<close> refuses a stored name and makes a key
  that is stored only by \<^verbatim>\<open>NCryptFinalizeKey\<close>; \<^verbatim>\<open>NCryptOpenKey\<close> finds stored keys only; \<^verbatim>\<open>NCryptDeleteKey\<close>
  removes the key of its handle. A call that reports an error leaves the keys alone.
\<close>

definition create_law ::
    "'d ncrypt \<Rightarrow> ('d \<Rightarrow> utf16 \<rightharpoonup> key_info) \<Rightarrow> ('d \<Rightarrow> nCryptKeyHandle \<rightharpoonup> utf16 \<times> key_info) \<Rightarrow> bool" where
  "create_law nc keys handles \<longleftrightarrow>
     (\<forall>p alg n d st h d'. nCryptCreatePersistedKey nc p alg n d = ((st, h), d') \<longrightarrow>
        keys d' = keys d \<and> (st = 0 \<longrightarrow> keys d n = None \<and> handles d' h = Some (n, KeyInfo alg None)))"

definition usage_law ::
    "'d ncrypt \<Rightarrow> ('d \<Rightarrow> utf16 \<rightharpoonup> key_info) \<Rightarrow> ('d \<Rightarrow> nCryptKeyHandle \<rightharpoonup> utf16 \<times> key_info) \<Rightarrow> bool" where
  "usage_law nc keys handles \<longleftrightarrow>
     (\<forall>h n alg u pty bs d st x d'.
        handles d h = Some (n, KeyInfo alg u) \<longrightarrow> UTF16PtrFromString nc nCryptKeyUsageProperty = Inr pty \<longrightarrow>
        nCryptSetProperty nc h pty bs d = ((st, x), d') \<longrightarrow>
        keys d' = keys d \<and> (st = 0 \<longrightarrow> handles d' h = Some (n, KeyInfo alg (Some bs))))"

definition finalize_law ::
    "'d ncrypt \<Rightarrow> ('d \<Rightarrow> utf16 \<rightharpoonup> key_info) \<Rightarrow> ('d \<Rightarrow> nCryptKeyHandle \<rightharpoonup> utf16 \<times> key_info) \<Rightarrow> bool" where
  "finalize_law nc keys handles \<longleftrightarrow>
     (\<forall>h n k d st x d'. handles d h = Some (n, k) \<longrightarrow> nCryptFinalizeKey nc h d = ((st, x), d') \<longrightarrow>
        keys d' = (if st = 0 then (keys d)(n \<mapsto> k) else keys d) \<and> handles d \<subseteq>\<^sub>m handles d')"

definition open_law ::
    "'d ncrypt \<Rightarrow> ('d \<Rightarrow> utf16 \<rightharpoonup> key_info) \<Rightarrow> ('d \<Rightarrow> nCryptKeyHandle \<rightharpoonup> utf16 \<times> key_info) \<Rightarrow> bool" where
  "open_law nc keys handles \<longleftrightarrow>
     (\<forall>p n d st h d'. nCryptOpenKey nc p n d = ((st, h), d') \<longrightarrow>
        keys d' = keys d \<and> (st = 0 \<longrightarrow> (\<exists>k. keys d n = Some k \<and> handles d' h = Some (n, k))))"

definition delete_law ::
    "'d ncrypt \<Rightarrow> ('d \<Rightarrow> utf16 \<rightharpoonup> key_info) \<Rightarrow> ('d \<Rightarrow> nCryptKeyHandle \<rightharpoonup> utf16 \<times> key_info) \<Rightarrow> bool" where
  "delete_law nc keys handles \<longleftrightarrow>
     (\<forall>h n k d st d'. handles d h = Some (n, k) \<longrightarrow> nCryptDeleteKey nc h d = (st, d') \<longrightarrow>
        keys d' = (if st = 0 then (keys d)(n := None) else keys d))"

definition provider_laws ::
    "'d ncrypt \<Rightarrow> ('d \<Rightarrow> utf16 \<rightharpoonup> key_info) \<Rightarrow> ('d \<Rightarrow> nCryptKeyHandle \<rightharpoonup> utf16 \<times> key_info) \<Rightarrow> bool" where
  "provider_laws nc keys handles \<longleftrightarrow>
     (\<forall>n. quiet_call keys handles (nCryptOpenStorageProvider nc n)) \<and>
     (\<forall>h t buf. quiet_call keys handles (nCryptExportKey nc h t buf)) \<and>
     (\<forall>h b buf. quiet_call keys handles (nCryptSignHash nc h b buf)) \<and>
     (\<forall>h d. keys (snd (nCryptFreeObject nc h d)) = keys d) \<and>
     create_law nc keys handles \<and> usage_law nc keys handles \<and> finalize_law nc keys handles \<and>
     open_law nc keys handles \<and> delete_law nc keys handles"

section \<open>Steps that leave the keys alone\<close>

definition knows ::
    "('d \<Rightarrow> utf16 \<rightharpoonup> key_info) \<Rightarrow> ('d \<Rightarrow> nCryptKeyHandle \<rightharpoonup> utf16 \<times> key_info) \<Rightarrow> (utf16 \<rightharpoonup> key_info)
     \<Rightarrow> (nCryptKeyHandle \<rightharpoonup> utf16 \<times> key_info) \<Rightarrow> 'd \<Rightarrow> bool" where
  "knows keys handles K H d \<longleftrightarrow> keys d = K \<and> H \<subseteq>\<^sub>m handles d"

abbreviation known ::
    "('d \<Rightarrow> utf16 \<rightharpoonup> key_info) \<Rightarrow> ('d \<Rightarrow> nCryptKeyHandle \<rightharpoonup> utf16 \<times> key_info) \<Rightarrow> (utf16 \<rightharpoonup> key_info)
     \<Rightarrow> (nCryptKeyHandle \<rightharpoonup> utf16 \<times> key_info) \<Rightarrow> 'd win \<Rightarrow> bool" where
  "known keys handles K H w \<equiv> knows keys handles K H (win_dev w)"

lemma win_dev_ev [simp]: "win_dev (win_ev e w) = win_dev w"
  by (simp add: win_ev_def)

lemma kt_utf16ptr:
  assumes "\<And>us. UTF16PtrFromString nc s = Inr us \<Longrightarrow> triple P (k us) Q"
    and "\<And>e w. P w \<Longrightarrow> Q (Fail e) w"
  shows "triple P (gbind (utf16ptr nc msg s) k) Q"
proof (cases "UTF16PtrFromString nc s")
  case (Inl e)
  with assms(2) show ?thesis
    by (auto simp: triple_def gbind_def utf16ptr_def on_err_def of_sum_def fail_def)
next
  case (Inr us)
  then have "gbind (utf16ptr nc msg s) k = k us"
    by (auto simp: gbind_def utf16ptr_def on_err_def of_sum_def ret_def)
  with assms(1) [OF Inr] show ?thesis by simp
qed

text \<open>A provider call: \<open>I\<close> is what is known after it when its status is not zero, \<open>R x\<close> when it is.\<close>

lemma kt_status_call:
  assumes f: "\<And>d st x d'. knows keys handles K H d \<Longrightarrow> f d = ((st, x), d') \<Longrightarrow>
      (if st = 0 then R x d' else keys d' = K)"
    and k: "\<And>x. triple (\<lambda>w. R x (win_dev w)) (k x) Q"
    and "\<And>e w. keys (win_dev w) = K \<Longrightarrow> Q (Fail e) w"
  shows "triple (known keys handles K H) (gbind (status_call msg f) k) Q"
proof (rule tripleI)
  fix w r w'
  assume w: "known keys handles K H w" and g: "gbind (status_call msg f) k w = (r, w')"
  obtain st x d where fd: "f (win_dev w) = ((st, x), d)" by (metis surj_pair)
  from f [OF w fd] have d: "if st = 0 then R x d else keys d = K" .
  show "Q r w'"
  proof (cases "st = 0")
    case True
    with g fd have "k x (w\<lparr>win_dev := d\<rparr>) = (r, w')" by (simp add: gbind_def status_call_def)
    from tripleD [OF k this] d True show ?thesis by simp
  next
    case False
    with g fd have "r = Fail (Errorf msg [FInt (uint st)])" "w' = w\<lparr>win_dev := d\<rparr>"
      by (simp_all add: gbind_def status_call_def)
    with assms(3) [of w'] d False show ?thesis by simp
  qed
qed

lemma kt_key_call:
  assumes "\<And>d st x d'. knows keys handles K H d \<Longrightarrow> f d = ((st, x), d') \<Longrightarrow>
      (if st = 0 then R x d' else keys d' = K)"
    and "\<And>x. triple (\<lambda>w. R x (win_dev w)) (k x) Q"
    and "\<And>e w. keys (win_dev w) = K \<Longrightarrow> Q (Fail e) w"
  shows "triple (known keys handles K H) (gbind (key_call h msg f) k) Q"
proof (rule tripleI)
  fix w r w'
  assume w: "known keys handles K H w" and "gbind (key_call h msg f) k w = (r, w')"
  then have "gbind (status_call msg f) k (win_ev (Use (WinKey h)) w) = (r, w')"
    by (simp add: gbind_def key_call_def)
  from tripleD [OF kt_status_call [where R = R, OF assms] this] w show "Q r w'" by simp
qed

lemma kt_quiet:
  assumes "quiet_call keys handles f" and "knows keys handles K H d" and "f d = ((st, x), d')"
  shows "if st = 0 then knows keys handles K H d' else keys d' = K"
proof -
  have "keys d' = keys d" "handles d \<subseteq>\<^sub>m handles d'"
    using assms(1) [unfolded quiet_call_def, rule_format, of d] assms(3) by simp_all
  with assms(2) map_le_trans [of H "handles d" "handles d'"] show ?thesis by (simp add: knows_def)
qed

lemma kt_quiet_status:
  assumes "quiet_call keys handles f" and "\<And>x. triple (known keys handles K H) (k x) Q"
    and "\<And>e w. keys (win_dev w) = K \<Longrightarrow> Q (Fail e) w"
  shows "triple (known keys handles K H) (gbind (status_call msg f) k) Q"
  by (rule kt_status_call [where R = "\<lambda>_. knows keys handles K H"]) (use kt_quiet [OF assms(1)] assms(2,3) in blast)+

lemma kt_quiet_key:
  assumes "quiet_call keys handles f" and "\<And>x. triple (known keys handles K H) (k x) Q"
    and "\<And>e w. keys (win_dev w) = K \<Longrightarrow> Q (Fail e) w"
  shows "triple (known keys handles K H) (gbind (key_call h msg f) k) Q"
  by (rule kt_key_call [where R = "\<lambda>_. knows keys handles K H"]) (use kt_quiet [OF assms(1)] assms(2,3) in blast)+

lemma kt_openProvider:
  assumes "provider_laws nc keys handles"
    and "\<And>p. triple (known keys handles K H) (k p) Q"
    and "\<And>e w. keys (win_dev w) = K \<Longrightarrow> Q (Fail e) w"
  shows "triple (known keys handles K H) (gbind (openProvider nc) k) Q"
proof -
  have "triple (known keys handles K H) (\<lambda>w. k p (win_ev (Acq (WinProv p)) w)) Q" for p
    using assms(2) [of p] by (simp add: triple_def)
  then have "triple (known keys handles K H) (gbind (\<lambda>w. (Ret p, win_ev (Acq (WinProv p)) w)) k) Q" for p
    unfolding gbind_def by simp
  then show ?thesis
    unfolding openProvider_def gbind_assoc
    by (intro kt_utf16ptr kt_quiet_status assms(3)) (use assms(1) in \<open>simp_all add: provider_laws_def knows_def assms(3)\<close>)
qed

text \<open>Freeing a handle when the call did not succeed changes no key.\<close>

lemma kt_unless_success:
  assumes "triple P f Q" and "\<And>r w. \<not> returned r \<Longrightarrow> Q r w \<Longrightarrow> Q r (free w)"
  shows "triple P (unless_success free f) Q"
  unfolding unless_success_def by (rule triple_deferred [OF assms(1)]) (use assms(2) in auto)

lemma kt_free:
  assumes "provider_laws nc keys handles"
  shows "keys (win_dev (freeProv nc h w)) = keys (win_dev w)" "keys (win_dev (freeKey nc h w)) = keys (win_dev w)"
  using assms by (simp_all add: freeProv_def freeKey_def provider_laws_def)

text \<open>Reading the public key back leaves everything known.\<close>

lemma knows_keys: "knows keys handles K H d \<Longrightarrow> keys d = K"
  by (simp add: knows_def)

lemma kt_export:
  assumes l: "provider_laws nc keys handles"
  shows "triple (known keys handles K H) (exportECCPublicKey nc h)
    (\<lambda>r w. keys (win_dev w) = K \<and> (returned r \<longrightarrow> known keys handles K H w))"
proof -
  have q: "quiet_call keys handles (nCryptExportKey nc h t buf)" for t buf
    using l by (simp add: provider_laws_def)
  have "triple (known keys handles K H) (on_err g (of_sum x))
      (\<lambda>r w. keys (win_dev w) = K \<and> (returned r \<longrightarrow> known keys handles K H w))" for g and x :: "go_err + ecdsa_pub"
    by (cases x) (auto simp: triple_def on_err_def of_sum_def ret_def fail_def dest: knows_keys)
  moreover have "triple (known keys handles K H) (panic m)
      (\<lambda>r w. keys (win_dev w) = K \<and> (returned r \<longrightarrow> known keys handles K H w))" for m
    by (auto simp: triple_def panic_def dest: knows_keys)
  ultimately show ?thesis
    unfolding exportECCPublicKey_def
    by (intro kt_utf16ptr kt_quiet_key q) (auto intro!: kt_quiet_key q dest: knows_keys)
qed

lemma kt_gbind_export:
  assumes l: "provider_laws nc keys handles" and k: "\<And>pub. triple (known keys handles K H) (k pub) Q"
    and "\<And>v e w. exportECCPublicKey nc h v = (Fail e, w) \<Longrightarrow> keys (win_dev w) = K \<Longrightarrow> Q (Fail e) w"
    and "\<And>v p w. exportECCPublicKey nc h v = (Panic p, w) \<Longrightarrow> keys (win_dev w) = K \<Longrightarrow> Q (Panic p) w"
  shows "triple (known keys handles K H) (gbind (exportECCPublicKey nc h) k) Q"
proof (rule tripleI)
  fix v r w'
  assume v: "known keys handles K H v" and g: "gbind (exportECCPublicKey nc h) k v = (r, w')"
  obtain x w where e: "exportECCPublicKey nc h v = (x, w)" by fastforce
  from tripleD [OF kt_export [OF l] e v]
  have K: "keys (win_dev w) = K" and kn: "returned x \<Longrightarrow> known keys handles K H w" by simp_all
  show "Q r w'"
  proof (cases x)
    case (Ret pub)
    with g e have "k pub w = (r, w')" by (simp add: gbind_def)
    from tripleD [OF k this] kn Ret show ?thesis by simp
  next
    case (Fail er)
    with g e assms(3) [of v er w] K show ?thesis by (simp add: gbind_def)
  next
    case (Panic p)
    with g e assms(4) [of v p w] K show ?thesis by (simp add: gbind_def)
  qed
qed

section \<open>The operations\<close>

text \<open>What \<^verbatim>\<open>createKey\<close>, \<^verbatim>\<open>loadKey\<close> and \<^verbatim>\<open>deleteKey\<close> did, from the keys \<open>K\<close> that were stored before.\<close>

definition export_failed :: "'d ncrypt \<Rightarrow> tpm_signer_windows outcome \<Rightarrow> bool" where
  "export_failed nc r \<longleftrightarrow>
     (\<exists>h v. case r of Ret s \<Rightarrow> False
        | Fail e \<Rightarrow> fst (exportECCPublicKey nc h v) = Fail e
        | Panic p \<Rightarrow> fst (exportECCPublicKey nc h v) = Panic p)"

definition new_key :: "'d ncrypt \<Rightarrow> key_info \<Rightarrow> bool" where
  "new_key nc k \<longleftrightarrow> (\<exists>alg. UTF16PtrFromString nc nCryptECDSAP256Algorithm = Inr alg \<and>
     k = KeyInfo alg (Some (put_le32 nCryptAllowSigningFlag)))"

definition key_created ::
    "'d ncrypt \<Rightarrow> ('d \<Rightarrow> utf16 \<rightharpoonup> key_info) \<Rightarrow> ('d \<Rightarrow> nCryptKeyHandle \<rightharpoonup> utf16 \<times> key_info) \<Rightarrow> string
     \<Rightarrow> (utf16 \<rightharpoonup> key_info) \<Rightarrow> tpm_signer_windows outcome \<Rightarrow> 'd win \<Rightarrow> bool" where
  "key_created nc keys handles name K r w \<longleftrightarrow>
     (if keys (win_dev w) = K then \<not> returned r
      else (\<exists>us k. UTF16PtrFromString nc name = Inr us \<and> K us = None \<and> new_key nc k \<and>
         keys (win_dev w) = K(us \<mapsto> k) \<and>
         (case r of Ret s \<Rightarrow> handles (win_dev w) (sw_hKey s) = Some (us, k) | _ \<Rightarrow> export_failed nc r)))"

definition key_loaded ::
    "'d ncrypt \<Rightarrow> ('d \<Rightarrow> utf16 \<rightharpoonup> key_info) \<Rightarrow> ('d \<Rightarrow> nCryptKeyHandle \<rightharpoonup> utf16 \<times> key_info) \<Rightarrow> string
     \<Rightarrow> (utf16 \<rightharpoonup> key_info) \<Rightarrow> tpm_signer_windows outcome \<Rightarrow> 'd win \<Rightarrow> bool" where
  "key_loaded nc keys handles name K r w \<longleftrightarrow> keys (win_dev w) = K \<and>
     (case r of
        Ret s \<Rightarrow> (\<exists>us k. UTF16PtrFromString nc name = Inr us \<and> K us = Some k \<and>
          handles (win_dev w) (sw_hKey s) = Some (us, k))
      | _ \<Rightarrow> True)"

definition key_removed ::
    "'d ncrypt \<Rightarrow> ('d \<Rightarrow> utf16 \<rightharpoonup> key_info) \<Rightarrow> string \<Rightarrow> (utf16 \<rightharpoonup> key_info) \<Rightarrow> unit outcome \<Rightarrow> 'd win \<Rightarrow> bool" where
  "key_removed nc keys name K r w \<longleftrightarrow>
     (if returned r then (\<exists>us. UTF16PtrFromString nc name = Inr us \<and> K us \<noteq> None \<and> keys (win_dev w) = K(us := None))
      else keys (win_dev w) = K)"

lemma created_keys:
  assumes "\<not> returned r" and "key_created nc keys handles name K r w" and e: "keys (win_dev w') = keys (win_dev w)"
  shows "key_created nc keys handles name K r w'"
proof (cases r)
  case (Fail er)
  from assms(2) show ?thesis unfolding key_created_def Fail e outcome.case .
next
  case (Panic p)
  from assms(2) show ?thesis unfolding key_created_def Panic e outcome.case .
qed (use assms(1) in simp)

lemma created_free:
  assumes "provider_laws nc keys handles" and "\<not> returned r" and "key_created nc keys handles name K r w"
  shows "key_created nc keys handles name K r (freeProv nc h w)" "key_created nc keys handles name K r (freeKey nc h w)"
  by (rule created_keys [OF assms(2,3) kt_free(1) [OF assms(1)]], rule created_keys [OF assms(2,3) kt_free(2) [OF assms(1)]])

lemma created_not: "keys (win_dev w) = K \<Longrightarrow> key_created nc keys handles name K (Fail e) w"
  by (simp add: key_created_def)

text \<open>The laws, one at a time.\<close>

lemma provided_create: "provider_laws nc keys handles \<Longrightarrow> create_law nc keys handles"
  by (simp add: provider_laws_def)

lemma provided_usage: "provider_laws nc keys handles \<Longrightarrow> usage_law nc keys handles"
  by (simp add: provider_laws_def)

lemma provided_finalize: "provider_laws nc keys handles \<Longrightarrow> finalize_law nc keys handles"
  by (simp add: provider_laws_def)

lemma provided_open: "provider_laws nc keys handles \<Longrightarrow> open_law nc keys handles"
  by (simp add: provider_laws_def)

lemma provided_delete: "provider_laws nc keys handles \<Longrightarrow> delete_law nc keys handles"
  by (simp add: provider_laws_def)

lemma law_create:
  "provider_laws nc keys handles \<Longrightarrow> nCryptCreatePersistedKey nc p alg n d = ((st, h), d') \<Longrightarrow>
    keys d' = keys d \<and> (st = 0 \<longrightarrow> keys d n = None \<and> handles d' h = Some (n, KeyInfo alg None))"
  by (drule provided_create) (unfold create_law_def, blast)

lemma law_usage:
  "provider_laws nc keys handles \<Longrightarrow> handles d h = Some (n, KeyInfo alg u) \<Longrightarrow>
    UTF16PtrFromString nc ''Key Usage'' = Inr pty \<Longrightarrow> nCryptSetProperty nc h pty bs d = ((st, x), d') \<Longrightarrow>
    keys d' = keys d \<and> (st = 0 \<longrightarrow> handles d' h = Some (n, KeyInfo alg (Some bs)))"
  by (drule provided_usage) (unfold usage_law_def, blast)

lemma law_finalize:
  "provider_laws nc keys handles \<Longrightarrow> handles d h = Some (n, k) \<Longrightarrow> nCryptFinalizeKey nc h d = ((st, x), d') \<Longrightarrow>
    keys d' = (if st = 0 then (keys d)(n \<mapsto> k) else keys d) \<and> handles d \<subseteq>\<^sub>m handles d'"
  by (drule provided_finalize) (unfold finalize_law_def, blast)

lemma law_open:
  "provider_laws nc keys handles \<Longrightarrow> nCryptOpenKey nc p n d = ((st, h), d') \<Longrightarrow>
    keys d' = keys d \<and> (st = 0 \<longrightarrow> (\<exists>k. keys d n = Some k \<and> handles d' h = Some (n, k)))"
  by (drule provided_open) (unfold open_law_def, blast)

lemma law_delete:
  "provider_laws nc keys handles \<Longrightarrow> handles d h = Some (n, k) \<Longrightarrow> nCryptDeleteKey nc h d = (st, d') \<Longrightarrow>
    keys d' = (if st = 0 then (keys d)(n := None) else keys d)"
  by (drule provided_delete) (unfold delete_law_def, blast)

text \<open>Once the new key is finalized, only the export can still fail.\<close>

lemma created_new:
  assumes "UTF16PtrFromString nc name = Inr us" and "K us = None" and "new_key nc k"
    and "keys (win_dev w) = K(us \<mapsto> k)"
    and "case r of Ret s \<Rightarrow> handles (win_dev w) (sw_hKey s) = Some (us, k) | _ \<Rightarrow> export_failed nc r"
  shows "key_created nc keys handles name K r w"
proof -
  have "K(us \<mapsto> k) \<noteq> K" using assms(2) by (metis fun_upd_same option.distinct(1))
  then have "keys (win_dev w) \<noteq> K" using assms(4) by simp
  then show ?thesis unfolding key_created_def using assms by (simp only: if_False) blast
qed

lemma export_failed_intros:
  "exportECCPublicKey nc h v = (Fail e, w) \<Longrightarrow> export_failed nc (Fail e)"
  "exportECCPublicKey nc h v = (Panic m, w) \<Longrightarrow> export_failed nc (Panic m)"
  by (auto simp: export_failed_def intro!: exI [of _ h] exI [of _ v])

lemma kt_createKey:
  assumes l: "provider_laws nc keys handles"
  shows "triple (known keys handles K Map.empty) (createKey_windows nc name) (key_created nc keys handles name K)"
  unfolding createKey_windows_def
proof (intro kt_openProvider [OF l] kt_unless_success kt_utf16ptr created_free [OF l] created_not)
  fix p alg us
  assume alg: "UTF16PtrFromString nc ''ECDSA_P256'' = Inr alg" and us: "UTF16PtrFromString nc name = Inr us"
  let ?h0 = "\<lambda>h. [h \<mapsto> (us, KeyInfo alg None)]" and ?k = "KeyInfo alg (Some (put_le32 2))"
  let ?h1 = "\<lambda>h. [h \<mapsto> (us, ?k)]"
  have nk: "new_key nc ?k" using alg by (simp add: new_key_def)
  show "triple (known keys handles K Map.empty)
      (gbind (status_call ''create persisted key: 0x%08x'' (nCryptCreatePersistedKey nc p alg us))
        (\<lambda>hKey w. unless_success (freeKey nc hKey) (
           gbind (utf16ptr nc ''convert key usage property: %w'' ''Key Usage'') (\<lambda>usageProp.
           gbind (key_call hKey ''set key usage: 0x%08x'' (nCryptSetProperty nc hKey usageProp (put_le32 2))) (\<lambda>_.
           gbind (key_call hKey ''finalize key: 0x%08x'' (nCryptFinalizeKey nc hKey)) (\<lambda>_.
           gbind (exportECCPublicKey nc hKey) (\<lambda>pub.
           ret \<lparr>sw_hProv = p, sw_hKey = hKey, sw_pub = pub\<rparr>)))))
           (win_ev (Acq (WinKey hKey)) w))) (key_created nc keys handles name K)"
  proof (rule kt_status_call [where R = "\<lambda>h d. K us = None \<and> knows keys handles K (?h0 h) d"])
    fix d st h d'
    assume "knows keys handles K Map.empty d" and "nCryptCreatePersistedKey nc p alg us d = ((st, h), d')"
    with law_create [OF l, of p alg us d st h d']
    show "if st = 0 then K us = None \<and> knows keys handles K (?h0 h) d' else keys d' = K"
      by (auto simp: knows_def map_le_def)
  next
    fix h
    have free: "key_created nc keys handles name K r (freeKey nc h w)"
      if "\<not> returned r" "key_created nc keys handles name K r w" for r w
      using created_free [OF l that] by blast
    let ?body = "gbind (utf16ptr nc ''convert key usage property: %w'' ''Key Usage'') (\<lambda>usageProp.
       gbind (key_call h ''set key usage: 0x%08x'' (nCryptSetProperty nc h usageProp (put_le32 2))) (\<lambda>_.
       gbind (key_call h ''finalize key: 0x%08x'' (nCryptFinalizeKey nc h)) (\<lambda>_.
       gbind (exportECCPublicKey nc h) (\<lambda>pub. ret \<lparr>sw_hProv = p, sw_hKey = h, sw_pub = pub\<rparr>))))"
    have body: "triple (known keys handles K (?h0 h)) ?body (key_created nc keys handles name K)" if new: "K us = None"
    proof (rule kt_utf16ptr)
      fix pty assume pty: "UTF16PtrFromString nc ''Key Usage'' = Inr pty"
      show "triple (known keys handles K (?h0 h))
          (gbind (key_call h ''set key usage: 0x%08x'' (nCryptSetProperty nc h pty (put_le32 2))) (\<lambda>_.
           gbind (key_call h ''finalize key: 0x%08x'' (nCryptFinalizeKey nc h)) (\<lambda>_.
           gbind (exportECCPublicKey nc h) (\<lambda>pub. ret \<lparr>sw_hProv = p, sw_hKey = h, sw_pub = pub\<rparr>))))
          (key_created nc keys handles name K)"
      proof (rule kt_key_call [where R = "\<lambda>_. knows keys handles K (?h1 h)"])
        fix d st x d'
        assume "knows keys handles K (?h0 h) d" and "nCryptSetProperty nc h pty (put_le32 2) d = ((st, x), d')"
        with law_usage [OF l, of d h us alg None pty "put_le32 2" st x d'] pty
        show "if st = 0 then knows keys handles K (?h1 h) d' else keys d' = K"
          by (simp add: knows_def map_le_def)
      next
        show "triple (known keys handles K (?h1 h))
          (gbind (key_call h ''finalize key: 0x%08x'' (nCryptFinalizeKey nc h)) (\<lambda>_.
           gbind (exportECCPublicKey nc h) (\<lambda>pub. ret \<lparr>sw_hProv = p, sw_hKey = h, sw_pub = pub\<rparr>)))
          (key_created nc keys handles name K)"
        proof (rule kt_key_call [where R = "\<lambda>_. knows keys handles (K(us \<mapsto> ?k)) (?h1 h)"])
          fix d st x d'
          assume "knows keys handles K (?h1 h) d" and "nCryptFinalizeKey nc h d = ((st, x), d')"
          with law_finalize [OF l, of d h us ?k st x d']
          show "if st = 0 then knows keys handles (K(us \<mapsto> ?k)) (?h1 h) d' else keys d' = K"
            by (auto simp: knows_def map_le_def split: if_splits)
        next
          show "triple (known keys handles (K(us \<mapsto> ?k)) (?h1 h))
              (gbind (exportECCPublicKey nc h) (\<lambda>pub. ret \<lparr>sw_hProv = p, sw_hKey = h, sw_pub = pub\<rparr>))
              (key_created nc keys handles name K)"
            by (intro kt_gbind_export [OF l] triple_ret created_new [where us = us and k = ?k])
              (auto simp: us new nk knows_def map_le_def export_failed_intros)
        qed (simp add: created_not)
      qed (simp add: created_not)
    qed (simp add: created_not knows_def)
    have "triple (known keys handles K (?h0 h)) (\<lambda>w. unless_success (freeKey nc h) ?body (win_ev (Acq (WinKey h)) w))
        (key_created nc keys handles name K)" if "K us = None"
      using kt_unless_success [OF body [OF that], of "freeKey nc h", OF free] by (auto simp: triple_def)
    then show "triple (\<lambda>w. K us = None \<and> knows keys handles K (?h0 h) (win_dev w))
        (\<lambda>w. unless_success (freeKey nc h) ?body (win_ev (Acq (WinKey h)) w)) (key_created nc keys handles name K)"
      by (auto simp: triple_def)
  qed (simp add: created_not)
qed (simp_all add: created_not knows_def)

lemma kt_loadKey:
  assumes l: "provider_laws nc keys handles"
  shows "triple (known keys handles K Map.empty) (loadKey_windows nc name) (key_loaded nc keys handles name K)"
proof -
  have none: "key_loaded nc keys handles name K (Fail e) w" if "keys (win_dev w) = K" for e w
    using that by (simp add: key_loaded_def)
  have free: "key_loaded nc keys handles name K r (freeKey nc h w)" "key_loaded nc keys handles name K r (freeProv nc h w)"
    if "\<not> returned r" "key_loaded nc keys handles name K r w" for r w h
    using that kt_free [OF l] by (cases r; simp add: key_loaded_def)+
  have key: "triple (\<lambda>w. \<exists>k. K us = Some k \<and> knows keys handles K [h \<mapsto> (us, k)] (win_dev w))
      (\<lambda>w. unless_success (freeKey nc h) (gbind (exportECCPublicKey nc h) (\<lambda>pub. ret \<lparr>sw_hProv = p, sw_hKey = h, sw_pub = pub\<rparr>))
        (win_ev (Acq (WinKey h)) w)) (key_loaded nc keys handles name K)"
    if us: "UTF16PtrFromString nc name = Inr us" for us h p
  proof -
    have "triple (known keys handles K [h \<mapsto> (us, k)])
        (gbind (exportECCPublicKey nc h) (\<lambda>pub. ret \<lparr>sw_hProv = p, sw_hKey = h, sw_pub = pub\<rparr>))
        (key_loaded nc keys handles name K)" if "K us = Some k" for k
      by (intro kt_gbind_export [OF l] triple_ret)
        (use that us in \<open>auto simp: key_loaded_def knows_def map_le_def\<close>)
    from kt_unless_success [OF this, of _ "freeKey nc h", OF _ free(1)] show ?thesis by (auto simp: triple_def)
  qed
  show ?thesis
    unfolding loadKey_windows_def
  proof (intro kt_openProvider [OF l] kt_unless_success kt_utf16ptr none free)
    fix p us
    assume us: "UTF16PtrFromString nc name = Inr us"
    show "triple (known keys handles K Map.empty)
        (gbind (status_call ''open key: 0x%08x'' (nCryptOpenKey nc p us))
          (\<lambda>hKey w. unless_success (freeKey nc hKey) (
             gbind (exportECCPublicKey nc hKey) (\<lambda>pub. ret \<lparr>sw_hProv = p, sw_hKey = hKey, sw_pub = pub\<rparr>))
             (win_ev (Acq (WinKey hKey)) w))) (key_loaded nc keys handles name K)"
    proof (rule kt_status_call [where R = "\<lambda>h d. \<exists>k. K us = Some k \<and> knows keys handles K [h \<mapsto> (us, k)] d"])
      fix d st h d'
      assume "knows keys handles K Map.empty d" and "nCryptOpenKey nc p us d = ((st, h), d')"
      with law_open [OF l, of p us d st h d']
      show "if st = 0 then \<exists>k. K us = Some k \<and> knows keys handles K [h \<mapsto> (us, k)] d' else keys d' = K"
        by (auto simp: knows_def map_le_def)
    qed (simp_all add: none key [OF us])
  qed (simp_all add: knows_def)
qed

lemma kt_deleteKey:
  assumes l: "provider_laws nc keys handles"
  shows "triple (known keys handles K Map.empty) (deleteKey_windows nc name) (key_removed nc keys name K)"
proof -
  have none: "key_removed nc keys name K (Fail e) w" if "keys (win_dev w) = K" for e w
    using that by (simp add: key_removed_def)
  have free: "key_removed nc keys name K r (freeProv nc h w)" if "key_removed nc keys name K r w" for r w h
    using that by (simp only: key_removed_def kt_free [OF l])
  have key: "triple (\<lambda>w. \<exists>k. K us = Some k \<and> knows keys handles K [h \<mapsto> (us, k)] (win_dev w))
      (\<lambda>w. deleteHandle nc h (win_ev (Acq (WinKey h)) w)) (key_removed nc keys name K)"
    if us: "UTF16PtrFromString nc name = Inr us" for us h
  proof (rule tripleI)
    fix w :: "'a win" and r w'
    assume "\<exists>k. K us = Some k \<and> knows keys handles K [h \<mapsto> (us, k)] (win_dev w)"
    then obtain k where k: "K us = Some k" "keys (win_dev w) = K" "handles (win_dev w) h = Some (us, k)"
      by (auto simp: knows_def map_le_def)
    obtain st d where d: "nCryptDeleteKey nc h (win_dev w) = (st, d)" by fastforce
    have kd: "keys d = (if st = 0 then K(us := None) else K)" using law_delete [OF l k(3) d] k(2) by simp
    assume "deleteHandle nc h (win_ev (Acq (WinKey h)) w) = (r, w')"
    with d kd k(1) us kt_free [OF l] show "key_removed nc keys name K r w'"
      by (auto simp: deleteHandle_def Let_def key_removed_def split: if_splits)
  qed
  show ?thesis
    unfolding deleteKey_windows_def
  proof (intro kt_openProvider [OF l] none)
    fix p
    have "triple (known keys handles K Map.empty)
       (gbind (utf16ptr nc ''convert key name: %w'' name) (\<lambda>keyName.
       gbind (status_call ''open key: 0x%08x'' (nCryptOpenKey nc p keyName))
         (\<lambda>hKey w. deleteHandle nc hKey (win_ev (Acq (WinKey hKey)) w)))) (key_removed nc keys name K)"
    proof (intro kt_utf16ptr none)
      fix us assume us: "UTF16PtrFromString nc name = Inr us"
      show "triple (known keys handles K Map.empty)
          (gbind (status_call ''open key: 0x%08x'' (nCryptOpenKey nc p us))
            (\<lambda>hKey w. deleteHandle nc hKey (win_ev (Acq (WinKey hKey)) w))) (key_removed nc keys name K)"
      proof (rule kt_status_call [where R = "\<lambda>h d. \<exists>k. K us = Some k \<and> knows keys handles K [h \<mapsto> (us, k)] d"])
        fix d st h d'
        assume "knows keys handles K Map.empty d" and "nCryptOpenKey nc p us d = ((st, h), d')"
        with law_open [OF l, of p us d st h d']
        show "if st = 0 then \<exists>k. K us = Some k \<and> knows keys handles K [h \<mapsto> (us, k)] d' else keys d' = K"
          by (auto simp: knows_def map_le_def)
      qed (simp_all add: none key [OF us])
    qed (simp add: knows_def)
    then show "triple (known keys handles K Map.empty) (deferred (\<lambda>_ w. freeProv nc p w)
       (gbind (utf16ptr nc ''convert key name: %w'' name) (\<lambda>keyName.
       gbind (status_call ''open key: 0x%08x'' (nCryptOpenKey nc p keyName))
         (\<lambda>hKey w. deleteHandle nc hKey (win_ev (Acq (WinKey hKey)) w))))) (key_removed nc keys name K)"
      by (rule triple_deferred) (rule free)
  qed
qed

lemma kt_Sign:
  assumes l: "provider_laws nc keys handles"
  shows "keys (win_dev (snd (tpmSigner_Sign_windows nc s digest opts w))) = keys (win_dev w)"
proof -
  have q: "quiet_call keys handles (nCryptSignHash nc h b buf)" for h b buf
    using l by (simp add: provider_laws_def)
  let ?Q = "\<lambda>_ v. keys (win_dev v) = keys (win_dev w)"
  have leaf: "triple (known keys handles (keys (win_dev w)) Map.empty) (panic m) ?Q"
    "triple (known keys handles (keys (win_dev w)) Map.empty) (of_sum x) ?Q" for m and x :: "go_err + bytes"
    by (auto simp: triple_def panic_def of_sum_def ret_def fail_def dest: knows_keys split: sum.split)
  have "triple (known keys handles (keys (win_dev w)) Map.empty)
      (gbind (signHash nc (sw_hKey s) digest) (\<lambda>sig. of_sum (rawToDER sig))) ?Q"
    unfolding signHash_def gbind_assoc
    by (intro kt_quiet_key q)
      (auto simp: gbind_assoc ret_gbind panic_gbind leaf intro!: kt_quiet_key q dest: knows_keys)
  then have "?Q () (snd (gbind (signHash nc (sw_hKey s) digest) (\<lambda>sig. of_sum (rawToDER sig)) w))"
    by (simp add: triple_def knows_def)
  then show ?thesis
    by (auto simp: tpmSigner_Sign_windows_def fail_def panic_def split: signer_opts.split)
qed

lemma kt_Close:
  "provider_laws nc keys handles \<Longrightarrow>
    keys (win_dev (snd (snd (tpmSigner_Close_windows nc (s, w))))) = keys (win_dev w)"
  by (simp add: tpmSigner_Close_windows_def Let_def kt_free)


section \<open>A provider in memory\<close>

type_synonym soft_keys = "(utf16 \<times> key_info) list \<times> (nCryptKeyHandle \<times> utf16 \<times> key_info) list"

definition soft_keys :: "soft_keys \<Rightarrow> utf16 \<rightharpoonup> key_info" where "soft_keys d = map_of (fst d)"

definition soft_handles :: "soft_keys \<Rightarrow> nCryptKeyHandle \<rightharpoonup> utf16 \<times> key_info" where
  "soft_handles d = map_of (snd d)"

definition soft_open :: "utf16 \<Rightarrow> key_info \<Rightarrow> soft_keys \<Rightarrow> (security_status \<times> nCryptKeyHandle) \<times> soft_keys" where
  "soft_open n k d = (let h = word_of_nat (2 + length (snd d)) in ((0, h), (fst d, (h, n, k) # snd d)))"

definition soft_provider :: "soft_keys ncrypt" where
  "soft_provider =
     \<lparr>UTF16PtrFromString = (\<lambda>s. if CHR 0x00 \<in> set s then Inl (Ext ''invalid argument'') else Inr (map (\<lambda>c. word_of_nat (of_char c)) s)),
      nCryptOpenStorageProvider = (\<lambda>_ d. ((0, 1), d)),
      nCryptCreatePersistedKey = (\<lambda>_ alg n d.
        if map_of (fst d) n = None then soft_open n (KeyInfo alg None) d else ((0x8009000F, 0), d)),
      nCryptOpenKey = (\<lambda>_ n d. case map_of (fst d) n of Some k \<Rightarrow> soft_open n k d | None \<Rightarrow> ((0x80090016, 0), d)),
      nCryptDeleteKey = (\<lambda>h d. case map_of (snd d) h of
        Some (n, k) \<Rightarrow> (0, (filter (\<lambda>e. fst e \<noteq> n) (fst d), snd d)) | None \<Rightarrow> (0x80090026, d)),
      nCryptSetProperty = (\<lambda>h _ bs d. case map_of (snd d) h of
        Some (n, KeyInfo alg u) \<Rightarrow> ((0, ()), (fst d, (h, n, KeyInfo alg (Some bs)) # snd d)) | None \<Rightarrow> ((0x80090026, ()), d)),
      nCryptFinalizeKey = (\<lambda>h d. case map_of (snd d) h of
        Some e \<Rightarrow> ((0, ()), (e # fst d, snd d)) | None \<Rightarrow> ((0x80090026, ()), d)),
      nCryptExportKey = (\<lambda>_ _ _ d. ((0, eccBlob (replicate 32 7) (replicate 32 9), 72), d)),
      nCryptSignHash = (\<lambda>_ _ _ d. ((0, replicate 64 1, 64), d)),
      nCryptFreeObject = (\<lambda>_ d. (0, d))\<rparr>"

lemma soft_provider_laws: "provider_laws soft_provider soft_keys soft_handles"
proof -
  have "map_of (filter (\<lambda>e. fst e \<noteq> n) xs) = (map_of xs)(n := None)" for n and xs :: "(utf16 \<times> key_info) list"
    by (induction xs) (auto simp: fun_eq_iff)
  then have "create_law soft_provider soft_keys soft_handles" "usage_law soft_provider soft_keys soft_handles"
    "finalize_law soft_provider soft_keys soft_handles" "open_law soft_provider soft_keys soft_handles"
    "delete_law soft_provider soft_keys soft_handles"
    by (auto simp: create_law_def usage_law_def finalize_law_def open_law_def delete_law_def soft_provider_def
        soft_keys_def soft_handles_def soft_open_def Let_def split: option.splits if_splits prod.splits key_info.splits)
  then show ?thesis
    by (simp add: provider_laws_def quiet_call_def soft_provider_def soft_keys_def soft_handles_def)
qed

lemma soft_create_returns:
  "returned (fst (createKey_windows soft_provider ''k'' \<lparr>win_dev = ([], []), win_log = []\<rparr>))"
proof -
  have p: "parseECCPublicBlob (filled 72 (eccBlob (replicate 32 7) (replicate 32 9))) =
      Inr \<lparr>pk_curve = P256, pk_x = int (nat_of_bytes (replicate 32 7)), pk_y = int (nat_of_bytes (replicate 32 9))\<rparr>"
    using parse_eccBlob [of "replicate 32 7" "replicate 32 9" "[]"] by (simp add: filled_def eccBlob_def)
  show ?thesis
    by (simp add: createKey_windows_def openProvider_def utf16ptr_def status_call_def key_call_def unless_success_def
        exportECCPublicKey_def soft_provider_def soft_open_def win_ev_def go_defs p Let_def)
qed


section \<open>The contract about stored keys\<close>

text \<open>A provider with the documented behaviour keeps the contract, but for the key a failed export leaves.\<close>

definition windows_added ::
    "'d ncrypt \<Rightarrow> string \<Rightarrow> (utf16 \<rightharpoonup> key_info) \<Rightarrow> (utf16 \<rightharpoonup> key_info) \<Rightarrow> bool" where
  "windows_added nc name K K' \<longleftrightarrow>
     (\<exists>us k. UTF16PtrFromString nc name = Inr us \<and> K us = None \<and> new_key nc k \<and> K' = K(us \<mapsto> k))"

definition windows_removed ::
    "'d ncrypt \<Rightarrow> string \<Rightarrow> (utf16 \<rightharpoonup> key_info) \<Rightarrow> (utf16 \<rightharpoonup> key_info) \<Rightarrow> bool" where
  "windows_removed nc name K K' \<longleftrightarrow>
     (\<exists>us. UTF16PtrFromString nc name = Inr us \<and> K us \<noteq> None \<and> K' = K(us := None))"

lemma deleteKey_windows_no_panic: "fst (deleteKey_windows nc name w) \<noteq> Panic m"
  by (auto simp: deleteKey_windows_def openProvider_def utf16ptr_def status_call_def deleteHandle_def deferred_def
      gbind_def on_err_def of_sum_def ret_def fail_def Let_def split: prod.splits sum.splits outcome.splits if_splits)

interpretation windows_keys: key_store "windows_backend nc" "\<lambda>w. keys (win_dev w)" "\<lambda>_. provider_laws nc keys handles"
    "windows_added nc" "\<lambda>name K K'. K' = K \<or> windows_added nc name K K'" "windows_removed nc"
  for nc keys handles
proof unfold_locales
  fix w w' :: "'a win" and n r
  assume l: "provider_laws nc keys handles"
  have w: "known keys handles (keys (win_dev w)) Map.empty w" by (simp add: knows_def)
  {
    assume c: "bk_create (windows_backend nc) n w = (r, w')"
    then have "createKey_windows nc n w = (r, w')" by (simp add: windows_backend_def)
    from tripleD [OF kt_createKey [OF l] this w]
    show "provider_laws nc keys handles \<and>
      (if returned r then windows_added nc n (keys (win_dev w)) (keys (win_dev w'))
       else keys (win_dev w') = keys (win_dev w) \<or> windows_added nc n (keys (win_dev w)) (keys (win_dev w')))"
      using l by (auto simp: key_created_def windows_added_def split: if_splits)
  next
    assume c: "bk_load (windows_backend nc) n w = (r, w')"
    then have "loadKey_windows nc n w = (r, w')" by (simp add: windows_backend_def)
    from tripleD [OF kt_loadKey [OF l] this w]
    show "provider_laws nc keys handles \<and> keys (win_dev w') = keys (win_dev w)"
      using l by (auto simp: key_loaded_def)
  }
next
  fix w w' :: "'a win" and n and q :: "unit outcome"
  assume l: "provider_laws nc keys handles" and "bk_delete (windows_backend nc) n w = (q, w')"
  then have d: "deleteKey_windows nc n w = (q, w')" by (simp add: windows_backend_def)
  have w: "known keys handles (keys (win_dev w)) Map.empty w" by (simp add: knows_def)
  have "q \<noteq> Panic m" for m using deleteKey_windows_no_panic [of nc n w m] d by simp
  with tripleD [OF kt_deleteKey [OF l] d w] l
  show "provider_laws nc keys handles \<and> (\<forall>m. q \<noteq> Panic m) \<and>
      (if returned q then windows_removed nc n (keys (win_dev w)) (keys (win_dev w')) else keys (win_dev w') = keys (win_dev w))"
    by (auto simp: key_removed_def windows_removed_def split: if_splits)
next
  fix w w' :: "'a win" and s d opts sig
  assume "provider_laws nc keys handles" and "bk_sign (windows_backend nc) s d opts w = (sig, w')"
  then show "provider_laws nc keys handles \<and> keys (win_dev w') = keys (win_dev w)"
    using kt_Sign [of nc keys handles s d opts w] by (simp add: windows_backend_def)
next
  fix w w' :: "'a win" and s s' and q :: "unit outcome"
  assume l: "provider_laws nc keys handles" and "bk_close (windows_backend nc) (s, w) = (q, s', w')"
  then have c: "tpmSigner_Close_windows nc (s, w) = (q, s', w')" by (simp add: windows_backend_def)
  have "q \<noteq> Panic m" for m using c by (auto simp: tpmSigner_Close_windows_def Let_def split: prod.splits)
  with l c kt_Close [OF l, of s w]
  show "provider_laws nc keys handles \<and> keys (win_dev w') = keys (win_dev w) \<and> (\<forall>m. q \<noteq> Panic m)" by simp
qed

end
