(* ===== verification/KeychainC.thy ===== *)
theory KeychainC
  imports Prelude "HOL-Library.AList"
begin

text \<open>
  The C layer of the macOS backend (\<^verbatim>\<open>keychain_darwin.c\<close>). CoreFoundation, the Security framework and the
  C allocator are the parameter \<open>fw\<close> over a state \<open>'d\<close>. Every object the code owns is in the ledger:
  a CoreFoundation reference it created or copied (the create rule) until its \<^verbatim>\<open>CFRelease\<close>, a
  \<^verbatim>\<open>malloc\<close> buffer and a C string until their \<^verbatim>\<open>free\<close>; passing one to a call is a use of it.

  The types of \<open>fw\<close> state what the documentation promises and the code relies on: the constructors of
  data, numbers and dictionaries return an object; a call with a \<^verbatim>\<open>CFErrorRef\<close> argument returns an
  object or, when it fails, possibly an error object, never both; \<^verbatim>\<open>SecItemCopyMatching\<close> hands over an
  object when its status is \<^verbatim>\<open>errSecSuccess\<close> and only then.
\<close>

section \<open>The framework\<close>

type_synonym cf = nat

text \<open>The values of the attribute dictionaries; those that are objects carry their reference.\<close>

datatype cf_value =
    Const string
  | Data cf bytes
  | Number cf int
  | Access cf
  | Dict cf "(string \<times> cf_value) list"

type_synonym cf_dict = "cf \<times> (string \<times> cf_value) list"

datatype cf_string = CFSTR string | CFStringObj cf

datatype mac_res = CFObj cf | Buf nat | CStr nat

record 'd secfw =
  KP_SECURE_ENCLAVE :: bool
  CFDataCreate :: "bytes \<Rightarrow> 'd \<Rightarrow> cf \<times> 'd"
  CFDictionaryCreateMutable :: "'d \<Rightarrow> cf \<times> 'd"
  CFNumberCreate :: "int \<Rightarrow> 'd \<Rightarrow> cf \<times> 'd"
  CFRelease_call :: "cf \<Rightarrow> 'd \<Rightarrow> 'd"
  CFErrorCopyDescription :: "cf \<Rightarrow> 'd \<Rightarrow> cf option \<times> 'd"
  CFStringGetCString :: "cf_string \<Rightarrow> nat \<Rightarrow> 'd \<Rightarrow> bool \<times> bytes"
  CFDataGetBytes :: "cf \<Rightarrow> 'd \<Rightarrow> bytes"
  SecAccessControlCreateWithFlags :: "string \<Rightarrow> string \<Rightarrow> 'd \<Rightarrow> (cf option + cf) \<times> 'd"
  SecKeyCreateRandomKey :: "cf_dict \<Rightarrow> 'd \<Rightarrow> (cf option + cf) \<times> 'd"
  SecItemCopyMatching :: "cf_dict \<Rightarrow> 'd \<Rightarrow> (int \<times> cf) \<times> 'd"
  SecItemDelete :: "cf_dict \<Rightarrow> 'd \<Rightarrow> int \<times> 'd"
  SecKeyCopyPublicKey :: "cf option \<Rightarrow> 'd \<Rightarrow> cf option \<times> 'd"
  SecKeyCopyExternalRepresentation :: "cf \<Rightarrow> 'd \<Rightarrow> (cf option + cf) \<times> 'd"
  SecKeyCreateSignature :: "cf option \<Rightarrow> string \<Rightarrow> bytes \<Rightarrow> 'd \<Rightarrow> (cf option + cf) \<times> 'd"
  c_malloc :: "nat \<Rightarrow> 'd \<Rightarrow> nat option \<times> 'd"
  c_free :: "nat \<Rightarrow> 'd \<Rightarrow> 'd"
  cgo_CString :: "bytes \<Rightarrow> 'd \<Rightarrow> nat \<times> 'd"

record 'd mac =
  mac_dev :: 'd
  mac_log :: "mac_res event list"

text \<open>A call of the framework, and an entry of the ledger. Neither fails as a Go call does.\<close>

definition act :: "('d \<Rightarrow> 'a \<times> 'd) \<Rightarrow> ('d mac, 'a) go" where
  "act f w = (case f (mac_dev w) of (x, d) \<Rightarrow> (Ret x, w\<lparr>mac_dev := d\<rparr>))"

definition mark :: "mac_res event \<Rightarrow> ('d mac, unit) go" where
  "mark e w = (Ret (), w\<lparr>mac_log := mac_log w @ [e]\<rparr>)"

definition acquire :: "('a \<Rightarrow> mac_res) \<Rightarrow> ('d mac, 'a) go \<Rightarrow> ('d mac, 'a) go" where
  "acquire c f = gbind f (\<lambda>x. gbind (mark (Acq (c x))) (\<lambda>_. ret x))"

definition acquire_opt :: "('a \<Rightarrow> mac_res) \<Rightarrow> ('d mac, 'a option) go \<Rightarrow> ('d mac, 'a option) go" where
  "acquire_opt c f = gbind f (\<lambda>x. case x of None \<Rightarrow> ret None | Some y \<Rightarrow> gbind (mark (Acq (c y))) (\<lambda>_. ret x))"

text \<open>A call with a \<^verbatim>\<open>CFErrorRef *\<close> argument: what it returns is owned, object or error.\<close>

definition acquire_either :: "('d \<Rightarrow> (cf option + cf) \<times> 'd) \<Rightarrow> ('d mac, cf option + cf) go" where
  "acquire_either f = gbind (act f) (\<lambda>x.
     case x of
       Inr y \<Rightarrow> gbind (mark (Acq (CFObj y))) (\<lambda>_. ret x)
     | Inl (Some e) \<Rightarrow> gbind (mark (Acq (CFObj e))) (\<lambda>_. ret x)
     | Inl None \<Rightarrow> ret x)"

definition usePtr :: "cf option \<Rightarrow> ('d mac, unit) go" where
  "usePtr p = (case p of None \<Rightarrow> ret () | Some r \<Rightarrow> mark (Use (CFObj r)))"

definition CFRelease :: "'d secfw \<Rightarrow> cf \<Rightarrow> ('d mac, unit) go" where
  "CFRelease fw r = gbind (act (\<lambda>d. ((), CFRelease_call fw r d))) (\<lambda>_. mark (Rel (CFObj r)))"

text \<open>\<^verbatim>\<open>if (cfErr != NULL) { CFRelease(cfErr); }\<close>\<close>

definition releaseOpt :: "'d secfw \<Rightarrow> cf option \<Rightarrow> ('d mac, unit) go" where
  "releaseOpt fw p = (case p of None \<Rightarrow> ret () | Some r \<Rightarrow> CFRelease fw r)"

definition free :: "'d secfw \<Rightarrow> mac_res \<Rightarrow> nat \<Rightarrow> ('d mac, unit) go" where
  "free fw r a = gbind (act (\<lambda>d. ((), c_free fw a d))) (\<lambda>_. mark (Rel r))"

fun value_ref :: "cf_value \<Rightarrow> cf option" where
  "value_ref (Const c) = None"
| "value_ref (Data r bs) = Some r"
| "value_ref (Number r n) = Some r"
| "value_ref (Access r) = Some r"
| "value_ref (Dict r kvs) = Some r"

text \<open>The dictionary retains the value, so the caller still owns its own reference.\<close>

definition CFDictionarySetValue :: "cf_dict \<Rightarrow> string \<Rightarrow> cf_value \<Rightarrow> ('d mac, cf_dict) go" where
  "CFDictionarySetValue q k v =
     gbind (mark (Use (CFObj (fst q)))) (\<lambda>_.
     gbind (usePtr (value_ref v)) (\<lambda>_.
     ret (fst q, AList.update k v (snd q))))"

definition createDict :: "'d secfw \<Rightarrow> ('d mac, cf_dict) go" where
  "createDict fw = gbind (acquire CFObj (act (CFDictionaryCreateMutable fw))) (\<lambda>r. ret (r, []))"

section \<open>Error messages\<close>

text \<open>What is in the caller's buffer after a call wrote \<open>ws\<close> to its start; nothing is written past its end.\<close>

definition overwrite :: "bytes \<Rightarrow> bytes \<Rightarrow> bytes" where
  "overwrite buf ws = take (length buf) ws @ drop (length ws) buf"

lemma length_overwrite [simp]: "length (overwrite buf ws) = length buf"
  by (simp add: overwrite_def)

text \<open>The buffer is empty when \<^verbatim>\<open>err == NULL\<close> or \<^verbatim>\<open>errLen == 0\<close>.\<close>

definition set_err :: "'d secfw \<Rightarrow> bytes \<Rightarrow> cf_string option \<Rightarrow> ('d mac, bytes) go" where
  "set_err fw err msg =
     (if err = [] then ret err
      else case msg of
        None \<Rightarrow> ret (err[0 := 0])
      | Some m \<Rightarrow>
          gbind (case m of CFSTR s \<Rightarrow> ret () | CFStringObj r \<Rightarrow> mark (Use (CFObj r))) (\<lambda>_.
          gbind (act (\<lambda>d. (CFStringGetCString fw m (length err) d, d))) (\<lambda>(ok, ws).
          if \<not> ok then ret ((overwrite err ws)[0 := 0]) else ret (overwrite err ws))))"

definition set_cferror :: "'d secfw \<Rightarrow> bytes \<Rightarrow> cf option \<Rightarrow> ('d mac, bytes) go" where
  "set_cferror fw err cfErr =
     (case cfErr of
        None \<Rightarrow> set_err fw err None
      | Some e \<Rightarrow>
          gbind (mark (Use (CFObj e))) (\<lambda>_.
          gbind (acquire_opt CFObj (act (CFErrorCopyDescription fw e))) (\<lambda>desc.
          gbind (set_err fw err (map_option CFStringObj desc)) (\<lambda>err1.
          gbind (releaseOpt fw desc) (\<lambda>_. ret err1)))))"

text \<open>The failure branches: render the error, release it if there is one.\<close>

definition cf_failure :: "'d secfw \<Rightarrow> bytes \<Rightarrow> cf option \<Rightarrow> ('d mac, bytes) go" where
  "cf_failure fw err cfErr =
     gbind (set_cferror fw err cfErr) (\<lambda>err1. gbind (releaseOpt fw cfErr) (\<lambda>_. ret err1))"

section \<open>Helpers\<close>

text \<open>A tag is a C string and the bytes in it.\<close>

type_synonym tag = "nat \<times> bytes"

definition make_tag :: "'d secfw \<Rightarrow> tag \<Rightarrow> ('d mac, cf) go" where
  "make_tag fw t = gbind (mark (Use (CStr (fst t)))) (\<lambda>_. acquire CFObj (act (CFDataCreate fw (snd t))))"

text \<open>The attributes that exist only in a build with the Secure Enclave.\<close>

definition setEnclave :: "'d secfw \<Rightarrow> cf_dict \<Rightarrow> ('d mac, cf_dict) go" where
  "setEnclave fw q =
     (if KP_SECURE_ENCLAVE fw then
        gbind (CFDictionarySetValue q ''kSecAttrTokenID'' (Const ''kSecAttrTokenIDSecureEnclave'')) (\<lambda>q.
        CFDictionarySetValue q ''kSecUseDataProtectionKeychain'' (Const ''kCFBooleanTrue''))
      else ret q)"

definition make_query :: "'d secfw \<Rightarrow> tag \<Rightarrow> ('d mac, cf_dict) go" where
  "make_query fw t =
     gbind (createDict fw) (\<lambda>q.
     gbind (CFDictionarySetValue q ''kSecClass'' (Const ''kSecClassKey'')) (\<lambda>q.
     gbind (CFDictionarySetValue q ''kSecAttrKeyClass'' (Const ''kSecAttrKeyClassPrivate'')) (\<lambda>q.
     gbind (CFDictionarySetValue q ''kSecAttrKeyType'' (Const ''kSecAttrKeyTypeECSECPrimeRandom'')) (\<lambda>q.
     gbind (setEnclave fw q) (\<lambda>q.
     gbind (make_tag fw t) (\<lambda>tagData.
     gbind (CFDictionarySetValue q ''kSecAttrApplicationTag'' (Data tagData (snd t))) (\<lambda>q.
     gbind (CFRelease fw tagData) (\<lambda>_. ret q))))))))"

text \<open>
  What the functions below return: the status, the variable behind the output pointer (\<open>None\<close> is the
  NULL it was initialised with) and the error buffer.
\<close>

type_synonym 'a c_result = "int \<times> 'a \<times> bytes"
type_synonym c_buf = "nat option \<times> bytes"

definition copy_to_buf :: "'d secfw \<Rightarrow> cf \<Rightarrow> bytes \<Rightarrow> ('d mac, c_buf c_result) go" where
  "copy_to_buf fw data err =
     gbind (mark (Use (CFObj data))) (\<lambda>_.
     gbind (act (\<lambda>d. (CFDataGetBytes fw data d, d))) (\<lambda>bs.
     gbind (acquire_opt Buf (act (c_malloc fw (if 0 < length bs then length bs else 1)))) (\<lambda>buf.
     case buf of
       None \<Rightarrow> gbind (set_err fw err (Some (CFSTR ''malloc failed''))) (\<lambda>err1. ret (- 1, (None, []), err1))
     | Some a \<Rightarrow> ret (0, (Some a, bs), err))))"

section \<open>The interface\<close>

text \<open>
  \<^verbatim>\<open>kp_create_key\<close>: the attributes of the private key (with its access control object in an enclave
  build), the attributes of the pair, the key.
\<close>

definition createAttrs :: "'d secfw \<Rightarrow> cf_dict \<Rightarrow> ('d mac, cf_dict \<times> cf) go" where
  "createAttrs fw privAttrs =
     gbind (createDict fw) (\<lambda>attrs.
     gbind (CFDictionarySetValue attrs ''kSecAttrKeyType'' (Const ''kSecAttrKeyTypeECSECPrimeRandom'')) (\<lambda>attrs.
     gbind (acquire CFObj (act (CFNumberCreate fw 256))) (\<lambda>bitsNum.
     gbind (CFDictionarySetValue attrs ''kSecAttrKeySizeInBits'' (Number bitsNum 256)) (\<lambda>attrs.
     gbind (setEnclave fw attrs) (\<lambda>attrs.
     gbind (CFDictionarySetValue attrs ''kSecPrivateKeyAttrs'' (Dict (fst privAttrs) (snd privAttrs))) (\<lambda>attrs.
     ret (attrs, bitsNum)))))))"

definition generate :: "'d secfw \<Rightarrow> cf \<Rightarrow> cf_dict \<Rightarrow> cf option \<Rightarrow> bytes \<Rightarrow> ('d mac, cf option c_result) go" where
  "generate fw tagData privAttrs access err =
     gbind (createAttrs fw privAttrs) (\<lambda>(attrs, bitsNum).
     gbind (mark (Use (CFObj (fst attrs)))) (\<lambda>_.
     gbind (acquire_either (SecKeyCreateRandomKey fw attrs)) (\<lambda>privKey.
     gbind (CFRelease fw bitsNum) (\<lambda>_.
     gbind (CFRelease fw (fst attrs)) (\<lambda>_.
     gbind (CFRelease fw (fst privAttrs)) (\<lambda>_.
     gbind (CFRelease fw tagData) (\<lambda>_.
     gbind (releaseOpt fw access) (\<lambda>_.
     case privKey of
       Inl cfErr \<Rightarrow> gbind (cf_failure fw err cfErr) (\<lambda>err1. ret (- 1, None, err1))
     | Inr key \<Rightarrow> ret (0, Some key, err)))))))))"

definition kp_create_key :: "'d secfw \<Rightarrow> tag \<Rightarrow> bytes \<Rightarrow> ('d mac, cf option c_result) go" where
  "kp_create_key fw t err =
     gbind (make_tag fw t) (\<lambda>tagData.
     gbind (createDict fw) (\<lambda>privAttrs.
     gbind (CFDictionarySetValue privAttrs ''kSecAttrIsPermanent'' (Const ''kCFBooleanTrue'')) (\<lambda>privAttrs.
     gbind (CFDictionarySetValue privAttrs ''kSecAttrApplicationTag'' (Data tagData (snd t))) (\<lambda>privAttrs.
     if KP_SECURE_ENCLAVE fw then
       gbind (acquire_either (SecAccessControlCreateWithFlags fw
         ''kSecAttrAccessibleAfterFirstUnlockThisDeviceOnly'' ''kSecAccessControlPrivateKeyUsage'')) (\<lambda>access.
       case access of
         Inl cfErr \<Rightarrow>
           gbind (cf_failure fw err cfErr) (\<lambda>err1.
           gbind (CFRelease fw (fst privAttrs)) (\<lambda>_.
           gbind (CFRelease fw tagData) (\<lambda>_. ret (- 1, None, err1))))
       | Inr a \<Rightarrow>
           gbind (CFDictionarySetValue privAttrs ''kSecAttrAccessControl'' (Access a)) (\<lambda>privAttrs.
           generate fw tagData privAttrs (Some a) err))
     else generate fw tagData privAttrs None err))))"

text \<open>\<^verbatim>\<open>err[0] = '\0'\<close> unless there is no buffer.\<close>

definition kp_load_key :: "'d secfw \<Rightarrow> tag \<Rightarrow> bytes \<Rightarrow> ('d mac, cf option c_result) go" where
  "kp_load_key fw t err =
     gbind (make_query fw t) (\<lambda>q.
     gbind (CFDictionarySetValue q ''kSecReturnRef'' (Const ''kCFBooleanTrue'')) (\<lambda>q.
     gbind (mark (Use (CFObj (fst q)))) (\<lambda>_.
     gbind (act (SecItemCopyMatching fw q)) (\<lambda>(st, result).
     gbind (if st = 0 then mark (Acq (CFObj result)) else ret ()) (\<lambda>_.
     gbind (CFRelease fw (fst q)) (\<lambda>_.
     if st \<noteq> 0 then ret (st, None, err[0 := 0]) else ret (0, Some result, err)))))))"

definition kp_delete_key :: "'d secfw \<Rightarrow> tag \<Rightarrow> bytes \<Rightarrow> ('d mac, int \<times> bytes) go" where
  "kp_delete_key fw t err =
     gbind (make_query fw t) (\<lambda>q.
     gbind (mark (Use (CFObj (fst q)))) (\<lambda>_.
     gbind (act (SecItemDelete fw q)) (\<lambda>st.
     gbind (CFRelease fw (fst q)) (\<lambda>_.
     if st \<noteq> 0 then ret (st, err[0 := 0]) else ret (0, err)))))"

definition kp_copy_public_key :: "'d secfw \<Rightarrow> cf option \<Rightarrow> bytes \<Rightarrow> ('d mac, c_buf c_result) go" where
  "kp_copy_public_key fw privRef err =
     gbind (usePtr privRef) (\<lambda>_.
     gbind (acquire_opt CFObj (act (SecKeyCopyPublicKey fw privRef))) (\<lambda>pub.
     case pub of
       None \<Rightarrow>
         gbind (set_err fw err (Some (CFSTR ''SecKeyCopyPublicKey returned NULL''))) (\<lambda>err1. ret (- 1, (None, []), err1))
     | Some p \<Rightarrow>
         gbind (mark (Use (CFObj p))) (\<lambda>_.
         gbind (acquire_either (SecKeyCopyExternalRepresentation fw p)) (\<lambda>data.
         gbind (CFRelease fw p) (\<lambda>_.
         case data of
           Inl cfErr \<Rightarrow> gbind (cf_failure fw err cfErr) (\<lambda>err1. ret (- 1, (None, []), err1))
         | Inr bs \<Rightarrow>
             gbind (copy_to_buf fw bs err) (\<lambda>r.
             gbind (CFRelease fw bs) (\<lambda>_. ret r)))))))"

fun signAlgorithm :: "int \<Rightarrow> string option" where
  "signAlgorithm hash =
     (if hash = 256 then Some ''kSecKeyAlgorithmECDSASignatureDigestX962SHA256''
      else if hash = 384 then Some ''kSecKeyAlgorithmECDSASignatureDigestX962SHA384''
      else if hash = 512 then Some ''kSecKeyAlgorithmECDSASignatureDigestX962SHA512''
      else None)"

definition kp_sign :: "'d secfw \<Rightarrow> cf option \<Rightarrow> int \<Rightarrow> bytes \<Rightarrow> bytes \<Rightarrow> ('d mac, c_buf c_result) go" where
  "kp_sign fw privRef hash digest err =
     (case signAlgorithm hash of
        None \<Rightarrow> gbind (set_err fw err (Some (CFSTR ''unsupported hash''))) (\<lambda>err1. ret (- 1, (None, []), err1))
      | Some alg \<Rightarrow>
          gbind (acquire CFObj (act (CFDataCreate fw digest))) (\<lambda>digestData.
          gbind (usePtr privRef) (\<lambda>_.
          gbind (mark (Use (CFObj digestData))) (\<lambda>_.
          gbind (acquire_either (SecKeyCreateSignature fw privRef alg digest)) (\<lambda>sig.
          gbind (CFRelease fw digestData) (\<lambda>_.
          case sig of
            Inl cfErr \<Rightarrow> gbind (cf_failure fw err cfErr) (\<lambda>err1. ret (- 1, (None, []), err1))
          | Inr s \<Rightarrow>
              gbind (copy_to_buf fw s err) (\<lambda>r.
              gbind (CFRelease fw s) (\<lambda>_. ret r))))))))"

definition kp_release :: "'d secfw \<Rightarrow> cf option \<Rightarrow> ('d mac, unit) go" where
  "kp_release fw ref = releaseOpt fw ref"

section \<open>Sequencing\<close>

declare ret_gbind [simp] gbind_ret [simp] panic_gbind [simp]

end
