(* ===== verification/DarwinKeys.thy ===== *)
theory DarwinKeys
  imports KeychainC KeyBackend GoBytes
begin

text \<open>
  The macOS backend (\<^verbatim>\<open>key_darwin.go\<close>) over the C layer of \<open>KeychainC\<close>. The build tag picks the
  Secure Enclave or the file keychain, both in the name and in the C layer.
\<close>

definition backendName_darwin :: "'d secfw \<Rightarrow> string" where
  "backendName_darwin fw = (if KP_SECURE_ENCLAVE fw then ''Secure Enclave'' else ''file keychain (software)'')"

definition errBufLen :: nat where "errBufLen = 256"

text \<open>\<^verbatim>\<open>make([]byte, errBufLen)\<close>\<close>

definition newErrBuf :: bytes where "newErrBuf = replicate errBufLen 0"

section \<open>Error texts\<close>

fun cString :: "bytes \<Rightarrow> string" where
  "cString [] = []"
| "cString (b # bs) = (if b = 0 then [] else char_of_byte b # cString bs)"

definition secStatusName :: "int \<Rightarrow> string" where
  "secStatusName code =
     (if code = - 25291 then ''errSecNotAvailable''
      else if code = - 25299 then ''errSecDuplicateItem''
      else if code = - 25300 then ''errSecItemNotFound''
      else if code = - 34018 then ''errSecMissingEntitlement''
      else if code = - 128 then ''errSecUserCanceled''
      else if code = - 50 then ''errSecParam''
      else [])"

text \<open>\<^verbatim>\<open>%d\<close>\<close>

definition dec_int :: "int \<Rightarrow> string" where
  "dec_int n = (if n < 0 then ''-'' @ dec_digits (nat (- n)) else dec_digits (nat n))"

definition secError :: "int \<Rightarrow> bytes \<Rightarrow> string" where
  "secError code errBuf =
     (let msg = cString errBuf; name = secStatusName code in
      if msg \<noteq> [] \<and> name \<noteq> [] then msg @ '' ('' @ dec_int code @ '' '' @ name @ '')''
      else if name \<noteq> [] then dec_int code @ '' '' @ name
      else if msg \<noteq> [] then msg @ '' (status '' @ dec_int code @ '')''
      else ''status '' @ dec_int code)"

section \<open>The public key\<close>

text \<open>The P-256 curve \<open>y\<^sup>2 = x\<^sup>3 - 3x + b\<close> of \<^verbatim>\<open>crypto/elliptic\<close>.\<close>

definition p256_p :: int where "p256_p = 2 ^ 256 - 2 ^ 224 + 2 ^ 192 + 2 ^ 96 - 1"

definition p256_b :: int where "p256_b = 0x5ac635d8aa3a93e7b3ebbd55769886bc651d06b0cc53b0f63bce3c3e27d2604b"

definition on_p256 :: "int \<Rightarrow> int \<Rightarrow> bool" where
  "on_p256 x y \<longleftrightarrow> y ^ 2 mod p256_p = (x ^ 3 - 3 * x + p256_b) mod p256_p"

text \<open>\<^verbatim>\<open>elliptic.Unmarshal\<close> on this curve.\<close>

definition unmarshal_p256 :: "bytes \<Rightarrow> (int \<times> int) option" where
  "unmarshal_p256 data =
     (if length data \<noteq> 1 + 2 * 32 then None
      else if hd data \<noteq> 4 then None
      else (let x = int (nat_of_bytes (take 32 (tl data))); y = int (nat_of_bytes (drop 32 (tl data))) in
        if p256_p \<le> x \<or> p256_p \<le> y then None
        else if \<not> on_p256 x y then None
        else Some (x, y)))"

definition parseECPublicKey :: "bytes \<Rightarrow> go_err + ecdsa_pub" where
  "parseECPublicKey raw =
     (case unmarshal_p256 raw of
        None \<Rightarrow> Inl (Errorf ''parse EC public key: invalid X9.63 point (%d bytes)'' [FInt (int (length raw))])
      | Some (x, y) \<Rightarrow> Inr \<lparr>pk_curve = P256, pk_x = x, pk_y = y\<rparr>)"

section \<open>Calling C\<close>

text \<open>\<^verbatim>\<open>C.CString(name)\<close> and its deferred \<^verbatim>\<open>C.free\<close>.\<close>

definition withCString :: "'d secfw \<Rightarrow> string \<Rightarrow> (tag \<Rightarrow> ('d mac, 'a) go) \<Rightarrow> ('d mac, 'a) go" where
  "withCString fw name body =
     gbind (acquire CStr (act (cgo_CString fw (bytes_of_string name)))) (\<lambda>a.
     deferred (\<lambda>_ w. snd (free fw (CStr a) a w)) (body (a, bytes_of_string name)))"

text \<open>\<^verbatim>\<open>C.free\<close> of a buffer; freeing nil does nothing.\<close>

definition freeBuf :: "'d secfw \<Rightarrow> nat option \<Rightarrow> ('d mac, unit) go" where
  "freeBuf fw p = (case p of None \<Rightarrow> ret () | Some a \<Rightarrow> free fw (Buf a) a)"

text \<open>
  \<^verbatim>\<open>C.GoBytes(p, C.int(n))\<close> of a buffer that holds \<open>n\<close> bytes: the length is cut to 32 bits, and a
  negative one panics.
\<close>

definition goBytes :: "c_buf \<Rightarrow> ('d mac, bytes) go" where
  "goBytes b =
     (let n = sint (word_of_nat (length (snd b)) :: 32 word) in
      if n < 0 then panic ''gobytes: length out of range''
      else gbind (case fst b of None \<Rightarrow> ret () | Some a \<Rightarrow> mark (Use (Buf a))) (\<lambda>_. ret (take (nat n) (snd b))))"

definition copyPublicKey :: "'d secfw \<Rightarrow> cf option \<Rightarrow> ('d mac, ecdsa_pub) go" where
  "copyPublicKey fw priv =
     gbind (kp_copy_public_key fw priv newErrBuf) (\<lambda>(rc, buf, errBuf).
     if rc \<noteq> 0 then fail (Errorf ''copy public key: %s'' [FStr (secError rc errBuf)])
     else deferred (\<lambda>_ w. snd (freeBuf fw (fst buf) w)) (
       gbind (goBytes buf) (\<lambda>raw. of_sum (parseECPublicKey raw))))"

section \<open>Creating, loading and deleting keys\<close>

record enclaveSigner =
  es_priv :: "cf option"
  es_pub :: ecdsa_pub

text \<open>The deferred closure of \<^verbatim>\<open>createKey\<close>: release the reference and remove the stored key.\<close>

definition rollback :: "'d secfw \<Rightarrow> tag \<Rightarrow> cf option \<Rightarrow> 'd mac \<Rightarrow> 'd mac" where
  "rollback fw cName priv w = snd (gbind (kp_release fw priv) (\<lambda>_. kp_delete_key fw cName newErrBuf) w)"

definition createKey_darwin :: "'d secfw \<Rightarrow> string \<Rightarrow> ('d mac, enclaveSigner) go" where
  "createKey_darwin fw name =
     withCString fw name (\<lambda>cName.
     gbind (kp_load_key fw cName newErrBuf) (\<lambda>(rc, existing, errBuf).
     if rc = 0 then
       gbind (kp_release fw existing) (\<lambda>_.
       fail (Errorf ''create persisted key: key %q already exists'' [FStr name]))
     else
       gbind (kp_create_key fw cName errBuf) (\<lambda>(rc, priv, errBuf).
       if rc \<noteq> 0 then fail (Errorf ''create persisted key: %s'' [FStr (secError rc errBuf)])
       else deferred (\<lambda>r w. if \<not> returned r then rollback fw cName priv w else w) (
         gbind (copyPublicKey fw priv) (\<lambda>pub. ret \<lparr>es_priv = priv, es_pub = pub\<rparr>)))))"

definition loadKey_darwin :: "'d secfw \<Rightarrow> string \<Rightarrow> ('d mac, enclaveSigner) go" where
  "loadKey_darwin fw name =
     withCString fw name (\<lambda>cName.
     gbind (kp_load_key fw cName newErrBuf) (\<lambda>(rc, priv, errBuf).
     if rc \<noteq> 0 then fail (Errorf ''open key: %s'' [FStr (secError rc errBuf)])
     else deferred (\<lambda>r w. if \<not> returned r then snd (kp_release fw priv w) else w) (
       gbind (copyPublicKey fw priv) (\<lambda>pub. ret \<lparr>es_priv = priv, es_pub = pub\<rparr>))))"

definition deleteKey_darwin :: "'d secfw \<Rightarrow> string \<Rightarrow> ('d mac, unit) go" where
  "deleteKey_darwin fw name =
     withCString fw name (\<lambda>cName.
     gbind (kp_delete_key fw cName newErrBuf) (\<lambda>(rc, errBuf).
     if rc \<noteq> 0 then fail (Errorf ''delete key: %s'' [FStr (secError rc errBuf)]) else ret ()))"

section \<open>The signer\<close>

definition enclaveSigner_Public :: "enclaveSigner \<Rightarrow> ecdsa_pub" where
  "enclaveSigner_Public s = es_pub s"

fun hashBits :: "chash \<Rightarrow> int option" where
  "hashBits SHA256 = Some 256"
| "hashBits SHA384 = Some 384"
| "hashBits SHA512 = Some 512"
| "hashBits (OtherHash n) = None"

definition enclaveSigner_Sign ::
    "'d secfw \<Rightarrow> enclaveSigner \<Rightarrow> bytes \<Rightarrow> signer_opts \<Rightarrow> ('d mac, bytes) go" where
  "enclaveSigner_Sign fw s digest opts =
     (if es_priv s = None then fail (Errorf ''enclaveSigner: signer is closed'' [])
      else case opts of
        PSSOptions _ \<Rightarrow> fail (Errorf ''enclaveSigner: RSA-PSS is not supported'' [])
      | NilOpts \<Rightarrow> panic ''invalid memory address or nil pointer dereference''
      | HashOpts h \<Rightarrow>
          (case hashBits h of
             None \<Rightarrow> fail (Errorf ''enclaveSigner: unsupported hash %v'' [FInt (hash_number h)])
           | Some hash \<Rightarrow>
               if length digest = 0 then fail (Errorf ''enclaveSigner: empty digest'' [])
               else
                 gbind (kp_sign fw (es_priv s) hash digest newErrBuf) (\<lambda>(rc, sig, errBuf).
                 if rc \<noteq> 0 then fail (Errorf ''sign: %s'' [FStr (secError rc errBuf)])
                 else deferred (\<lambda>_ w. snd (freeBuf fw (fst sig) w)) (goBytes sig))))"

definition enclaveSigner_Close :: "'d secfw \<Rightarrow> (enclaveSigner \<times> 'd mac, unit) go" where
  "enclaveSigner_Close fw sw =
     (case sw of (s, w) \<Rightarrow>
        (case es_priv s of
           None \<Rightarrow> (Ret (), s, w)
         | Some p \<Rightarrow> (Ret (), s\<lparr>es_priv := None\<rparr>, snd (kp_release fw (es_priv s) w))))"

definition darwin_backend :: "'d secfw \<Rightarrow> ('d mac, enclaveSigner) backend" where
  "darwin_backend fw =
     \<lparr>bk_name = backendName_darwin fw, bk_create = createKey_darwin fw,
      bk_load = loadKey_darwin fw, bk_delete = deleteKey_darwin fw,
      bk_public = enclaveSigner_Public, bk_sign = enclaveSigner_Sign fw,
      bk_close = enclaveSigner_Close fw\<rparr>"

end
