(* ===== verification/DarwinLedger.thy ===== *)
theory DarwinLedger
  imports DarwinKeys
begin

text \<open>
  Who owns what in the macOS backend: every function of the C layer, and the Go functions above it,
  release each CoreFoundation object, buffer and C string once, on every path. The C functions always
  return, so their judgement \<open>runs\<close> says so too. At the end the backend is an instance of the contract
  of \<open>KeyBackend\<close>.
\<close>

section \<open>The judgement of the C layer\<close>

definition runs :: "mac_res multiset \<Rightarrow> ('d mac, 'a) go \<Rightarrow> ('a \<Rightarrow> mac_res multiset) \<Rightarrow> bool" where
  "runs M f R \<longleftrightarrow>
     (\<forall>w. \<exists>x w' es. f w = (Ret x, w') \<and> mac_log w' = mac_log w @ es \<and> (\<forall>F. run_log (M + F) es = Some (R x + F)))"

lemma runsI:
  "(\<And>w. \<exists>x w' es. f w = (Ret x, w') \<and> mac_log w' = mac_log w @ es \<and> (\<forall>F. run_log (M + F) es = Some (R x + F)))
   \<Longrightarrow> runs M f R"
  by (simp add: runs_def)

lemma runsE:
  assumes "runs M f R"
  obtains x w' es where "f w = (Ret x, w')" and "mac_log w' = mac_log w @ es"
    and "\<And>F. run_log (M + F) es = Some (R x + F)"
  using assms by (fastforce simp: runs_def dest!: spec [of _ w])

lemma runs_ret: "M = R x \<Longrightarrow> runs M (ret x) R"
  by (simp add: runs_def ret_def)

lemma runs_bind:
  assumes f: "runs M f R" and g: "\<And>x. runs (R x) (g x) Q"
  shows "runs M (gbind f g) Q"
proof (rule runsI)
  fix w
  obtain x w1 es where 1: "f w = (Ret x, w1)" "mac_log w1 = mac_log w @ es"
    "\<And>F. run_log (M + F) es = Some (R x + F)" by (rule runsE [OF f]) blast
  obtain y w2 es2 where 2: "g x w1 = (Ret y, w2)" "mac_log w2 = mac_log w1 @ es2"
    "\<And>F. run_log (R x + F) es2 = Some (Q y + F)" by (rule runsE [OF g]) blast
  from 1 2 run_log_seq [OF 1(3) 2(3)]
  show "\<exists>y w' es. gbind f g w = (Ret y, w') \<and> mac_log w' = mac_log w @ es \<and>
      (\<forall>F. run_log (M + F) es = Some (Q y + F))"
    by (intro exI [of _ y] exI [of _ w2] exI [of _ "es @ es2"]) (simp add: gbind_def)
qed

lemma runs_frame:
  assumes "runs M f R"
  shows "runs (M + N) f (\<lambda>x. R x + N)"
proof (rule runsI)
  fix w
  obtain x w1 es where "f w = (Ret x, w1)" "mac_log w1 = mac_log w @ es"
    "\<And>F. run_log (M + F) es = Some (R x + F)" by (rule runsE [OF assms]) blast
  then show "\<exists>x w' es. f w = (Ret x, w') \<and> mac_log w' = mac_log w @ es \<and>
      (\<forall>F. run_log (M + N + F) es = Some (R x + N + F))"
    by (intro exI [of _ x] exI [of _ w1] exI [of _ es]) (simp add: add.assoc)
qed

text \<open>One event, then the rest.\<close>

lemma runs_mark:
  assumes "\<And>F. run_log (M + F) [e] = Some (N + F)" and "runs N (k ()) R"
  shows "runs M (gbind (mark e) k) R"
  by (rule runs_bind [where R = "\<lambda>_. N"]) (use assms in \<open>auto simp: runs_def mark_def\<close>)

lemma runs_use: "r \<in># M \<Longrightarrow> runs M (k ()) R \<Longrightarrow> runs M (gbind (mark (Use r)) k) R"
  by (rule runs_mark [where N = M]) auto

lemma runs_acq: "runs (add_mset r M) (k ()) R \<Longrightarrow> runs M (gbind (mark (Acq r)) k) R"
  by (rule runs_mark [where N = "add_mset r M"]) auto

lemma runs_rel: "r \<in># M \<Longrightarrow> runs (M - {#r#}) (k ()) R \<Longrightarrow> runs M (gbind (mark (Rel r)) k) R"
  by (rule runs_mark [where N = "M - {#r#}"]) auto

lemma runs_act: "(\<And>x. runs M (k x) R) \<Longrightarrow> runs M (gbind (act f) k) R"
  by (rule runs_bind [where R = "\<lambda>_. M"]) (auto simp: runs_def act_def split: prod.split)

lemma runs_acquire:
  assumes "\<And>x. runs (add_mset (c x) M) (k x) R"
  shows "runs M (gbind (acquire c (act f)) k) R"
  unfolding acquire_def gbind_assoc ret_gbind by (intro runs_act runs_acq assms)

lemma runs_acquire_opt:
  assumes "runs M (k None) R" and "\<And>x. runs (add_mset (c x) M) (k (Some x)) R"
  shows "runs M (gbind (acquire_opt c (act f)) k) R"
  unfolding acquire_opt_def gbind_assoc
proof (rule runs_act)
  show "runs M (gbind (case x of None \<Rightarrow> ret None | Some y \<Rightarrow> gbind (mark (Acq (c y))) (\<lambda>_. ret x)) k) R" for x
    by (cases x) (simp_all add: gbind_assoc assms runs_acq)
qed

lemma runs_acquire_either:
  assumes "runs M (k (Inl None)) R" and "\<And>e. runs (add_mset (CFObj e) M) (k (Inl (Some e))) R"
    and "\<And>x. runs (add_mset (CFObj x) M) (k (Inr x)) R"
  shows "runs M (gbind (acquire_either f) k) R"
  unfolding acquire_either_def gbind_assoc
proof (rule runs_act)
  show "runs M (gbind (case x of Inr y \<Rightarrow> gbind (mark (Acq (CFObj y))) (\<lambda>_. ret x)
      | Inl (Some e) \<Rightarrow> gbind (mark (Acq (CFObj e))) (\<lambda>_. ret x) | Inl None \<Rightarrow> ret x) k) R" for x
    by (cases x) (auto simp: gbind_assoc assms runs_acq split: option.split)
qed

definition opt_res :: "('a \<Rightarrow> mac_res) \<Rightarrow> 'a option \<Rightarrow> mac_res multiset" where
  "opt_res c p = (case p of None \<Rightarrow> {#} | Some r \<Rightarrow> {#c r#})"

lemma opt_res_simps [simp]: "opt_res c None = {#}" "opt_res c (Some r) = {#c r#}"
  by (simp_all add: opt_res_def)

lemma runs_usePtr:
  "opt_res CFObj p \<subseteq># M \<Longrightarrow> runs M (k ()) R \<Longrightarrow> runs M (gbind (usePtr p) k) R"
  by (cases p) (simp_all add: usePtr_def runs_use)

lemma runs_CFRelease:
  assumes "CFObj r \<in># M" and "runs (M - {#CFObj r#}) (k ()) R"
  shows "runs M (gbind (CFRelease fw r) k) R"
  unfolding CFRelease_def gbind_assoc by (intro runs_act runs_rel assms)

lemma runs_releaseOpt:
  "opt_res CFObj p \<subseteq># M \<Longrightarrow> runs (M - opt_res CFObj p) (k ()) R \<Longrightarrow> runs M (gbind (releaseOpt fw p) k) R"
  by (cases p) (simp_all add: releaseOpt_def runs_CFRelease)

lemma runs_setValue:
  assumes "CFObj (fst q) \<in># M" and "opt_res CFObj (value_ref v) \<subseteq># M"
    and "runs M (k (fst q, AList.update a v (snd q))) R"
  shows "runs M (gbind (CFDictionarySetValue q a v) k) R"
  unfolding CFDictionarySetValue_def gbind_assoc ret_gbind by (intro runs_use runs_usePtr assms)

lemma runs_createDict:
  "(\<And>r. runs (add_mset (CFObj r) M) (k (r, [])) R) \<Longrightarrow> runs M (gbind (createDict fw) k) R"
  unfolding createDict_def gbind_assoc ret_gbind by (rule runs_acquire)

lemma runs_make_tag:
  "CStr (fst t) \<in># M \<Longrightarrow> (\<And>r. runs (add_mset (CFObj r) M) (k r) R) \<Longrightarrow> runs M (gbind (make_tag fw t) k) R"
  unfolding make_tag_def gbind_assoc by (intro runs_use runs_acquire)

lemma runs_setEnclave:
  assumes "CFObj (fst q) \<in># M" and "\<And>kvs. runs M (k (fst q, kvs)) R"
  shows "runs M (gbind (setEnclave fw q) k) R"
proof (cases "KP_SECURE_ENCLAVE fw")
  case True
  then show ?thesis by (simp add: setEnclave_def gbind_assoc assms runs_setValue)
next
  case False
  with assms(2) [of "snd q"] show ?thesis by (simp add: setEnclave_def)
qed

lemmas runs_rules = runs_use runs_acquire runs_acquire_opt runs_acquire_either runs_usePtr runs_CFRelease
  runs_releaseOpt runs_setValue runs_createDict runs_make_tag runs_setEnclave runs_act runs_ret

section \<open>The functions of the C layer\<close>

lemma runs_set_err:
  assumes "\<And>r. msg = Some (CFStringObj r) \<Longrightarrow> CFObj r \<in># M" and "\<And>e. runs M (k e) R"
  shows "runs M (gbind (set_err fw err msg) k) R"
proof (cases msg)
  case None
  then show ?thesis by (simp add: set_err_def assms)
next
  case (Some m)
  have "runs M (gbind (act f) (\<lambda>x. gbind (case x of (ok, ws) \<Rightarrow> if \<not> ok then ret (h ws) else ret (h' ws)) k)) R" for f h h'
    by (rule runs_act) (simp add: assms(2) split: prod.split)
  with Some assms show ?thesis
    by (cases m) (auto simp: set_err_def gbind_assoc intro!: runs_use)
qed

lemma runs_set_cferror:
  assumes "opt_res CFObj e \<subseteq># M" and "\<And>e. runs M (k e) R"
  shows "runs M (gbind (set_cferror fw err e) k) R"
proof (cases e)
  case None
  then show ?thesis unfolding set_cferror_def by simp (rule runs_set_err, simp, rule assms(2))
next
  case (Some r)
  with assms(1) have r: "CFObj r \<in># M" by simp
  show ?thesis unfolding set_cferror_def Some option.case gbind_assoc ret_gbind
    by (intro runs_use runs_acquire_opt runs_set_err runs_releaseOpt) (auto simp: r assms(2))
qed

lemma runs_cf_failure:
  assumes "opt_res CFObj e \<subseteq># M" and "\<And>err. runs (M - opt_res CFObj e) (k err) R"
  shows "runs M (gbind (cf_failure fw err e) k) R"
  unfolding cf_failure_def gbind_assoc ret_gbind by (intro runs_set_cferror runs_releaseOpt assms)

lemma runs_make_query:
  assumes "CStr (fst t) \<in># M" and "\<And>r kvs. runs (add_mset (CFObj r) M) (k (r, kvs)) R"
  shows "runs M (gbind (make_query fw t) k) R"
  unfolding make_query_def gbind_assoc ret_gbind
  by (intro runs_rules) (simp_all add: assms)

text \<open>What a call leaves when its status decides whether it hands something over.\<close>

definition handed :: "('a \<Rightarrow> mac_res multiset) \<Rightarrow> mac_res multiset \<Rightarrow> 'a c_result \<Rightarrow> mac_res multiset" where
  "handed res M x = M + (if fst x = 0 then res (fst (snd x)) else {#})"

lemma runs_kp_load_key:
  assumes "CStr (fst t) \<in># M"
  shows "runs M (kp_load_key fw t err) (handed (opt_res CFObj) M)"
proof -
  have "runs (add_mset (CFObj q) M) (gbind (act f) (\<lambda>(st, result).
       gbind (if st = 0 then mark (Acq (CFObj result)) else ret ()) (\<lambda>_.
       gbind (CFRelease fw q) (\<lambda>_.
       if st \<noteq> 0 then ret (st, None, err[0 := 0]) else ret (0, Some result, err)))))
     (handed (opt_res CFObj) M)" for q and f :: "'a \<Rightarrow> (int \<times> nat) \<times> 'a"
  proof (rule runs_act, clarify)
    fix st :: int and r :: nat
    show "runs (add_mset (CFObj q) M) (gbind (if st = 0 then mark (Acq (CFObj r)) else ret ()) (\<lambda>_.
       gbind (CFRelease fw q) (\<lambda>_. if st \<noteq> 0 then ret (st, None, err[0 := 0]) else ret (0, Some r, err))))
       (handed (opt_res CFObj) M)"
      by (cases "st = 0") (auto intro!: runs_acq runs_CFRelease runs_ret simp: handed_def)
  qed
  then show ?thesis unfolding kp_load_key_def
    by (intro runs_make_query [OF assms] runs_setValue runs_use) simp_all
qed

lemma runs_kp_delete_key:
  assumes "CStr (fst t) \<in># M"
  shows "runs M (kp_delete_key fw t err) (\<lambda>_. M)"
  unfolding kp_delete_key_def
  by (intro runs_make_query [OF assms] runs_use runs_act runs_CFRelease) (auto intro: runs_ret)

lemma runs_copy_to_buf:
  assumes "CFObj data \<in># M"
  shows "runs M (copy_to_buf fw data err) (handed (\<lambda>b. opt_res Buf (fst b)) M)"
  unfolding copy_to_buf_def
  by (intro runs_use [OF assms] runs_act runs_acquire_opt)
    (auto intro!: runs_set_err runs_ret simp: handed_def)

text \<open>The data object of a result, copied out and released.\<close>

lemma runs_copy_out:
  "runs (add_mset (CFObj x) M) (gbind (copy_to_buf fw x err) (\<lambda>r. gbind (CFRelease fw x) (\<lambda>_. ret r)))
    (handed (\<lambda>b. opt_res Buf (fst b)) M)"
  by (rule runs_bind [OF runs_copy_to_buf]) (auto intro!: runs_CFRelease runs_ret simp: handed_def)

lemma runs_failed:
  "runs (opt_res CFObj e + M) (gbind (cf_failure fw err e) (\<lambda>err1. ret (- 1, x, err1))) (handed res M)"
  by (rule runs_cf_failure) (auto intro: runs_ret simp: handed_def)

lemma runs_done: "runs (add_mset (c x) M) (ret (0, Some x, err)) (handed (opt_res c) M)"
  by (rule runs_ret) (simp add: handed_def)

lemmas runs_tails = runs_failed [of None, simplified] runs_failed [of "Some e" for e, simplified] runs_copy_out runs_done

lemma runs_kp_copy_public_key:
  assumes "opt_res CFObj p \<subseteq># M"
  shows "runs M (kp_copy_public_key fw p err) (handed (\<lambda>b. opt_res Buf (fst b)) M)"
  unfolding kp_copy_public_key_def
proof (intro runs_usePtr [OF assms] runs_acquire_opt)
  fix q
  show "runs (add_mset (CFObj q) M) (case Some q of None \<Rightarrow>
       gbind (set_err fw err (Some (CFSTR ''SecKeyCopyPublicKey returned NULL''))) (\<lambda>err1. ret (- 1, (None, []), err1))
     | Some p \<Rightarrow>
         gbind (mark (Use (CFObj p))) (\<lambda>_.
         gbind (acquire_either (SecKeyCopyExternalRepresentation fw p)) (\<lambda>data.
         gbind (CFRelease fw p) (\<lambda>_.
         case data of
           Inl cfErr \<Rightarrow> gbind (cf_failure fw err cfErr) (\<lambda>err1. ret (- 1, (None, []), err1))
         | Inr bs \<Rightarrow> gbind (copy_to_buf fw bs err) (\<lambda>r. gbind (CFRelease fw bs) (\<lambda>_. ret r))))))
     (handed (\<lambda>b. opt_res Buf (fst b)) M)"
    unfolding option.case
    by (intro runs_use runs_acquire_either runs_CFRelease) (simp_all add: runs_tails)
qed (auto intro!: runs_set_err runs_ret simp: handed_def)

lemma runs_kp_sign:
  assumes "opt_res CFObj p \<subseteq># M"
  shows "runs M (kp_sign fw p hash digest err) (handed (\<lambda>b. opt_res Buf (fst b)) M)"
proof (cases "signAlgorithm hash")
  case None
  then show ?thesis unfolding kp_sign_def by (auto intro!: runs_set_err runs_ret simp: handed_def)
next
  case (Some alg)
  have "opt_res CFObj p \<subseteq># add_mset x M" for x
    using assms by (cases p) auto
  with Some show ?thesis unfolding kp_sign_def Some option.case
    by (intro runs_acquire runs_usePtr runs_use runs_acquire_either runs_CFRelease) (simp_all add: runs_tails)
qed

lemma runs_createAttrs:
  assumes "CFObj (fst p) \<in># M" and "\<And>a kvs b. runs (add_mset (CFObj b) (add_mset (CFObj a) M)) (k ((a, kvs), b)) R"
  shows "runs M (gbind (createAttrs fw p) k) R"
  unfolding createAttrs_def gbind_assoc ret_gbind
  by (intro runs_rules) (simp_all add: assms)

lemma runs_generate:
  "runs (opt_res CFObj a + (add_mset (CFObj (fst p)) (add_mset (CFObj t) M))) (generate fw t p a err)
     (handed (opt_res CFObj) M)"
proof -
  have "runs (add_mset (CFObj b) (add_mset (CFObj q) (opt_res CFObj a + (add_mset (CFObj (fst p)) (add_mset (CFObj t) M)))))
     (gbind (mark (Use (CFObj q))) (\<lambda>_.
      gbind (acquire_either f) (\<lambda>privKey.
      gbind (CFRelease fw b) (\<lambda>_. gbind (CFRelease fw q) (\<lambda>_. gbind (CFRelease fw (fst p)) (\<lambda>_.
      gbind (CFRelease fw t) (\<lambda>_. gbind (releaseOpt fw a) (\<lambda>_.
      case privKey of
        Inl cfErr \<Rightarrow> gbind (cf_failure fw err cfErr) (\<lambda>err1. ret (- 1, None, err1))
      | Inr key \<Rightarrow> ret (0, Some key, err)))))))))
     (handed (opt_res CFObj) M)" for b q and f :: "'b \<Rightarrow> (nat option + nat) \<times> 'b" and fw :: "'b secfw"
    by (cases a; intro runs_use runs_acquire_either runs_CFRelease runs_releaseOpt) (simp_all add: runs_tails)
  then show ?thesis unfolding generate_def by (intro runs_createAttrs) simp_all
qed

lemma runs_generate_cases:
  "runs (add_mset (CFObj q) (add_mset (CFObj t) M)) (generate fw t (q, kvs) None err) (handed (opt_res CFObj) M)"
  "runs (add_mset (CFObj a) (add_mset (CFObj q) (add_mset (CFObj t) M))) (generate fw t (q, kvs) (Some a) err)
     (handed (opt_res CFObj) M)"
  using runs_generate [of None "(q, kvs)" t M fw err] runs_generate [of "Some a" "(q, kvs)" t M fw err]
  by (simp_all add: add_mset_commute)

lemma runs_no_access:
  "runs (opt_res CFObj e + (add_mset (CFObj q) (add_mset (CFObj t) M)))
     (gbind (cf_failure fw err e) (\<lambda>err1. gbind (CFRelease fw q) (\<lambda>_. gbind (CFRelease fw t) (\<lambda>_. ret (- 1, None, err1)))))
     (handed (opt_res CFObj) M)"
  by (intro runs_cf_failure runs_CFRelease runs_ret) (simp_all add: handed_def)

lemma runs_no_access_Some:
  "runs (add_mset (CFObj e) (add_mset (CFObj q) (add_mset (CFObj t) M)))
     (gbind (cf_failure fw err (Some e)) (\<lambda>err1. gbind (CFRelease fw q) (\<lambda>_. gbind (CFRelease fw t) (\<lambda>_. ret (- 1, None, err1)))))
     (handed (opt_res CFObj) M)"
  using runs_no_access [of "Some e" q t M fw err] by (simp add: add_mset_commute)

lemma runs_kp_create_key:
  assumes "CStr (fst t) \<in># M"
  shows "runs M (kp_create_key fw t err) (handed (opt_res CFObj) M)"
proof (cases "KP_SECURE_ENCLAVE fw")
  case False
  show ?thesis unfolding kp_create_key_def if_not_P [OF False]
    by (intro runs_make_tag [OF assms] runs_createDict runs_setValue) (simp_all add: runs_generate_cases)
next
  case True
  show ?thesis unfolding kp_create_key_def if_P [OF True]
    by (intro runs_make_tag [OF assms] runs_createDict runs_setValue runs_acquire_either)
      (auto simp: runs_generate_cases runs_no_access [of None, simplified] runs_no_access_Some
        intro!: runs_setValue)
qed

lemma runs_rel_only: "r \<in># M \<Longrightarrow> runs M (gbind (act f) (\<lambda>_. mark (Rel r))) (\<lambda>_. M - {#r#})"
  by (rule runs_act) (auto simp: runs_def mark_def)

lemma runs_kp_release:
  assumes "opt_res CFObj p \<subseteq># M"
  shows "runs M (kp_release fw p) (\<lambda>_. M - opt_res CFObj p)"
  using assms by (cases p) (simp_all add: kp_release_def releaseOpt_def CFRelease_def runs_ret runs_rel_only)

section \<open>The Go functions\<close>

lemma moves_runs:
  assumes "runs M f R" and "\<And>x. moves mac_log (\<lambda>_. R x) (k x) Q"
  shows "moves mac_log (\<lambda>_. M) (gbind f k) Q"
proof (rule moves_gbind)
  show "moves mac_log (\<lambda>_. M) f (\<lambda>r w. case r of Ret x \<Rightarrow> R x | _ \<Rightarrow> Q (case r of Fail e \<Rightarrow> Fail e | Panic p \<Rightarrow> Panic p) w)"
  proof (rule movesI)
    fix w
    obtain x w1 es where "f w = (Ret x, w1)" "mac_log w1 = mac_log w @ es"
      "\<And>F. run_log (M + F) es = Some (R x + F)" by (rule runsE [OF assms(1)]) blast
    then show "\<exists>es. mac_log (snd (f w)) = mac_log w @ es \<and> (\<forall>F. run_log (M + F) es =
        Some ((case fst (f w) of Ret x \<Rightarrow> R x | _ \<Rightarrow> Q (case fst (f w) of Fail e \<Rightarrow> Fail e | Panic p \<Rightarrow> Panic p) (snd (f w))) + F))"
      by auto
  qed
qed (simp_all add: assms(2))

lemma moves_st_runs: "runs M f (\<lambda>_. N) \<Longrightarrow> moves_st mac_log (\<lambda>_. M) (\<lambda>w. snd (f w)) (\<lambda>_. N)"
  unfolding moves_st_iff by (metis runsE snd_conv)

lemma runs_free: "r \<in># M \<Longrightarrow> runs M (free fw r a) (\<lambda>_. M - {#r#})"
  unfolding free_def by (rule runs_rel_only)

lemma moves_withCString:
  assumes "\<And>a. moves mac_log (\<lambda>_. add_mset (CStr a) M) (body (a, bytes_of_string name)) (\<lambda>r _. add_mset (CStr a) (Q r))"
  shows "moves mac_log (\<lambda>_. M) (withCString fw name body) (\<lambda>r _. Q r)"
  unfolding withCString_def
proof (rule moves_runs)
  have "runs M (gbind (acquire CStr (act (cgo_CString fw (bytes_of_string name)))) ret) (\<lambda>a. add_mset (CStr a) M)"
    by (intro runs_acquire runs_ret refl)
  then show "runs M (acquire CStr (act (cgo_CString fw (bytes_of_string name)))) (\<lambda>a. add_mset (CStr a) M)"
    by simp
  show "moves mac_log (\<lambda>_. add_mset (CStr a) M)
      (deferred (\<lambda>_ w. snd (free fw (CStr a) a w)) (body (a, bytes_of_string name))) (\<lambda>r _. Q r)" for a
  proof (rule moves_deferred [OF assms])
    have "runs (add_mset (CStr a) N) (free fw (CStr a) a) (\<lambda>_. N)" for N
      using runs_free [of "CStr a" "add_mset (CStr a) N"] by simp
    then show "moves_st mac_log (\<lambda>_. add_mset (CStr a) (Q r)) (\<lambda>w. snd (free fw (CStr a) a w)) (\<lambda>_. Q r)" for r
      by (rule moves_st_runs)
  qed
qed

text \<open>A buffer that is copied to Go memory and freed; nil owns nothing.\<close>

lemma runs_freeBuf: "runs (M + opt_res Buf p) (freeBuf fw p) (\<lambda>_. M)"
  using runs_free [of "Buf (the p)" "add_mset (Buf (the p)) M" fw "the p"]
  by (cases p) (simp_all add: freeBuf_def runs_ret)

lemma moves_with_buf:
  assumes "\<And>raw. moves mac_log (\<lambda>_. M + opt_res Buf (fst b)) (k raw) (\<lambda>_ _. M + opt_res Buf (fst b))"
  shows "moves mac_log (\<lambda>_. M + opt_res Buf (fst b)) (deferred (\<lambda>_ w. snd (freeBuf fw (fst b) w)) (gbind (goBytes b) k)) (\<lambda>_ _. M)"
proof (rule moves_deferred)
  let ?N = "M + opt_res Buf (fst b)"
  have "runs ?N (case fst b of None \<Rightarrow> ret () | Some a \<Rightarrow> mark (Use (Buf a))) (\<lambda>_. ?N)"
    by (cases "fst b") (simp_all add: runs_ret, simp add: runs_def mark_def)
  then show "moves mac_log (\<lambda>_. ?N) (gbind (goBytes b) k) (\<lambda>_ _. ?N)"
    unfolding goBytes_def Let_def
    by (cases "sint (word_of_nat (length (snd b)) :: 32 word) < 0")
      (auto simp: gbind_assoc intro: moves_panic moves_runs assms)
  show "moves_st mac_log (\<lambda>_. ?N) (\<lambda>w. snd (freeBuf fw (fst b) w)) (\<lambda>_. M)" for r :: "'b outcome"
    by (rule moves_st_runs [OF runs_freeBuf])
qed

lemma moves_copyPublicKey:
  assumes "opt_res CFObj p \<subseteq># M"
  shows "moves mac_log (\<lambda>_. M) (copyPublicKey fw p) (\<lambda>_ _. M)"
  unfolding copyPublicKey_def
proof (rule moves_runs [OF runs_kp_copy_public_key [OF assms]], clarify)
  fix rc :: int and a bs err
  have "moves mac_log (\<lambda>_. M + opt_res Buf (fst (a, bs))) (deferred (\<lambda>_ w. snd (freeBuf fw (fst (a, bs)) w))
      (gbind (goBytes (a, bs)) (\<lambda>raw. of_sum (parseECPublicKey raw)))) (\<lambda>_ _. M)"
    by (rule moves_with_buf) (auto intro: moves_of_sum)
  then show "moves mac_log (\<lambda>_. handed (\<lambda>b. opt_res Buf (fst b)) M (rc, (a, bs), err))
      (if rc \<noteq> 0 then fail (Errorf ''copy public key: %s'' [FStr (secError rc err)])
       else deferred (\<lambda>_ w. snd (freeBuf fw (fst (a, bs)) w))
         (gbind (goBytes (a, bs)) (\<lambda>raw. of_sum (parseECPublicKey raw)))) (\<lambda>_ _. M)"
    by (auto simp: handed_def intro: moves_fail)
qed

definition es_res :: "enclaveSigner \<Rightarrow> mac_res multiset" where
  "es_res s = opt_res CFObj (es_priv s)"

text \<open>The end of \<^verbatim>\<open>createKey\<close> and \<^verbatim>\<open>loadKey\<close>: the reference is the signer's, or the closure drops it.\<close>

lemma moves_finish:
  assumes "moves_st mac_log (\<lambda>_. M + opt_res CFObj p) d (\<lambda>_. M)"
  shows "moves mac_log (\<lambda>_. M + opt_res CFObj p)
    (deferred (\<lambda>r w. if \<not> returned r then d w else w) (gbind (copyPublicKey fw p) (\<lambda>pub. ret \<lparr>es_priv = p, es_pub = pub\<rparr>)))
    (\<lambda>r _. M + made es_res r)"
proof (rule moves_deferred)
  let ?N = "M + opt_res CFObj p"
  show "moves mac_log (\<lambda>_. ?N) (gbind (copyPublicKey fw p) (\<lambda>pub. ret \<lparr>es_priv = p, es_pub = pub\<rparr>))
      (\<lambda>r _. if returned r then M + made es_res r else ?N)"
    by (rule moves_gbind [OF moves_copyPublicKey]) (auto intro: moves_ret simp: es_res_def)
  show "moves_st mac_log (\<lambda>_. if returned r then M + made es_res r else ?N) (\<lambda>w. if \<not> returned r then d w else w)
      (\<lambda>_. M + made es_res r)" for r
    using assms by (cases r) (auto intro: moves_st_id)
qed

lemma moves_st_release: "moves_st mac_log (\<lambda>_. M + opt_res CFObj p) (\<lambda>w. snd (kp_release fw p w)) (\<lambda>_. M)"
  using moves_st_runs [OF runs_kp_release [of p "M + opt_res CFObj p" fw]] by simp

lemma moves_st_rollback:
  "moves_st mac_log (\<lambda>_. add_mset (CStr a) M + opt_res CFObj p) (rollback fw (a, t) p) (\<lambda>_. add_mset (CStr a) M)"
proof -
  have "runs (add_mset (CStr a) M + opt_res CFObj p) (gbind (kp_release fw p) (\<lambda>_. kp_delete_key fw (a, t) newErrBuf))
      (\<lambda>_. add_mset (CStr a) M)"
    by (rule runs_bind [OF runs_kp_release]) (simp_all add: runs_kp_delete_key)
  then show ?thesis unfolding rollback_def by (rule moves_st_runs)
qed

text \<open>A key reference that was opened, and what is done with it.\<close>

lemma moves_handed:
  assumes "runs M f (handed (opt_res CFObj) M)"
    and "\<And>p err. moves mac_log (\<lambda>_. M + opt_res CFObj p) (k 0 p err) Q"
    and "\<And>rc p err. rc \<noteq> 0 \<Longrightarrow> moves mac_log (\<lambda>_. M) (k rc p err) Q"
  shows "moves mac_log (\<lambda>_. M) (gbind f (\<lambda>(rc, p, err). k rc p err)) Q"
proof (rule moves_runs [OF assms(1)], clarify)
  fix rc :: int and p err
  show "moves mac_log (\<lambda>_. handed (opt_res CFObj) M (rc, p, err)) (k rc p err) Q"
    by (cases "rc = 0") (simp_all add: handed_def assms(2,3))
qed

lemma moves_createKey_darwin: "moves mac_log (\<lambda>_. {#}) (createKey_darwin fw name) (\<lambda>r _. made es_res r)"
  unfolding createKey_darwin_def
proof (intro moves_withCString moves_handed)
  fix a p err
  let ?t = "(a, bytes_of_string name)" and ?C = "{#CStr a#}"
  let ?Q = "\<lambda>r _. add_mset (CStr a) (made es_res r)"
  show "runs ?C (kp_load_key fw ?t newErrBuf) (handed (opt_res CFObj) ?C)"
    by (rule runs_kp_load_key) simp
  have "moves mac_log (\<lambda>_. ?C + opt_res CFObj p) (gbind (kp_release fw p) (\<lambda>_. fail e)) ?Q" for e
    by (rule moves_runs [OF runs_kp_release]) (auto intro: moves_fail)
  then show "moves mac_log (\<lambda>_. ?C + opt_res CFObj p) (if 0 = (0::int) then gbind (kp_release fw p) (\<lambda>_. fail e)
      else g) ?Q" for e g
    by simp
  have "moves mac_log (\<lambda>_. ?C) (gbind (kp_create_key fw ?t err) (\<lambda>(rc, priv, errBuf).
       if rc \<noteq> 0 then fail (Errorf ''create persisted key: %s'' [FStr (secError rc errBuf)])
       else deferred (\<lambda>r w. if \<not> returned r then rollback fw ?t priv w else w)
         (gbind (copyPublicKey fw priv) (\<lambda>pub. ret \<lparr>es_priv = priv, es_pub = pub\<rparr>)))) ?Q"
  proof (rule moves_handed)
    show "runs ?C (kp_create_key fw ?t err) (handed (opt_res CFObj) ?C)"
      by (rule runs_kp_create_key) simp
    show "moves mac_log (\<lambda>_. ?C + opt_res CFObj q) (if 0 \<noteq> (0::int) then fail (e 0)
       else deferred (\<lambda>r w. if \<not> returned r then rollback fw ?t q w else w)
         (gbind (copyPublicKey fw q) (\<lambda>pub. ret \<lparr>es_priv = q, es_pub = pub\<rparr>))) ?Q" for q and e :: "int \<Rightarrow> go_err"
      using moves_finish [OF moves_st_rollback [of a "{#}" q fw "bytes_of_string name"], of fw] by simp
  qed (auto intro: moves_fail)
  then show "moves mac_log (\<lambda>_. ?C) (if rc = 0 then g else gbind (kp_create_key fw ?t err) (\<lambda>(rc, priv, errBuf).
       if rc \<noteq> 0 then fail (Errorf ''create persisted key: %s'' [FStr (secError rc errBuf)])
       else deferred (\<lambda>r w. if \<not> returned r then rollback fw ?t priv w else w)
         (gbind (copyPublicKey fw priv) (\<lambda>pub. ret \<lparr>es_priv = priv, es_pub = pub\<rparr>)))) ?Q" if "rc \<noteq> 0" for rc :: int and g
    using that by simp
qed

lemma moves_loadKey_darwin: "moves mac_log (\<lambda>_. {#}) (loadKey_darwin fw name) (\<lambda>r _. made es_res r)"
  unfolding loadKey_darwin_def
proof (intro moves_withCString moves_handed)
  fix a p
  let ?t = "(a, bytes_of_string name)" and ?C = "{#CStr a#}"
  show "runs ?C (kp_load_key fw ?t newErrBuf) (handed (opt_res CFObj) ?C)"
    by (rule runs_kp_load_key) simp
  show "moves mac_log (\<lambda>_. ?C + opt_res CFObj p) (if 0 \<noteq> (0::int) then fail e
      else deferred (\<lambda>r w. if \<not> returned r then snd (kp_release fw p w) else w)
        (gbind (copyPublicKey fw p) (\<lambda>pub. ret \<lparr>es_priv = p, es_pub = pub\<rparr>)))
      (\<lambda>r _. add_mset (CStr a) (made es_res r))" for e
    using moves_finish [OF moves_st_release [of ?C p fw], of fw] by simp
qed (auto intro: moves_fail)

lemma moves_deleteKey_darwin: "moves mac_log (\<lambda>_. {#}) (deleteKey_darwin fw name) (\<lambda>_ _. {#})"
  unfolding deleteKey_darwin_def
  by (rule moves_withCString, rule moves_runs [OF runs_kp_delete_key])
    (auto intro: moves_fail moves_ret)

lemma moves_Sign_darwin:
  "moves mac_log (\<lambda>_. es_res s) (enclaveSigner_Sign fw s digest opts) (\<lambda>_ _. es_res s)"
proof -
  have "moves mac_log (\<lambda>_. es_res s) (gbind (kp_sign fw (es_priv s) hash digest newErrBuf) (\<lambda>(rc, sig, errBuf).
      if rc \<noteq> 0 then fail (Errorf ''sign: %s'' [FStr (secError rc errBuf)])
      else deferred (\<lambda>_ w. snd (freeBuf fw (fst sig) w)) (goBytes sig))) (\<lambda>_ _. es_res s)" for hash
  proof (rule moves_runs [OF runs_kp_sign], simp add: es_res_def, clarify)
    fix rc :: int and b c err
    from moves_with_buf [of "es_res s" "(b, c)" ret fw]
    have "moves mac_log (\<lambda>_. es_res s + opt_res Buf b) (deferred (\<lambda>_ w. snd (freeBuf fw b w)) (goBytes (b, c))) (\<lambda>_ _. es_res s)"
      by (simp add: moves_ret)
    then show "moves mac_log (\<lambda>_. handed (\<lambda>b. opt_res Buf (fst b)) (es_res s) (rc, (b, c), err))
      (if rc \<noteq> 0 then fail (Errorf ''sign: %s'' [FStr (secError rc err)])
       else deferred (\<lambda>_ w. snd (freeBuf fw (fst (b, c)) w)) (goBytes (b, c))) (\<lambda>_ _. es_res s)"
      by (auto simp: handed_def intro: moves_fail)
  qed
  then show ?thesis
    by (auto simp: enclaveSigner_Sign_def split: signer_opts.split option.split intro!: moves_fail moves_panic)
qed

lemma Close_darwin_closed:
  "enclaveSigner_Close fw (s, w) = (r, s', w') \<Longrightarrow> r = Ret () \<and> es_priv s' = None \<and> es_pub s' = es_pub s"
  by (auto simp: enclaveSigner_Close_def split: option.splits)

lemma moves_Close_darwin:
  "moves (mac_log \<circ> snd) (\<lambda>sw. es_res (fst sw)) (enclaveSigner_Close fw) (\<lambda>_ _. {#})"
proof (rule movesI)
  fix sw :: "enclaveSigner \<times> 'a mac"
  obtain s w where sw: "sw = (s, w)" by (cases sw)
  show "\<exists>es. (mac_log \<circ> snd) (snd (enclaveSigner_Close fw sw)) = (mac_log \<circ> snd) sw @ es \<and>
      (\<forall>F. run_log (es_res (fst sw) + F) es = Some ({#} + F))"
  proof (cases "es_priv s")
    case (Some p)
    from moves_st_release [of "{#}" "Some p" fw, unfolded moves_st_iff, rule_format, of w]
    show ?thesis by (simp add: sw enclaveSigner_Close_def Some es_res_def)
  qed (simp add: sw enclaveSigner_Close_def es_res_def)
qed

lemma darwin_backend_simps [simp]:
  "bk_create (darwin_backend fw) = createKey_darwin fw" "bk_load (darwin_backend fw) = loadKey_darwin fw"
  "bk_delete (darwin_backend fw) = deleteKey_darwin fw"
  "bk_public (darwin_backend fw) = enclaveSigner_Public"
  "bk_sign (darwin_backend fw) = enclaveSigner_Sign fw"
  "bk_close (darwin_backend fw) = enclaveSigner_Close fw"
  by (simp_all add: darwin_backend_def)

interpretation darwin: key_backend mac_log "darwin_backend fw" es_res
  for fw
proof unfold_locales
  show "es_res s' = {#}" if "bk_close (darwin_backend fw) (s, w) = (r, s', w')" for s w r s' w'
    using Close_darwin_closed [of fw s w r s' w'] that by (simp add: es_res_def)
qed (simp_all add: moves_createKey_darwin moves_loadKey_darwin moves_deleteKey_darwin
    moves_Sign_darwin moves_Close_darwin)

end
