(* ===== verification/DarwinTable.thy ===== *)
theory DarwinTable
  imports DarwinKeys
begin

text \<open>
  What the macOS backend does to the keys that are stored. The keychain is known through its documented
  behaviour only (\<open>keychain_laws\<close>): \<open>tags d\<close> are the application tags of the private EC keys it holds in
  state \<open>d\<close>, one for each key, so that two keys with one tag count twice. A query or an attribute
  dictionary means something to it when it has the attributes the code is supposed to set; that the code
  sets them is part of what is proved.
\<close>

section \<open>The keychain\<close>

definition key_attrs :: "'d secfw \<Rightarrow> (string \<times> cf_value) list \<Rightarrow> bool" where
  "key_attrs fw kvs \<longleftrightarrow>
     map_of kvs ''kSecAttrKeyType'' = Some (Const ''kSecAttrKeyTypeECSECPrimeRandom'') \<and>
     (KP_SECURE_ENCLAVE fw \<longrightarrow> map_of kvs ''kSecAttrTokenID'' = Some (Const ''kSecAttrTokenIDSecureEnclave'') \<and>
        map_of kvs ''kSecUseDataProtectionKeychain'' = Some (Const ''kCFBooleanTrue''))"

definition tag_attr :: "(string \<times> cf_value) list \<Rightarrow> bytes option" where
  "tag_attr kvs = (case map_of kvs ''kSecAttrApplicationTag'' of Some (Data r t) \<Rightarrow> Some t | _ \<Rightarrow> None)"

text \<open>The tag a query asks for, and the tag under which \<^verbatim>\<open>SecKeyCreateRandomKey\<close> stores the new key.\<close>

definition query_tag :: "'d secfw \<Rightarrow> cf_dict \<Rightarrow> bytes option" where
  "query_tag fw q =
     (if key_attrs fw (snd q) \<and> map_of (snd q) ''kSecClass'' = Some (Const ''kSecClassKey'') \<and>
         map_of (snd q) ''kSecAttrKeyClass'' = Some (Const ''kSecAttrKeyClassPrivate'')
      then tag_attr (snd q) else None)"

definition stored_tag :: "'d secfw \<Rightarrow> cf_dict \<Rightarrow> bytes option" where
  "stored_tag fw a =
     (if key_attrs fw (snd a) then
        (case map_of (snd a) ''kSecPrivateKeyAttrs'' of
           Some (Dict r kvs) \<Rightarrow>
             (if map_of kvs ''kSecAttrIsPermanent'' = Some (Const ''kCFBooleanTrue'') then tag_attr kvs else None)
         | _ \<Rightarrow> None)
      else None)"

text \<open>The calls that are not about stored keys leave them alone.\<close>

definition quiet_fw :: "'d secfw \<Rightarrow> ('d \<Rightarrow> bytes multiset) \<Rightarrow> bool" where
  "quiet_fw fw tags \<longleftrightarrow>
     (\<forall>bs d. tags (snd (CFDataCreate fw bs d)) = tags d) \<and>
     (\<forall>d. tags (snd (CFDictionaryCreateMutable fw d)) = tags d) \<and>
     (\<forall>n d. tags (snd (CFNumberCreate fw n d)) = tags d) \<and>
     (\<forall>r d. tags (CFRelease_call fw r d) = tags d) \<and>
     (\<forall>e d. tags (snd (CFErrorCopyDescription fw e d)) = tags d) \<and>
     (\<forall>p f d. tags (snd (SecAccessControlCreateWithFlags fw p f d)) = tags d) \<and>
     (\<forall>p d. tags (snd (SecKeyCopyPublicKey fw p d)) = tags d) \<and>
     (\<forall>p d. tags (snd (SecKeyCopyExternalRepresentation fw p d)) = tags d) \<and>
     (\<forall>p alg bs d. tags (snd (SecKeyCreateSignature fw p alg bs d)) = tags d) \<and>
     (\<forall>n d. tags (snd (c_malloc fw n d)) = tags d) \<and>
     (\<forall>a d. tags (c_free fw a d) = tags d) \<and>
     (\<forall>bs d. tags (snd (cgo_CString fw bs d)) = tags d)"

text \<open>
  \<^verbatim>\<open>errSecSuccess\<close> (0) of a lookup means that a key was found, \<^verbatim>\<open>errSecItemNotFound\<close> (-25300) that there
  is none; any other status says nothing about the keys. \<^verbatim>\<open>SecItemDelete\<close> removes every match.
\<close>

definition keychain_laws :: "'d secfw \<Rightarrow> ('d \<Rightarrow> bytes multiset) \<Rightarrow> bool" where
  "keychain_laws fw tags \<longleftrightarrow> quiet_fw fw tags \<and>
     (\<forall>q t d. query_tag fw q = Some t \<longrightarrow>
        (case SecItemCopyMatching fw q d of ((st, r), d') \<Rightarrow>
           tags d' = tags d \<and> (st = 0 \<longrightarrow> t \<in># tags d) \<and> (st = - 25300 \<longrightarrow> t \<notin># tags d))) \<and>
     (\<forall>q t d. query_tag fw q = Some t \<longrightarrow>
        (case SecItemDelete fw q d of (st, d') \<Rightarrow>
           tags d' = (if st = 0 then filter_mset (\<lambda>u. u \<noteq> t) (tags d) else tags d))) \<and>
     (\<forall>a t d. stored_tag fw a = Some t \<longrightarrow>
        (case SecKeyCreateRandomKey fw a d of (r, d') \<Rightarrow>
           tags d' = (case r of Inr key \<Rightarrow> add_mset t (tags d) | Inl e \<Rightarrow> tags d)))"

lemma laws_quiet: "keychain_laws fw tags \<Longrightarrow> quiet_fw fw tags"
  by (simp add: keychain_laws_def)

section \<open>Calls that leave the keys alone\<close>

abbreviation tags_are :: "('d \<Rightarrow> bytes multiset) \<Rightarrow> bytes multiset \<Rightarrow> 'd mac \<Rightarrow> bool" where
  "tags_are tags T w \<equiv> tags (mac_dev w) = T"

lemma tt_mark: "triple (tags_are tags T) (k ()) Q \<Longrightarrow> triple (tags_are tags T) (gbind (mark e) k) Q"
  by (simp add: triple_def gbind_def mark_def)

lemma tt_act:
  assumes "\<And>d. tags (snd (f d)) = tags d" and "\<And>x. triple (tags_are tags T) (k x) Q"
  shows "triple (tags_are tags T) (gbind (act f) k) Q"
proof (rule tripleI)
  fix w r w'
  assume w: "tags (mac_dev w) = T" and g: "gbind (act f) k w = (r, w')"
  obtain x d where f: "f (mac_dev w) = (x, d)" by fastforce
  with g have "k x (w\<lparr>mac_dev := d\<rparr>) = (r, w')" by (simp add: gbind_def act_def)
  from tripleD [OF assms(2) this] show "Q r w'" using assms(1) [of "mac_dev w"] f w by simp
qed

lemma tt_ret: "(\<And>w. tags_are tags T w \<Longrightarrow> Q (Ret x) w) \<Longrightarrow> triple (tags_are tags T) (ret x) Q"
  by (rule triple_ret)

lemma tt_acquire:
  assumes "\<And>d. tags (snd (f d)) = tags d" and "\<And>x. triple (tags_are tags T) (k x) Q"
  shows "triple (tags_are tags T) (gbind (acquire c (act f)) k) Q"
  unfolding acquire_def gbind_assoc ret_gbind by (intro tt_act tt_mark assms)

lemma tt_acquire_opt:
  assumes "\<And>d. tags (snd (f d)) = tags d" and "\<And>x. triple (tags_are tags T) (k x) Q"
  shows "triple (tags_are tags T) (gbind (acquire_opt c (act f)) k) Q"
  unfolding acquire_opt_def gbind_assoc
  by (intro tt_act assms(1)) (auto split: option.split simp: gbind_assoc ret_gbind intro!: tt_mark assms(2))

lemma tt_acquire_either:
  assumes "\<And>d. tags (snd (f d)) = tags d" and "\<And>x. triple (tags_are tags T) (k x) Q"
  shows "triple (tags_are tags T) (gbind (acquire_either f) k) Q"
  unfolding acquire_either_def gbind_assoc
  by (intro tt_act assms(1)) (auto split: option.split sum.split simp: gbind_assoc ret_gbind intro!: tt_mark assms(2))

lemma tt_usePtr: "triple (tags_are tags T) (k ()) Q \<Longrightarrow> triple (tags_are tags T) (gbind (usePtr p) k) Q"
  by (cases p) (simp_all add: usePtr_def ret_gbind tt_mark)

lemma tt_setValue:
  "triple (tags_are tags T) (k (fst q, AList.update a v (snd q))) Q
   \<Longrightarrow> triple (tags_are tags T) (gbind (CFDictionarySetValue q a v) k) Q"
  unfolding CFDictionarySetValue_def gbind_assoc ret_gbind by (intro tt_mark tt_usePtr)

lemma fw_quietD:
  assumes "quiet_fw fw tags"
  shows "tags (snd (CFDataCreate fw bs d)) = tags d" "tags (snd (CFDictionaryCreateMutable fw d)) = tags d"
    "tags (snd (CFNumberCreate fw n d)) = tags d" "tags (CFRelease_call fw r d) = tags d"
    "tags (snd (CFErrorCopyDescription fw e d)) = tags d"
    "tags (snd (SecAccessControlCreateWithFlags fw pr fl d)) = tags d"
    "tags (snd (SecKeyCopyPublicKey fw p d)) = tags d" "tags (snd (SecKeyCopyExternalRepresentation fw e d)) = tags d"
    "tags (snd (SecKeyCreateSignature fw p alg bs d)) = tags d" "tags (snd (c_malloc fw n' d)) = tags d"
    "tags (c_free fw a d) = tags d" "tags (snd (cgo_CString fw bs d)) = tags d"
  using assms by (simp_all add: quiet_fw_def)

lemma tt_CFRelease:
  "quiet_fw fw tags \<Longrightarrow> triple (tags_are tags T) (k ()) Q \<Longrightarrow> triple (tags_are tags T) (gbind (CFRelease fw r) k) Q"
  unfolding CFRelease_def gbind_assoc by (intro tt_act tt_mark) (simp_all add: fw_quietD)

lemma tt_releaseOpt:
  "quiet_fw fw tags \<Longrightarrow> triple (tags_are tags T) (k ()) Q \<Longrightarrow> triple (tags_are tags T) (gbind (releaseOpt fw p) k) Q"
  by (cases p) (simp_all add: releaseOpt_def ret_gbind tt_CFRelease)

lemma tt_createDict:
  "quiet_fw fw tags \<Longrightarrow> (\<And>r. triple (tags_are tags T) (k (r, [])) Q) \<Longrightarrow> triple (tags_are tags T) (gbind (createDict fw) k) Q"
  unfolding createDict_def gbind_assoc ret_gbind by (intro tt_acquire) (simp_all add: fw_quietD)

lemma tt_make_tag:
  "quiet_fw fw tags \<Longrightarrow> (\<And>r. triple (tags_are tags T) (k r) Q) \<Longrightarrow> triple (tags_are tags T) (gbind (make_tag fw t) k) Q"
  unfolding make_tag_def gbind_assoc by (intro tt_mark tt_acquire) (simp_all add: fw_quietD)

lemma tt_set_err:
  assumes "\<And>e. triple (tags_are tags T) (k e) Q"
  shows "triple (tags_are tags T) (gbind (set_err fw err msg) k) Q"
proof -
  have "triple (tags_are tags T) (gbind (act (\<lambda>d. (CFStringGetCString fw m n d, d)))
      (\<lambda>x. gbind (case x of (ok, ws) \<Rightarrow> if \<not> ok then ret (h ws) else ret (h' ws)) k)) Q" for m n h h'
    by (rule tt_act) (simp_all add: assms ret_gbind split: prod.split)
  then show ?thesis
    by (auto simp: set_err_def gbind_assoc ret_gbind assms split: option.split cf_string.split intro!: tt_mark)
qed

lemma tt_cf_failure:
  assumes q: "quiet_fw fw tags" and "\<And>e. triple (tags_are tags T) (k e) Q"
  shows "triple (tags_are tags T) (gbind (cf_failure fw err e) k) Q"
proof -
  have err: "triple (tags_are tags T) (gbind (set_cferror fw err e) k') Q" if "\<And>e. triple (tags_are tags T) (k' e) Q" for k'
  proof (cases e)
    case None
    show ?thesis unfolding set_cferror_def None option.case by (rule tt_set_err [OF that])
  next
    case (Some r)
    show ?thesis unfolding set_cferror_def Some option.case gbind_assoc ret_gbind
      by (intro tt_mark tt_acquire_opt tt_set_err tt_releaseOpt [OF q] that) (simp add: fw_quietD [OF q])
  qed
  show ?thesis unfolding cf_failure_def gbind_assoc ret_gbind
    by (rule err, rule tt_releaseOpt [OF q], rule assms(2))
qed

lemmas tt_rules = tt_mark tt_act tt_acquire tt_acquire_opt tt_acquire_either tt_usePtr tt_setValue
  tt_CFRelease tt_releaseOpt tt_createDict tt_make_tag tt_set_err tt_cf_failure

text \<open>The functions about one key only.\<close>

lemma tt_copy_to_buf:
  assumes q: "quiet_fw fw tags" and "\<And>x. triple (tags_are tags T) (k x) Q"
  shows "triple (tags_are tags T) (gbind (copy_to_buf fw data err) k) Q"
  unfolding copy_to_buf_def gbind_assoc
  by (intro tt_mark tt_act tt_acquire_opt)
    (auto simp: fw_quietD [OF q] gbind_assoc ret_gbind assms(2) split: option.split intro!: tt_set_err)

lemma tt_kp_copy_public_key:
  assumes q: "quiet_fw fw tags" and k: "\<And>x. triple (tags_are tags T) (k x) Q"
  shows "triple (tags_are tags T) (gbind (kp_copy_public_key fw p err) k) Q"
  unfolding kp_copy_public_key_def gbind_assoc
  by (intro tt_usePtr tt_acquire_opt)
    (auto simp: fw_quietD [OF q] gbind_assoc ret_gbind k split: option.split sum.split
      intro!: tt_set_err tt_mark tt_acquire_either tt_CFRelease [OF q] tt_cf_failure [OF q] tt_copy_to_buf [OF q])

lemma tt_kp_sign:
  assumes q: "quiet_fw fw tags" and k: "\<And>x. triple (tags_are tags T) (k x) Q"
  shows "triple (tags_are tags T) (gbind (kp_sign fw p hash digest err) k) Q"
  unfolding kp_sign_def
  by (auto simp: fw_quietD [OF q] gbind_assoc ret_gbind k split: option.split sum.split
      intro!: tt_set_err tt_mark tt_usePtr tt_acquire tt_acquire_either tt_CFRelease [OF q] tt_cf_failure [OF q]
        tt_copy_to_buf [OF q])

section \<open>The queries\<close>

text \<open>The dictionary \<^verbatim>\<open>make_query\<close> builds asks for the tag it was given.\<close>

lemma tt_make_query:
  assumes q: "quiet_fw fw tags"
    and "\<And>r kvs. query_tag fw (r, kvs) = Some (snd t) \<Longrightarrow> triple (tags_are tags T) (k (r, kvs)) Q"
  shows "triple (tags_are tags T) (gbind (make_query fw t) k) Q"
proof (cases "KP_SECURE_ENCLAVE fw")
  case True
  show ?thesis unfolding make_query_def setEnclave_def if_P [OF True] gbind_assoc ret_gbind
    by (intro tt_createDict [OF q] tt_setValue tt_make_tag [OF q] tt_CFRelease [OF q], simp only: fst_conv snd_conv)
      (rule assms(2), simp add: query_tag_def key_attrs_def tag_attr_def True)
next
  case False
  show ?thesis unfolding make_query_def setEnclave_def if_not_P [OF False] gbind_assoc ret_gbind
    by (intro tt_createDict [OF q] tt_setValue tt_make_tag [OF q] tt_CFRelease [OF q], simp only: fst_conv snd_conv)
      (rule assms(2), simp add: query_tag_def key_attrs_def tag_attr_def False)
qed

lemma query_tag_update:
  "query_tag fw (r, AList.update ''kSecReturnRef'' v kvs) = query_tag fw (r, kvs)"
proof -
  have "map_of (AList.update ''kSecReturnRef'' v kvs) k = map_of kvs k" if "k \<noteq> ''kSecReturnRef''" for k
    using that by (simp add: update_conv')
  then have "map_of (AList.update ''kSecReturnRef'' v kvs) k = map_of kvs k"
    if "k \<in> {''kSecAttrKeyType'', ''kSecAttrTokenID'', ''kSecUseDataProtectionKeychain'', ''kSecClass'',
        ''kSecAttrKeyClass'', ''kSecAttrApplicationTag''}" for k
    using that by auto
  then show ?thesis by (simp only: query_tag_def key_attrs_def tag_attr_def snd_conv insert_iff simp_thms)
qed

section \<open>The calls about stored keys\<close>

lemma laws_lookup:
  assumes "keychain_laws fw tags" and "query_tag fw q = Some t" and "SecItemCopyMatching fw q d = ((st, r), d')"
  shows "tags d' = tags d \<and> (st = 0 \<longrightarrow> t \<in># tags d) \<and> (st = - 25300 \<longrightarrow> t \<notin># tags d)"
proof -
  have "\<forall>q t d. query_tag fw q = Some t \<longrightarrow> (case SecItemCopyMatching fw q d of ((st, r), d') \<Rightarrow>
      tags d' = tags d \<and> (st = 0 \<longrightarrow> t \<in># tags d) \<and> (st = - 25300 \<longrightarrow> t \<notin># tags d))"
    using assms(1) unfolding keychain_laws_def by (elim conjE)
  from this [rule_format, OF assms(2), of d] assms(3) show ?thesis by simp
qed

lemma laws_delete:
  assumes "keychain_laws fw tags" and "query_tag fw q = Some t" and "SecItemDelete fw q d = (st, d')"
  shows "tags d' = (if st = 0 then filter_mset (\<lambda>u. u \<noteq> t) (tags d) else tags d)"
proof -
  have "\<forall>q t d. query_tag fw q = Some t \<longrightarrow> (case SecItemDelete fw q d of (st, d') \<Rightarrow>
      tags d' = (if st = 0 then filter_mset (\<lambda>u. u \<noteq> t) (tags d) else tags d))"
    using assms(1) unfolding keychain_laws_def by (elim conjE)
  from this [rule_format, OF assms(2), of d] assms(3) show ?thesis by simp
qed

lemma laws_create:
  assumes "keychain_laws fw tags" and "stored_tag fw a = Some t" and "SecKeyCreateRandomKey fw a d = (r, d')"
  shows "tags d' = (case r of Inr key \<Rightarrow> add_mset t (tags d) | Inl e \<Rightarrow> tags d)"
proof -
  have "\<forall>a t d. stored_tag fw a = Some t \<longrightarrow> (case SecKeyCreateRandomKey fw a d of (r, d') \<Rightarrow>
      tags d' = (case r of Inr key \<Rightarrow> add_mset t (tags d) | Inl e \<Rightarrow> tags d))"
    using assms(1) unfolding keychain_laws_def by (elim conjE)
  from this [rule_format, OF assms(2), of d] assms(3) show ?thesis by simp
qed

text \<open>A call after which the tags are \<open>N x\<close>, where \<open>x\<close> is its result.\<close>

lemma tt_call:
  assumes "\<And>d x d'. tags d = T \<Longrightarrow> f d = (x, d') \<Longrightarrow> tags d' = N x \<and> C x"
    and "\<And>x. C x \<Longrightarrow> triple (tags_are tags (N x)) (k x) Q"
  shows "triple (tags_are tags T) (gbind (act f) k) Q"
proof (rule tripleI)
  fix w r w'
  assume w: "tags (mac_dev w) = T" and g: "gbind (act f) k w = (r, w')"
  obtain x d where f: "f (mac_dev w) = (x, d)" by fastforce
  with g have k: "k x (w\<lparr>mac_dev := d\<rparr>) = (r, w')" by (simp add: gbind_def act_def)
  from assms(1) [OF w f] have "tags d = N x" "C x" by auto
  from tripleD [OF assms(2) [OF this(2)] k] this(1) show "Q r w'" by simp
qed

text \<open>\<open>answered fw t st\<close>: a lookup of \<open>t\<close> can end with the status \<open>st\<close>; \<open>refused fw t\<close>: a deletion can fail.\<close>

definition answered :: "'d secfw \<Rightarrow> bytes \<Rightarrow> int \<Rightarrow> bool" where
  "answered fw t st \<longleftrightarrow> (\<exists>q d. query_tag fw q = Some t \<and> fst (fst (SecItemCopyMatching fw q d)) = st)"

definition refused :: "'d secfw \<Rightarrow> bytes \<Rightarrow> bool" where
  "refused fw t \<longleftrightarrow> (\<exists>q d. query_tag fw q = Some t \<and> fst (SecItemDelete fw q d) \<noteq> 0)"

definition found :: "'d secfw \<Rightarrow> bytes \<Rightarrow> bytes multiset \<Rightarrow> int \<Rightarrow> bool" where
  "found fw t T st \<longleftrightarrow> (st = 0 \<longrightarrow> t \<in># T) \<and> (st = - 25300 \<longrightarrow> t \<notin># T) \<and> answered fw t st"

lemma tt_kp_load_key:
  assumes laws: "keychain_laws fw tags"
    and "\<And>rc p e. found fw (snd t) T rc \<Longrightarrow> triple (tags_are tags T) (k (rc, p, e)) Q"
  shows "triple (tags_are tags T) (gbind (kp_load_key fw t err) k) Q"
  unfolding kp_load_key_def gbind_assoc
proof (intro tt_make_query [OF laws_quiet [OF laws]] tt_setValue tt_mark, unfold fst_conv snd_conv)
  fix r kvs
  assume "query_tag fw (r, kvs) = Some (snd t)"
  then have c: "query_tag fw (r, AList.update ''kSecReturnRef'' v kvs) = Some (snd t)" for v
    by (simp add: query_tag_update)
  show "triple (tags_are tags T) (gbind (act (SecItemCopyMatching fw (r, AList.update ''kSecReturnRef'' (Const ''kCFBooleanTrue'') kvs)))
     (\<lambda>x. gbind (case x of (st, result) \<Rightarrow> gbind (if st = 0 then mark (Acq (CFObj result)) else ret ()) (\<lambda>_.
       gbind (CFRelease fw r) (\<lambda>_.
       if st \<noteq> 0 then ret (st, None, err[0 := 0]) else ret (0, Some result, err)))) k)) Q"
  proof (rule tt_call [where N = "\<lambda>_. T" and C = "\<lambda>(st, _). found fw (snd t) T st"])
    fix d x d'
    assume "tags d = T" and s: "SecItemCopyMatching fw (r, AList.update ''kSecReturnRef'' (Const ''kCFBooleanTrue'') kvs) d = (x, d')"
    moreover obtain st y where x: "x = (st, y)" by (cases x)
    moreover have "answered fw (snd t) st"
      unfolding answered_def using c [of "Const ''kCFBooleanTrue''"] s x by (metis fst_conv)
    ultimately show "tags d' = T \<and> (case x of (st, _) \<Rightarrow> found fw (snd t) T st)"
      using laws_lookup [OF laws c [of "Const ''kCFBooleanTrue''"], of d st y d'] by (simp add: found_def)
  qed (auto simp: gbind_assoc ret_gbind intro!: tt_mark tt_CFRelease [OF laws_quiet [OF laws]] assms(2))
qed

lemma tt_kp_delete_key:
  assumes laws: "keychain_laws fw tags"
    and "\<And>rc e. (rc \<noteq> 0 \<longrightarrow> refused fw (snd t)) \<Longrightarrow>
      triple (tags_are tags (if rc = 0 then filter_mset (\<lambda>u. u \<noteq> snd t) T else T)) (k (rc, e)) Q"
  shows "triple (tags_are tags T) (gbind (kp_delete_key fw t err) k) Q"
  unfolding kp_delete_key_def gbind_assoc
proof (intro tt_make_query [OF laws_quiet [OF laws]] tt_mark, unfold fst_conv)
  fix r kvs
  assume c: "query_tag fw (r, kvs) = Some (snd t)"
  show "triple (tags_are tags T) (gbind (act (SecItemDelete fw (r, kvs)))
     (\<lambda>st. gbind (CFRelease fw r) (\<lambda>_. gbind (if st \<noteq> 0 then ret (st, err[0 := 0]) else ret (0, err)) k))) Q"
  proof (rule tt_call [where N = "\<lambda>st. if st = 0 then filter_mset (\<lambda>u. u \<noteq> snd t) T else T"
        and C = "\<lambda>st. st \<noteq> 0 \<longrightarrow> refused fw (snd t)"])
    show "triple (tags_are tags (if st = 0 then filter_mset (\<lambda>u. u \<noteq> snd t) T else T))
        (gbind (CFRelease fw r) (\<lambda>_. gbind (if st \<noteq> 0 then ret (st, err[0 := 0]) else ret (0, err)) k)) Q"
      if "st \<noteq> 0 \<longrightarrow> refused fw (snd t)" for st
      using assms(2) [OF that] by (intro tt_CFRelease [OF laws_quiet [OF laws]]) (cases "st = 0"; simp add: ret_gbind)
    show "tags d' = (if st = 0 then filter_mset (\<lambda>u. u \<noteq> snd t) T else T) \<and> (st \<noteq> 0 \<longrightarrow> refused fw (snd t))"
      if "tags d = T" and d: "SecItemDelete fw (r, kvs) d = (st, d')" for d st d'
    proof -
      have "st \<noteq> 0 \<longrightarrow> refused fw (snd t)" unfolding refused_def using c d by (metis fst_conv)
      with laws_delete [OF laws c d] that(1) show ?thesis by simp
    qed
  qed
qed

text \<open>The attributes \<^verbatim>\<open>kp_create_key\<close> builds ask for a permanent key under the tag it was given.\<close>

definition permanent :: "(string \<times> cf_value) list \<Rightarrow> bytes \<Rightarrow> bool" where
  "permanent kvs t \<longleftrightarrow> map_of kvs ''kSecAttrIsPermanent'' = Some (Const ''kCFBooleanTrue'') \<and> tag_attr kvs = Some t"

lemma tt_createAttrs:
  assumes q: "quiet_fw fw tags" and p: "permanent (snd p) t"
    and "\<And>a kvs b. stored_tag fw (a, kvs) = Some t \<Longrightarrow> triple (tags_are tags T) (k ((a, kvs), b)) Q"
  shows "triple (tags_are tags T) (gbind (createAttrs fw p) k) Q"
proof (cases "KP_SECURE_ENCLAVE fw")
  case True
  show ?thesis unfolding createAttrs_def setEnclave_def if_P [OF True] gbind_assoc ret_gbind
    by (intro tt_createDict [OF q] tt_setValue tt_acquire fw_quietD(3) [OF q], simp only: fst_conv snd_conv)
      (rule assms(3), use p in \<open>simp add: stored_tag_def key_attrs_def permanent_def True\<close>)
next
  case False
  show ?thesis unfolding createAttrs_def setEnclave_def if_not_P [OF False] gbind_assoc ret_gbind
    by (intro tt_createDict [OF q] tt_setValue tt_acquire fw_quietD(3) [OF q], simp only: fst_conv snd_conv)
      (rule assms(3), use p in \<open>simp add: stored_tag_def key_attrs_def permanent_def False\<close>)
qed

lemma tt_generate:
  assumes laws: "keychain_laws fw tags" and p: "permanent (snd p) t"
    and k: "\<And>rc x e. triple (tags_are tags (if rc = 0 then add_mset t T else T)) (k (rc, x, e)) Q"
  shows "triple (tags_are tags T) (gbind (generate fw td p a err) k) Q"
proof -
  note q = laws_quiet [OF laws]
  have either: "triple (tags_are tags T) (gbind (acquire_either (SecKeyCreateRandomKey fw (ar, kvs))) k') Q"
    if c: "stored_tag fw (ar, kvs) = Some t"
      and k': "\<And>x. triple (tags_are tags (case x of Inr key \<Rightarrow> add_mset t T | Inl e \<Rightarrow> T)) (k' x) Q" for ar kvs k'
    unfolding acquire_either_def gbind_assoc
  proof (rule tt_call [where N = "\<lambda>x. case x of Inr key \<Rightarrow> add_mset t T | Inl e \<Rightarrow> T" and C = "\<lambda>_. True"])
    show "triple (tags_are tags (case x of Inr key \<Rightarrow> add_mset t T | Inl e \<Rightarrow> T)) (gbind (case x of
        Inr y \<Rightarrow> gbind (mark (Acq (CFObj y))) (\<lambda>_. ret x)
      | Inl (Some e) \<Rightarrow> gbind (mark (Acq (CFObj e))) (\<lambda>_. ret x) | Inl None \<Rightarrow> ret x) k') Q" for x
      using k' [of x] by (auto simp: gbind_assoc ret_gbind split: sum.splits option.split intro!: tt_mark)
  qed (use laws_create [OF laws c] in \<open>simp split: sum.split\<close>)
  have fin: "triple (tags_are tags (case x of Inr key \<Rightarrow> add_mset t T | Inl e \<Rightarrow> T)) (gbind (case x of
      Inl cfErr \<Rightarrow> gbind (cf_failure fw err cfErr) (\<lambda>err1. ret (- 1, None, err1))
    | Inr key \<Rightarrow> ret (0, Some key, err)) k) Q" for x
    using k [of 0] k [of "- 1"] by (cases x) (auto simp: gbind_assoc ret_gbind intro!: tt_cf_failure [OF q])
  show ?thesis unfolding generate_def gbind_assoc
    by (intro tt_createAttrs [OF q p], simp only: prod.case gbind_assoc fst_conv)
      (intro tt_mark either tt_CFRelease [OF q] tt_releaseOpt [OF q] fin, assumption)
qed

lemma tt_kp_create_key:
  assumes laws: "keychain_laws fw tags"
    and k: "\<And>rc x e. triple (tags_are tags (if rc = 0 then add_mset (snd t) T else T)) (k (rc, x, e)) Q"
  shows "triple (tags_are tags T) (gbind (kp_create_key fw t err) k) Q"
proof -
  note q = laws_quiet [OF laws]
  have gen: "triple (tags_are tags T) (gbind (generate fw td (r, kvs) a err) k) Q" if "permanent kvs (snd t)" for td r kvs a
    by (rule tt_generate [OF laws, where t = "snd t"]) (use that k in simp_all)
  have fail: "triple (tags_are tags T) (gbind (cf_failure fw err e) (\<lambda>err1. gbind (CFRelease fw x) (\<lambda>_.
      gbind (CFRelease fw y) (\<lambda>_. k (- 1, None, err1))))) Q" for e x y
    using k [of "- 1"] by (intro tt_cf_failure [OF q] tt_CFRelease [OF q]) simp
  show ?thesis
  proof (cases "KP_SECURE_ENCLAVE fw")
    case True
    show ?thesis unfolding kp_create_key_def if_P [OF True] gbind_assoc
      by (intro tt_make_tag [OF q] tt_createDict [OF q] tt_setValue tt_acquire_either fw_quietD(6) [OF q])
        (auto split: sum.split simp: gbind_assoc ret_gbind permanent_def tag_attr_def intro!: fail tt_setValue gen)
  next
    case False
    show ?thesis unfolding kp_create_key_def if_not_P [OF False] gbind_assoc
      by (intro tt_make_tag [OF q] tt_createDict [OF q] tt_setValue, simp only: fst_conv snd_conv)
        (rule gen, simp add: permanent_def tag_attr_def)
  qed
qed

section \<open>The Go functions\<close>

lemma tt_withCString:
  assumes q: "quiet_fw fw tags"
    and "\<And>a. triple (tags_are tags T) (body (a, bytes_of_string name)) (\<lambda>r w. R r (tags (mac_dev w)))"
  shows "triple (tags_are tags T) (withCString fw name body) (\<lambda>r w. R r (tags (mac_dev w)))"
  unfolding withCString_def
proof (rule tt_acquire)
  show "tags (snd (cgo_CString fw (bytes_of_string name) d)) = tags d" for d by (rule fw_quietD(12) [OF q])
  show "triple (tags_are tags T) (deferred (\<lambda>_ w. snd (free fw (CStr a) a w)) (body (a, bytes_of_string name)))
      (\<lambda>r w. R r (tags (mac_dev w)))" for a
    by (rule triple_deferred [OF assms(2)])
      (simp add: free_def gbind_def act_def mark_def fw_quietD [OF q])
qed

lemma tt_copyPublicKey:
  assumes q: "quiet_fw fw tags"
  shows "triple (tags_are tags T) (copyPublicKey fw p) (\<lambda>_. tags_are tags T)"
  unfolding copyPublicKey_def
proof (rule tt_kp_copy_public_key [OF q], clarify)
  fix rc :: int and a bs err
  have "tags (mac_dev (snd (freeBuf fw a w))) = tags (mac_dev w)" for w
    by (cases a) (simp_all add: freeBuf_def ret_def free_def gbind_def act_def mark_def fw_quietD [OF q])
  then show "triple (tags_are tags T)
      (if rc \<noteq> 0 then fail (Errorf ''copy public key: %s'' [FStr (secError rc err)])
       else deferred (\<lambda>_ w. snd (freeBuf fw (fst (a, bs)) w)) (gbind (goBytes (a, bs)) (\<lambda>raw. of_sum (parseECPublicKey raw))))
      (\<lambda>_. tags_are tags T)"
    by (auto simp: triple_def deferred_def goBytes_def Let_def gbind_def fail_def panic_def ret_def mark_def of_sum_def
        split: option.splits sum.splits prod.splits)
qed

lemma tags_freeBuf: "quiet_fw fw tags \<Longrightarrow> tags (mac_dev (snd (freeBuf fw a w))) = tags (mac_dev w)"
  by (cases a) (simp_all add: freeBuf_def ret_def free_def gbind_def act_def mark_def fw_quietD)

lemma tags_Sign:
  assumes q: "quiet_fw fw tags"
  shows "tags (mac_dev (snd (enclaveSigner_Sign fw s digest opts w))) = tags (mac_dev w)"
proof -
  let ?T = "tags (mac_dev w)" and ?Q = "\<lambda>(_ :: bytes outcome) v. tags (mac_dev v) = tags (mac_dev w)"
  have body: "triple (tags_are tags ?T) (gbind (kp_sign fw (es_priv s) hash digest newErrBuf) (\<lambda>(rc, sig, errBuf).
      if rc \<noteq> 0 then fail (Errorf ''sign: %s'' [FStr (secError rc errBuf)])
      else deferred (\<lambda>_ w. snd (freeBuf fw (fst sig) w)) (goBytes sig))) ?Q" for hash
  proof (rule tt_kp_sign [OF q], clarify)
    fix rc :: int and a bs err
    show "triple (tags_are tags ?T)
        (if rc \<noteq> 0 then fail (Errorf ''sign: %s'' [FStr (secError rc err)])
         else deferred (\<lambda>_ w. snd (freeBuf fw (fst (a, bs)) w)) (goBytes (a, bs))) ?Q"
      by (auto simp: triple_def deferred_def goBytes_def Let_def gbind_def fail_def panic_def ret_def mark_def
          tags_freeBuf [OF q] split: option.splits prod.splits)
  qed
  show ?thesis
  proof (cases opts)
    case (HashOpts h)
    show ?thesis
    proof (cases "es_priv s = None \<or> digest = []")
      case True
      with HashOpts show ?thesis by (auto simp: enclaveSigner_Sign_def fail_def split: option.split)
    next
      case False
      then show ?thesis
        using body tripleD [OF body surjective_pairing refl]
        by (auto simp: enclaveSigner_Sign_def HashOpts fail_def split: option.split)
    qed
  qed (simp_all add: enclaveSigner_Sign_def fail_def panic_def)
qed

lemma tags_kp_release: "quiet_fw fw tags \<Longrightarrow> tags (mac_dev (snd (kp_release fw p w))) = tags (mac_dev w)"
  by (cases p) (simp_all add: kp_release_def releaseOpt_def CFRelease_def gbind_def act_def mark_def ret_def fw_quietD)

lemma tt_kp_release:
  "quiet_fw fw tags \<Longrightarrow> triple (tags_are tags T) (k ()) Q \<Longrightarrow> triple (tags_are tags T) (gbind (kp_release fw p) k) Q"
  unfolding kp_release_def by (rule tt_releaseOpt)

lemma triple_fail_if: "(\<And>e. triple P (fail e) Q) \<Longrightarrow> (\<not> c \<Longrightarrow> triple P f Q) \<Longrightarrow> triple P (if c then fail e else f) Q"
  by simp

text \<open>The common end of \<^verbatim>\<open>createKey\<close> and \<^verbatim>\<open>loadKey\<close>; the closure \<open>d\<close> runs if there is no signer.\<close>

lemma tt_finish:
  assumes q: "quiet_fw fw tags" and "\<And>s w. tags_are tags T w \<Longrightarrow> R (Ret s) (tags (mac_dev w))"
    and "\<And>r w. \<not> returned r \<Longrightarrow> tags_are tags T w \<Longrightarrow> R r (tags (mac_dev (d w)))"
  shows "triple (tags_are tags T) (deferred (\<lambda>r w. if \<not> returned r then d w else w)
      (gbind (copyPublicKey fw p) (\<lambda>pub. ret (f pub)))) (\<lambda>r w. R r (tags (mac_dev w)))"
proof (rule triple_deferred)
  show "triple (tags_are tags T) (gbind (copyPublicKey fw p) (\<lambda>pub. ret (f pub))) (\<lambda>_. tags_are tags T)"
    by (rule triple_gbind [OF tt_copyPublicKey [OF q]]) (auto intro: triple_ret)
  show "R r (tags (mac_dev (if \<not> returned r then d w else w)))" if "tags_are tags T w" for r w
    using that assms(2,3) by (cases r) auto
qed

lemma tt_rollback:
  assumes "keychain_laws fw tags" and "tags (mac_dev w) = T"
  shows "tags (mac_dev (rollback fw t p w)) = filter_mset (\<lambda>u. u \<noteq> snd t) T \<or>
    tags (mac_dev (rollback fw t p w)) = T \<and> refused fw (snd t)"
proof -
  have "triple (tags_are tags T) (gbind (kp_release fw p) (\<lambda>_. gbind (kp_delete_key fw t newErrBuf) ret))
      (\<lambda>_ w. tags (mac_dev w) = filter_mset (\<lambda>u. u \<noteq> snd t) T \<or> tags (mac_dev w) = T \<and> refused fw (snd t))"
    by (intro tt_kp_release [OF laws_quiet [OF assms(1)]] tt_kp_delete_key [OF assms(1)] triple_ret) (auto split: if_splits)
  then show ?thesis unfolding rollback_def using assms(2) by (simp add: triple_def)
qed

text \<open>What \<^verbatim>\<open>createKey\<close> does to the tags, whatever the lookup answers.\<close>

definition create_post :: "'d secfw \<Rightarrow> bytes \<Rightarrow> bytes multiset \<Rightarrow> 'a outcome \<Rightarrow> bytes multiset \<Rightarrow> bool" where
  "create_post fw t T r T' \<longleftrightarrow>
     (\<exists>st. found fw t T st \<and>
        (if st = 0 then \<not> returned r \<and> T' = T
         else if returned r then T' = add_mset t T
         else T' = T \<or> T' = filter_mset (\<lambda>u. u \<noteq> t) T \<or> T' = add_mset t T \<and> refused fw t))"

lemma createKey_darwin_post:
  assumes laws: "keychain_laws fw tags"
  shows "triple (tags_are tags T) (createKey_darwin fw name)
    (\<lambda>r w. create_post fw (bytes_of_string name) T r (tags (mac_dev w)))"
  unfolding createKey_darwin_def
proof (rule tt_withCString [OF laws_quiet [OF laws]], rule tt_kp_load_key [OF laws], unfold prod.case snd_conv)
  let ?t = "bytes_of_string name"
  note q = laws_quiet [OF laws]
  fix a rc p err
  assume f: "found fw ?t T rc"
  let ?post = "\<lambda>r w. create_post fw ?t T r (tags (mac_dev w))"
  have failed: "triple (tags_are tags T) (fail e) ?post" for e
    unfolding create_post_def by (rule triple_fail, rule exI [of _ rc]) (use f in simp)
  show "triple (tags_are tags T) (if rc = 0 then gbind (kp_release fw p) (\<lambda>_. fail (e p err))
      else gbind (kp_create_key fw (a, ?t) err) (\<lambda>(rc, priv, errBuf).
       if rc \<noteq> 0 then fail (Errorf ''create persisted key: %s'' [FStr (secError rc errBuf)])
       else deferred (\<lambda>r w. if \<not> returned r then rollback fw (a, ?t) priv w else w)
         (gbind (copyPublicKey fw priv) (\<lambda>pub. ret \<lparr>es_priv = priv, es_pub = pub\<rparr>)))) ?post" for e
  proof (cases "rc = 0")
    case False
    have "triple (tags_are tags (if rc' = 0 then add_mset ?t T else T))
       (if rc' \<noteq> 0 then fail e' else deferred (\<lambda>r w. if \<not> returned r then rollback fw (a, ?t) priv w else w)
         (gbind (copyPublicKey fw priv) (\<lambda>pub. ret \<lparr>es_priv = priv, es_pub = pub\<rparr>))) ?post" for rc' :: int and e' priv
    proof (cases "rc' = 0")
      case True
      have "create_post fw ?t T r (tags (mac_dev (rollback fw (a, ?t) priv w)))"
        if "\<not> returned r" "tags (mac_dev w) = add_mset ?t T" for r :: "enclaveSigner outcome" and w
        using tt_rollback [OF laws that(2), of "(a, ?t)" priv] f False that(1)
        by (auto simp: create_post_def)
      moreover have "create_post fw ?t T (Ret s) (add_mset ?t T)" for s :: enclaveSigner
        using f False by (auto simp: create_post_def)
      ultimately have "triple (tags_are tags (add_mset ?t T)) (deferred (\<lambda>r w. if \<not> returned r then rollback fw (a, ?t) priv w else w)
         (gbind (copyPublicKey fw priv) (\<lambda>pub. ret \<lparr>es_priv = priv, es_pub = pub\<rparr>))) ?post"
        by (intro tt_finish [OF q]) simp_all
      with True show ?thesis by simp
    qed (simp add: failed)
    then have "triple (tags_are tags T) (gbind (kp_create_key fw (a, ?t) err) (\<lambda>(rc, priv, errBuf).
       if rc \<noteq> 0 then fail (Errorf ''create persisted key: %s'' [FStr (secError rc errBuf)])
       else deferred (\<lambda>r w. if \<not> returned r then rollback fw (a, ?t) priv w else w)
         (gbind (copyPublicKey fw priv) (\<lambda>pub. ret \<lparr>es_priv = priv, es_pub = pub\<rparr>)))) ?post"
      by (intro tt_kp_create_key [OF laws]) (simp only: prod.case snd_conv)
    with False show ?thesis by simp
  qed (simp add: tt_kp_release [OF q] failed)
qed

end
