(* ===== verification/DarwinBackend.thy ===== *)
theory DarwinBackend
  imports DarwinLedger DarwinTable
begin

text \<open>
  The properties of the macOS backend: who owns the CoreFoundation objects, buffers and strings on every
  path, what each operation does to the stored keys, the public key format, what \<^verbatim>\<open>Sign\<close> returns, and
  the lookup errors \<^verbatim>\<open>createKey\<close> takes for a free name.
\<close>

section \<open>Objects and buffers\<close>

text \<open>
  C24: on macOS \<^verbatim>\<open>createKey\<close>, \<^verbatim>\<open>loadKey\<close> and \<^verbatim>\<open>deleteKey\<close> with the C functions below them release every
  CoreFoundation object, \<^verbatim>\<open>malloc\<close> buffer and C string exactly once on every path, panics included, use
  none after its release and on success hand over exactly the signer's key reference; over the life of a
  signer (any signatures, \<^verbatim>\<open>Close\<close> twice, \<^verbatim>\<open>Sign\<close> afterwards) that one is released once as well.
\<close>

theorem darwin_balanced:
  "(case createKey_darwin fw name w of (r, w') \<Rightarrow> replays mac_log w w' F (F + made es_res r)) \<and>
   (case loadKey_darwin fw name w of (r, w') \<Rightarrow> replays mac_log w w' F (F + made es_res r)) \<and>
   replays mac_log w (snd (deleteKey_darwin fw name w)) F F \<and>
   replays mac_log w (snd (signer_life (darwin_backend fw) (createKey_darwin fw name) qs qs' w)) F F \<and>
   replays mac_log w (snd (signer_life (darwin_backend fw) (loadKey_darwin fw name) qs qs' w)) F F"
  unfolding split_def
  by (intro conjI darwin.open_balanced [of fw name w F, unfolded darwin_backend_simps]
      darwin.life_balanced [of fw name qs qs' w F, unfolded darwin_backend_simps])

section \<open>The stored keys\<close>

text \<open>
  When lookups answer (found or not found), \<^verbatim>\<open>createKey\<close> on macOS stores exactly one new key under a
  name that had none, or leaves the stored keys as they were; only if the keychain refuses the rollback's
  deletion can a failed call leave the key it made. It never makes a second key of a name.
\<close>

lemma createKey_darwin_table:
  assumes "keychain_laws fw tags" and "\<And>st. answered fw (bytes_of_string name) st \<Longrightarrow> st = 0 \<or> st = - 25300"
  shows "case createKey_darwin fw name w of (r, w') \<Rightarrow>
    let t = bytes_of_string name; T = tags (mac_dev w); T' = tags (mac_dev w') in
    if returned r then t \<notin># T \<and> T' = add_mset t T
    else T' = T \<or> t \<notin># T \<and> T' = add_mset t T \<and> refused fw t"
proof -
  let ?t = "bytes_of_string name" and ?T = "tags (mac_dev w)"
  obtain r w' where c: "createKey_darwin fw name w = (r, w')" by fastforce
  from tripleD [OF createKey_darwin_post [OF assms(1)] c refl]
  obtain st where st: "found fw ?t ?T st" and
    post: "if st = 0 then \<not> returned r \<and> tags (mac_dev w') = ?T
         else if returned r then tags (mac_dev w') = add_mset ?t ?T
         else tags (mac_dev w') = ?T \<or> tags (mac_dev w') = filter_mset (\<lambda>u. u \<noteq> ?t) ?T \<or>
           tags (mac_dev w') = add_mset ?t ?T \<and> refused fw ?t"
    unfolding create_post_def by blast
  show ?thesis
  proof (cases "st = 0")
    case True
    with post show ?thesis by (simp add: c Let_def)
  next
    case False
    with st assms(2) [of st] have t: "?t \<notin># ?T" by (auto simp: found_def)
    then have "filter_mset (\<lambda>u. u \<noteq> ?t) ?T = ?T" by (auto simp: multiset_eq_iff not_in_iff)
    with post False t show ?thesis by (cases "returned r") (simp_all add: c Let_def)
  qed
qed

text \<open>
  On macOS \<^verbatim>\<open>loadKey\<close> never changes the stored keys and succeeds only for a stored name; a
  \<^verbatim>\<open>deleteKey\<close> that returns nil has removed all keys of the name and no other, one that fails has
  removed none.
\<close>

lemma keys_darwin_table:
  assumes "keychain_laws fw tags"
  shows "(case loadKey_darwin fw name w of (r, w') \<Rightarrow>
      tags (mac_dev w') = tags (mac_dev w) \<and> (returned r \<longrightarrow> bytes_of_string name \<in># tags (mac_dev w))) \<and>
    (case deleteKey_darwin fw name w of (r, w') \<Rightarrow>
      tags (mac_dev w') = (if returned r then filter_mset (\<lambda>u. u \<noteq> bytes_of_string name) (tags (mac_dev w))
        else tags (mac_dev w)))"
proof -
  note q = laws_quiet [OF assms]
  let ?t = "bytes_of_string name"
  have "triple (tags_are tags T) (loadKey_darwin fw name)
      (\<lambda>r w. (\<lambda>T'. T' = T \<and> (returned r \<longrightarrow> ?t \<in># T)) (tags (mac_dev w)))" for T
    unfolding loadKey_darwin_def
  proof (rule tt_withCString [OF q], rule tt_kp_load_key [OF assms], unfold prod.case snd_conv)
    fix rc p err
    assume f: "found fw ?t T rc"
    show "triple (tags_are tags T) (if rc \<noteq> 0 then fail e
      else deferred (\<lambda>r w. if \<not> returned r then snd (kp_release fw p w) else w)
        (gbind (copyPublicKey fw p) (\<lambda>pub. ret \<lparr>es_priv = p, es_pub = pub\<rparr>)))
      (\<lambda>r w. tags (mac_dev w) = T \<and> (returned r \<longrightarrow> ?t \<in># T))" for e
    proof (cases "rc = 0")
      case True
      with f have "?t \<in># T" by (simp add: found_def)
      then show ?thesis using True tt_finish [OF q, where T = T and R = "\<lambda>r T'. T' = T \<and> (returned r \<longrightarrow> ?t \<in># T)"
          and d = "\<lambda>w. snd (kp_release fw p w)"] by (simp add: tags_kp_release [OF q])
    qed (auto intro: triple_fail)
  qed
  from tripleD [OF this _ refl]
  have l: "loadKey_darwin fw name w = (r, w') \<Longrightarrow> tags (mac_dev w') = tags (mac_dev w) \<and>
      (returned r \<longrightarrow> ?t \<in># tags (mac_dev w))" for r w' by blast
  have "triple (tags_are tags T) (deleteKey_darwin fw name)
      (\<lambda>r w. (\<lambda>T'. T' = (if returned r then filter_mset (\<lambda>u. u \<noteq> ?t) T else T)) (tags (mac_dev w)))" for T
    unfolding deleteKey_darwin_def
    by (rule tt_withCString [OF q], rule tt_kp_delete_key [OF assms])
      (auto simp: triple_def fail_def ret_def)
  from tripleD [OF this _ refl]
  have d: "deleteKey_darwin fw name w = (r, w') \<Longrightarrow> tags (mac_dev w') =
      (if returned r then filter_mset (\<lambda>u. u \<noteq> ?t) (tags (mac_dev w)) else tags (mac_dev w))" for r w' by blast
  show ?thesis using l d by (auto split: prod.split)
qed

section \<open>A keychain\<close>

text \<open>
  A keychain whose state is its tags. When it is \<open>locked\<close> (as before the first unlock after a boot) lookups
  end with \<^verbatim>\<open>errSecInteractionNotAllowed\<close> (-25308); \<open>exported\<close> is what the export of a public key yields.
\<close>

definition sample_keychain :: "bool \<Rightarrow> bytes \<Rightarrow> bytes multiset secfw" where
  "sample_keychain locked exported =
     \<lparr>KP_SECURE_ENCLAVE = True,
      CFDataCreate = (\<lambda>_ d. (1, d)), CFDictionaryCreateMutable = (\<lambda>d. (2, d)), CFNumberCreate = (\<lambda>_ d. (3, d)),
      CFRelease_call = (\<lambda>_ d. d), CFErrorCopyDescription = (\<lambda>_ d. (None, d)),
      CFStringGetCString = (\<lambda>_ _ _. (False, [])), CFDataGetBytes = (\<lambda>_ _. exported),
      SecAccessControlCreateWithFlags = (\<lambda>_ _ d. (Inr 4, d)),
      SecKeyCreateRandomKey = (\<lambda>a d.
        case map_of (snd a) ''kSecPrivateKeyAttrs'' of
          Some (Dict r kvs) \<Rightarrow> (case tag_attr kvs of Some t \<Rightarrow> (Inr 5, add_mset t d) | None \<Rightarrow> (Inl None, d))
        | _ \<Rightarrow> (Inl None, d)),
      SecItemCopyMatching = (\<lambda>q d.
        case tag_attr (snd q) of
          Some t \<Rightarrow> ((if locked then - 25308 else if t \<in># d then 0 else - 25300, 5), d)
        | None \<Rightarrow> ((- 50, 0), d)),
      SecItemDelete = (\<lambda>q d.
        case tag_attr (snd q) of
          Some t \<Rightarrow> (if t \<in># d then (0, filter_mset (\<lambda>u. u \<noteq> t) d) else (- 25300, d))
        | None \<Rightarrow> (- 50, d)),
      SecKeyCopyPublicKey = (\<lambda>_ d. (Some 6, d)), SecKeyCopyExternalRepresentation = (\<lambda>_ d. (Inr 7, d)),
      SecKeyCreateSignature = (\<lambda>_ _ _ d. (Inr 8, d)),
      c_malloc = (\<lambda>_ d. (Some 9, d)), c_free = (\<lambda>_ d. d), cgo_CString = (\<lambda>_ d. (10, d))\<rparr>"

lemma sample_keychain_laws: "keychain_laws (sample_keychain locked exported) (\<lambda>d. d)"
proof -
  have q: "query_tag fw q = Some t \<Longrightarrow> tag_attr (snd q) = Some t" for fw :: "bytes multiset secfw" and q t
    by (auto simp: query_tag_def split: if_splits)
  have a: "stored_tag fw a = Some t \<Longrightarrow> \<exists>r kvs. map_of (snd a) ''kSecPrivateKeyAttrs'' = Some (Dict r kvs) \<and> tag_attr kvs = Some t"
    for fw :: "bytes multiset secfw" and a t
    by (auto simp: stored_tag_def split: if_splits option.splits cf_value.splits)
  have "quiet_fw (sample_keychain locked exported) (\<lambda>d. d)"
    by (simp add: quiet_fw_def sample_keychain_def)
  then show ?thesis
    unfolding keychain_laws_def
    by (auto simp: sample_keychain_def split: prod.split option.splits cf_value.splits dest!: q a)
qed

text \<open>The base point of P-256 in X9.63 form.\<close>

definition sample_point :: bytes where
  "sample_point = [4,
     0x6b, 0x17, 0xd1, 0xf2, 0xe1, 0x2c, 0x42, 0x47, 0xf8, 0xbc, 0xe6, 0xe5, 0x63, 0xa4, 0x40, 0xf2,
     0x77, 0x03, 0x7d, 0x81, 0x2d, 0xeb, 0x33, 0xa0, 0xf4, 0xa1, 0x39, 0x45, 0xd8, 0x98, 0xc2, 0x96,
     0x4f, 0xe3, 0x42, 0xe2, 0xfe, 0x1a, 0x7f, 0x9b, 0x8e, 0xe7, 0xeb, 0x4a, 0x7c, 0x0f, 0x9e, 0x16,
     0x2b, 0xce, 0x33, 0x57, 0x6b, 0x31, 0x5e, 0xce, 0xcb, 0xb6, 0x40, 0x68, 0x37, 0xbf, 0x51, 0xf5]"

lemma sample_point_parses: "\<exists>pk. parseECPublicKey sample_point = Inr pk"
  by (simp add: parseECPublicKey_def unmarshal_p256_def sample_point_def on_p256_def p256_p_def p256_b_def Let_def)

lemmas darwin_defs = withCString_def kp_load_key_def kp_create_key_def kp_delete_key_def kp_copy_public_key_def
  generate_def createAttrs_def make_query_def make_tag_def createDict_def setEnclave_def CFDictionarySetValue_def
  copy_to_buf_def set_err_def set_cferror_def cf_failure_def acquire_def acquire_opt_def acquire_either_def usePtr_def
  CFRelease_def releaseOpt_def kp_release_def rollback_def free_def freeBuf_def goBytes_def copyPublicKey_def
  act_def mark_def tag_attr_def newErrBuf_def errBufLen_def sample_keychain_def

lemma sample_sint: "sint (word_of_nat (length sample_point) :: 32 word) = 65" "length sample_point = 65"
  by (simp_all add: sample_point_def)

lemma locked_create:
  assumes "parseECPublicKey sample_point = Inr pk"
  shows "\<exists>es. createKey_darwin (sample_keychain True sample_point) n \<lparr>mac_dev = T, mac_log = []\<rparr> =
    (Ret \<lparr>es_priv = Some 5, es_pub = pk\<rparr>, \<lparr>mac_dev = add_mset (bytes_of_string n) T, mac_log = es\<rparr>)"
  using assms sample_sint
  by (simp add: createKey_darwin_def darwin_defs go_defs update_conv')

lemma locked_create_fails:
  "\<exists>es e. createKey_darwin (sample_keychain True []) n \<lparr>mac_dev = T, mac_log = []\<rparr> =
    (Fail e, \<lparr>mac_dev = filter_mset (\<lambda>u. u \<noteq> bytes_of_string n) T, mac_log = es\<rparr>)"
  by (simp add: createKey_darwin_def darwin_defs go_defs update_conv' parseECPublicKey_def unmarshal_p256_def)

lemma sample_answers: "answered (sample_keychain False exported) t st \<Longrightarrow> st = 0 \<or> st = - 25300"
  by (auto simp: answered_def sample_keychain_def query_tag_def split: if_splits)



section \<open>Lookup errors\<close>


section \<open>The public key\<close>

text \<open>
  C27: \<^verbatim>\<open>parseECPublicKey\<close> accepts exactly the 65-byte X9.63 encodings of points of P-256 with reduced
  coordinates and returns these coordinates; everything else is an error.
\<close>

theorem parseECPublicKey_exact:
  "case parseECPublicKey raw of
     Inr pk \<Rightarrow> (\<exists>X Y. length X = 32 \<and> length Y = 32 \<and> raw = 4 # X @ Y \<and>
       int (nat_of_bytes X) < p256_p \<and> int (nat_of_bytes Y) < p256_p \<and>
       on_p256 (int (nat_of_bytes X)) (int (nat_of_bytes Y)) \<and>
       pk = \<lparr>pk_curve = P256, pk_x = int (nat_of_bytes X), pk_y = int (nat_of_bytes Y)\<rparr>)
   | Inl e \<Rightarrow> \<not> (\<exists>X Y. length X = 32 \<and> length Y = 32 \<and> raw = 4 # X @ Y \<and>
       int (nat_of_bytes X) < p256_p \<and> int (nat_of_bytes Y) < p256_p \<and>
       on_p256 (int (nat_of_bytes X)) (int (nat_of_bytes Y)))"
proof (cases "parseECPublicKey raw")
  case (Inl e)
  then show ?thesis by (auto simp: parseECPublicKey_def unmarshal_p256_def Let_def split: if_splits)
next
  case (Inr pk)
  let ?X = "take 32 (tl raw)" and ?Y = "drop 32 (tl raw)"
  from Inr have l: "length raw = 65" and h: "hd raw = 4"
    and c: "int (nat_of_bytes ?X) < p256_p" "int (nat_of_bytes ?Y) < p256_p" "on_p256 (int (nat_of_bytes ?X)) (int (nat_of_bytes ?Y))"
    and pk: "pk = \<lparr>pk_curve = P256, pk_x = int (nat_of_bytes ?X), pk_y = int (nat_of_bytes ?Y)\<rparr>"
    by (auto simp: parseECPublicKey_def unmarshal_p256_def Let_def split: if_splits)
  from l h have "raw = 4 # ?X @ ?Y" by (cases raw) auto
  moreover have "length ?X = 32" "length ?Y = 32" using l by simp_all
  ultimately show ?thesis unfolding Inr sum.case using c pk by blast
qed

section \<open>Signing\<close>

lemma hashBits_supported: "supported_hash h \<longleftrightarrow> (\<exists>bits. hashBits h = Some bits)"
  by (cases h) (simp_all add: supported_hash_def)

lemma sint_word_of_small: "n < 2 ^ 31 \<Longrightarrow> sint (word_of_nat n :: 32 word) = int n"
  by (simp add: signed_of_nat signed_take_bit_int_eq_self)


definition sample_enclave :: enclaveSigner where
  "sample_enclave = \<lparr>es_priv = Some 5, es_pub = \<lparr>pk_curve = P256, pk_x = 0, pk_y = 0\<rparr>\<rparr>"


section \<open>The contract about stored keys\<close>

text \<open>A keychain with the documented behaviour whose lookups answer keeps the contract.\<close>

definition lookups_answer :: "'d secfw \<Rightarrow> bool" where
  "lookups_answer fw \<longleftrightarrow> (\<forall>t st. answered fw t st \<longrightarrow> st = 0 \<or> st = - 25300)"

definition darwin_added :: "string \<Rightarrow> bytes multiset \<Rightarrow> bytes multiset \<Rightarrow> bool" where
  "darwin_added name T T' \<longleftrightarrow> bytes_of_string name \<notin># T \<and> T' = add_mset (bytes_of_string name) T"

definition darwin_removed :: "string \<Rightarrow> bytes multiset \<Rightarrow> bytes multiset \<Rightarrow> bool" where
  "darwin_removed name T T' \<longleftrightarrow> T' = filter_mset (\<lambda>u. u \<noteq> bytes_of_string name) T"

definition darwin_stray :: "'d secfw \<Rightarrow> string \<Rightarrow> bytes multiset \<Rightarrow> bytes multiset \<Rightarrow> bool" where
  "darwin_stray fw name T T' \<longleftrightarrow> T' = T \<or> darwin_added name T T' \<and> refused fw (bytes_of_string name)"

lemma deleteKey_darwin_no_panic:
  assumes "keychain_laws fw tags" and "deleteKey_darwin fw name w = (r, w')"
  shows "r \<noteq> Panic m"
proof -
  note q = laws_quiet [OF assms(1)]
  have "triple (tags_are tags T) (deleteKey_darwin fw name) (\<lambda>r w. (\<lambda>_. r \<noteq> Panic m) (tags (mac_dev w)))" for T
    unfolding deleteKey_darwin_def
    by (rule tt_withCString [OF q], rule tt_kp_delete_key [OF assms(1)]) (simp add: triple_def fail_def ret_def)
  from tripleD [OF this assms(2) refl] show ?thesis .
qed

interpretation darwin_keys: key_store "darwin_backend fw" "\<lambda>w. tags (mac_dev w)"
    "\<lambda>_. keychain_laws fw tags \<and> lookups_answer fw" darwin_added "darwin_stray fw" darwin_removed
  for fw tags
proof unfold_locales
  fix w w' :: "'a mac" and n r
  assume l: "keychain_laws fw tags \<and> lookups_answer fw" and "bk_create (darwin_backend fw) n w = (r, w')"
  then have c: "createKey_darwin fw n w = (r, w')" by (simp add: darwin_backend_def)
  have "st = 0 \<or> st = - 25300" if "answered fw (bytes_of_string n) st" for st
    using l that by (auto simp: lookups_answer_def)
  with l have "case createKey_darwin fw n w of (r, w') \<Rightarrow>
    let t = bytes_of_string n; T = tags (mac_dev w); T' = tags (mac_dev w') in
    if returned r then t \<notin># T \<and> T' = add_mset t T
    else T' = T \<or> t \<notin># T \<and> T' = add_mset t T \<and> refused fw t"
    by (intro createKey_darwin_table) simp_all
  with l
  show "(keychain_laws fw tags \<and> lookups_answer fw) \<and>
    (if returned r then darwin_added n (tags (mac_dev w)) (tags (mac_dev w'))
     else darwin_stray fw n (tags (mac_dev w)) (tags (mac_dev w')))"
    by (auto simp: c Let_def darwin_added_def darwin_stray_def split: if_splits)
next
  fix w w' :: "'a mac" and n r
  assume l: "keychain_laws fw tags \<and> lookups_answer fw" and "bk_load (darwin_backend fw) n w = (r, w')"
  then show "(keychain_laws fw tags \<and> lookups_answer fw) \<and> tags (mac_dev w') = tags (mac_dev w)"
    using conjunct1 [OF keys_darwin_table [OF conjunct1 [OF l], where name = n and w = w]] by (simp add: darwin_backend_def)
next
  fix w w' :: "'a mac" and n and q :: "unit outcome"
  assume l: "keychain_laws fw tags \<and> lookups_answer fw" and "bk_delete (darwin_backend fw) n w = (q, w')"
  then have d: "deleteKey_darwin fw n w = (q, w')" by (simp add: darwin_backend_def)
  from conjunct2 [OF keys_darwin_table [OF conjunct1 [OF l], where name = n and w = w]] deleteKey_darwin_no_panic [OF conjunct1 [OF l] d] l
  show "(keychain_laws fw tags \<and> lookups_answer fw) \<and> (\<forall>m. q \<noteq> Panic m) \<and>
      (if returned q then darwin_removed n (tags (mac_dev w)) (tags (mac_dev w')) else tags (mac_dev w') = tags (mac_dev w))"
    by (simp add: d darwin_removed_def split: if_splits)
next
  fix w w' :: "'a mac" and s d opts sig
  assume l: "keychain_laws fw tags \<and> lookups_answer fw" and "bk_sign (darwin_backend fw) s d opts w = (sig, w')"
  then show "(keychain_laws fw tags \<and> lookups_answer fw) \<and> tags (mac_dev w') = tags (mac_dev w)"
    using tags_Sign [OF laws_quiet [OF conjunct1 [OF l]], of s d opts w] by (simp add: darwin_backend_def)
next
  fix w w' :: "'a mac" and s s' and q :: "unit outcome"
  assume l: "keychain_laws fw tags \<and> lookups_answer fw" and "bk_close (darwin_backend fw) (s, w) = (q, s', w')"
  then show "(keychain_laws fw tags \<and> lookups_answer fw) \<and> tags (mac_dev w') = tags (mac_dev w) \<and> (\<forall>m. q \<noteq> Panic m)"
    using tags_kp_release [OF laws_quiet [OF conjunct1 [OF l]]]
    by (auto simp: darwin_backend_def enclaveSigner_Close_def split: option.splits)
qed

end
