(* ===== verification/CliFacts.thy ===== *)
theory CliFacts
  imports Cli LinuxBackend WindowsTable DarwinBackend
begin

text \<open>
  What the commands do with a backend that keeps the resource contract: facts proved once
  for the three backends, in the context of \<open>key_backend\<close>.
\<close>

section \<open>Commands that leave the world alone\<close>

named_theorems quiet_cmd \<open>commands that do not touch the backend's world\<close>

lemma world_emit [quiet_cmd]: "world (snd (emit o' p)) = world p"
  and world_cret [quiet_cmd]: "world (snd (cret x p)) = world p"
  and world_os_exit [quiet_cmd]: "world (snd (os_exit n p)) = world p"
  and world_crash [quiet_cmd]: "world (snd (crash m p)) = world p"
  and world_time_now [quiet_cmd]: "world (snd (time_now pf p)) = world p"
  by (simp_all add: emit_def cret_def os_exit_def crash_def time_now_def)

lemma world_cbind:
  "world (snd (f p)) = world p \<Longrightarrow> (\<And>x q. world (snd (g x q)) = world q) \<Longrightarrow> world (snd (cbind f g p)) = world p"
  by (simp add: cbind_def split: prod.split ctl.split) (metis snd_conv)

lemma world_fatal [quiet_cmd]: "world (snd (fatal f args p)) = world p"
  by (simp add: fatal_def emit_def os_exit_def cbind_def)

lemma world_time_since [quiet_cmd]: "world (snd (time_since pf t p)) = world p"
  by (simp add: time_since_def time_now_def cret_def cbind_def)

lemma world_headerLine [quiet_cmd]: "world (snd (headerLine l v p)) = world p"
  by (simp add: headerLine_def quiet_cmd)

lemma world_flagParse [quiet_cmd]: "world (snd (flagParse fset formal args p)) = world p"
  by (simp add: flagParse_def emit_def os_exit_def cret_def cbind_def split: sum.split flag_error.split prod.split)

lemma world_reportStats [quiet_cmd]: "world (snd (reportStats ds p)) = world p"
  by (simp add: reportStats_def emit_def crash_def cbind_def split: option.split)

lemma fst_fatal [simp]: "fst (fatal f args p) = Exited 1"
  by (simp add: fatal_def emit_def os_exit_def cbind_def)

lemma fst_emit [simp]: "fst (emit o' p) = Next ()"
  by (simp add: emit_def)

section \<open>Commands over a backend\<close>

text \<open>What is held when a command has ended: \<open>M\<close> if the process was left by \<^verbatim>\<open>os.Exit\<close>, else \<open>N\<close>.\<close>

definition left :: "'r multiset \<Rightarrow> 'r multiset \<Rightarrow> 'a ctl \<Rightarrow> 'r multiset" where
  "left M N c = (case c of Exited n \<Rightarrow> M | _ \<Rightarrow> N)"

lemma left_simps [simp]: "left M N (Next x) = N" "left M N (Exited n) = M" "left M N (Crashed m) = N"
  by (simp_all add: left_def)

lemma left_same [simp]: "left M M c = M"
  by (cases c) simp_all

lemma left_not_exited:
  assumes "\<And>n. c \<noteq> Exited n"
  shows "left M N c = N"
  using assms by (cases c) (simp_all add: left_def, metis)

text \<open>A step that keeps \<open>M\<close>, and a step that does nothing.\<close>

lemma cmoves_keep:
  assumes "cmoves lg M f (\<lambda>_. M)" and "\<And>x. cmoves lg M (g x) (\<lambda>_. M)"
  shows "cmoves lg M (cbind f g) (\<lambda>_. M)"
  by (rule cmoves_bind [OF assms]) simp_all

lemma cmoves_skip:
  assumes "\<And>p. world (snd (f p)) = world p" and "\<And>x. cmoves lg M (g x) (\<lambda>_. M)"
  shows "cmoves lg M (cbind f g) (\<lambda>_. M)"
  by (rule cmoves_keep [OF cmoves_quiet assms(2)]) (simp_all add: assms(1))

lemma cmoves_world:
  assumes "moves lg (\<lambda>_. M) f (\<lambda>_ _. N)"
  shows "cmoves lg M (on_world f) (\<lambda>_. N)"
proof (rule cmovesI)
  fix p :: "'a proc"
  obtain r w' where f: "f (world p) = (r, w')" by fastforce
  then have "world (snd (on_world f p)) = w'" by (simp add: on_world_def split: outcome.split)
  with movesD [OF assms f] show "\<exists>es. lg (world (snd (on_world f p))) = lg (world p) @ es \<and>
      (\<forall>F. run_log (M + F) es = Some (N + F))" by metis
qed

lemma on_world_not_exited [simp]: "fst (on_world f p) \<noteq> Exited n"
  by (simp add: on_world_def split: prod.split outcome.split)

lemma cbind_not_exited:
  "(\<And>q. fst (f q) \<noteq> Exited n) \<Longrightarrow> (\<And>x q. fst (g x q) \<noteq> Exited n) \<Longrightarrow> fst (cbind f g p) \<noteq> Exited n"
  by (simp add: cbind_def split: prod.split ctl.split) (metis fst_conv)

text \<open>
  The same judgement with a relation between the way a command ended and what is held then; needed
  where that depends on the signer the command created.
\<close>

definition cowns ::
    "('w \<Rightarrow> 'r event list) \<Rightarrow> 'r multiset \<Rightarrow> ('w, 'a) cmd \<Rightarrow> ('a ctl \<Rightarrow> 'r multiset \<Rightarrow> bool) \<Rightarrow> bool" where
  "cowns lg M f Q \<longleftrightarrow>
     (\<forall>p. \<exists>es N. lg (world (snd (f p))) = lg (world p) @ es \<and> Q (fst (f p)) N \<and>
        (\<forall>F. run_log (M + F) es = Some (N + F)))"

lemma cowns_cmoves: "cmoves lg M f R \<Longrightarrow> (\<And>c. Q c (R c)) \<Longrightarrow> cowns lg M f Q"
  unfolding cmoves_def cowns_def by blast

lemma cowns_replays:
  assumes "cowns lg {#} f Q" and "f p = (c, p')"
  shows "\<exists>N. Q c N \<and> (\<forall>F. replays lg (world p) (world p') F (F + N))"
proof -
  from assms obtain es N where "lg (world p') = lg (world p) @ es" "Q c N" "\<And>F. run_log F es = Some (F + N)"
    by (auto simp: cowns_def add.commute dest!: spec [of _ p])
  then show ?thesis by blast
qed

lemma cowns_bind:
  assumes f: "cowns lg M f R" and g: "\<And>x N. R (Next x) N \<Longrightarrow> cowns lg N (g x) Q"
    and e: "\<And>n N. R (Exited n) N \<Longrightarrow> Q (Exited n) N" and m: "\<And>m N. R (Crashed m) N \<Longrightarrow> Q (Crashed m) N"
  shows "cowns lg M (cbind f g) Q"
  unfolding cowns_def
proof
  fix p
  obtain c p1 where fp: "f p = (c, p1)" by fastforce
  from f [unfolded cowns_def, rule_format, of p] fp obtain es N where
    es: "lg (world p1) = lg (world p) @ es" "R c N" "\<And>F. run_log (M + F) es = Some (N + F)" by auto
  show "\<exists>es N. lg (world (snd (cbind f g p))) = lg (world p) @ es \<and> Q (fst (cbind f g p)) N \<and>
      (\<forall>F. run_log (M + F) es = Some (N + F))"
  proof (cases c)
    case (Next x)
    from g [OF es(2) [unfolded Next], unfolded cowns_def, rule_format, of p1] obtain es2 K where
      "lg (world (snd (g x p1))) = lg (world p1) @ es2" "Q (fst (g x p1)) K"
      "\<And>F. run_log (N + F) es2 = Some (K + F)" by auto
    with es run_log_seq [OF es(3)] show ?thesis
      by (intro exI [of _ "es @ es2"] exI [of _ K]) (simp add: cbind_def fp Next)
  qed (use es e m fp in \<open>auto simp: cbind_def\<close>)
qed

lemma cowns_skip:
  assumes "\<And>p. world (snd (f p)) = world p" and "\<And>x. cowns lg M (g x) Q"
    and "\<And>n. Q (Exited n) M" and "\<And>m. Q (Crashed m) M"
  shows "cowns lg M (cbind f g) Q"
  by (rule cowns_bind [OF cowns_cmoves [OF cmoves_quiet [where Q = "\<lambda>_. M"], where Q = "\<lambda>_ N. N = M"]])
    (simp_all add: assms)

definition as_ctl :: "'a outcome \<Rightarrow> (go_err + 'a) ctl" where
  "as_ctl r = (case r of Ret x \<Rightarrow> Next (Inr x) | Fail e \<Rightarrow> Next (Inl e) | Panic m \<Rightarrow> Crashed m)"

lemma as_ctl_iff [simp]:
  "Next (Inr x) = as_ctl r \<longleftrightarrow> r = Ret x" "Next (Inl e) = as_ctl r \<longleftrightarrow> r = Fail e"
  "Crashed m = as_ctl r \<longleftrightarrow> r = Panic m" "Exited n \<noteq> as_ctl r"
  by (cases r; auto simp: as_ctl_def)+

lemma cowns_on_world:
  assumes "moves lg (\<lambda>_. M) f (\<lambda>r _. R r)"
  shows "cowns lg M (on_world f) (\<lambda>c N. \<exists>r w w'. f w = (r, w') \<and> N = R r \<and> c = as_ctl r)"
  unfolding cowns_def
proof
  fix p :: "'a proc"
  obtain r w' where f: "f (world p) = (r, w')" by fastforce
  then have "world (snd (on_world f p)) = w'" "fst (on_world f p) = as_ctl r"
    by (simp_all add: on_world_def as_ctl_def split: outcome.split)
  with movesD [OF assms f] f show "\<exists>es N. lg (world (snd (on_world f p))) = lg (world p) @ es \<and>
      (\<exists>r w w'. f w = (r, w') \<and> N = R r \<and> fst (on_world f p) = as_ctl r) \<and>
      (\<forall>F. run_log (M + F) es = Some (N + F))" by metis
qed

context key_backend
begin

lemma close_cmoves: "cmoves lg (res s) (closeSigner bk s) (\<lambda>_. {#})"
  unfolding closeSigner_def
  by (rule cmoves_bind [OF cmoves_world [OF close_once]]) (auto intro!: cmoves_quiet simp: quiet_cmd)

lemma drop_cmoves: "cmoves lg (res s) (dropThrowaway bk name s) (\<lambda>_. {#})"
  unfolding dropThrowaway_def
  by (rule cmoves_bind [OF close_cmoves cmoves_keep [OF cmoves_world [OF delete_moves]]])
    (auto intro!: cmoves_quiet simp: quiet_cmd split: sum.split)

lemma signLoop_cmoves: "cmoves lg (res s) (signLoop pf bk s digest n ds) (\<lambda>_. res s)"
proof (induction n arbitrary: ds)
  case (Suc n)
  show ?case unfolding signLoop.simps
    by (intro cmoves_skip cmoves_keep cmoves_world sign_moves)
      (auto simp: quiet_cmd split: sum.split intro!: cmoves_quiet cmoves_skip Suc.IH)
qed (auto intro!: cmoves_quiet simp: quiet_cmd)

lemma body_cmoves: "cmoves lg (res s) (certtestBody pf cl bk s d) (\<lambda>_. res s)"
  unfolding certtestBody_def
  by (intro cmoves_skip cmoves_keep cmoves_world runCertTest_moves)
    (auto simp: quiet_cmd split: sum.split intro!: cmoves_quiet cmoves_skip cmoves_keep signLoop_cmoves)

lemma dropThrowaway_not_exited: "fst (dropThrowaway bk name s p) \<noteq> Exited n"
  unfolding dropThrowaway_def closeSigner_def
  by (intro cbind_not_exited on_world_not_exited) (auto simp: cret_def split: sum.split)

lemma closeSigner_not_exited: "fst (closeSigner bk s p) \<noteq> Exited n"
  unfolding closeSigner_def by (intro cbind_not_exited on_world_not_exited) (simp add: cret_def)

text \<open>A deferred release: everything is given back unless the process exits first.\<close>

lemma released_cmoves:
  assumes "cmoves lg (res s) f (\<lambda>_. res s)" and "cmoves lg (res s) d (\<lambda>_. {#})"
    and "\<And>p n. fst (d p) \<noteq> Exited n"
  shows "cmoves lg (res s) (cdeferred d f) (left (res s) {#})"
  by (rule cmoves_deferred [OF assms(1) _ _ _ assms(3)]) (simp_all add: assms(2) left_not_exited)

lemma certtest_opened_cmoves:
  "cmoves lg (res s) (cbind (time_since pf start) (\<lambda>d. cdeferred (dropThrowaway bk name s) (certtestBody pf cl bk s d)))
     (left (res s) {#})"
proof (rule cmoves_bind [where R = "\<lambda>c. case c of Crashed m \<Rightarrow> {#} | _ \<Rightarrow> res s"])
  show "cmoves lg (res s) (time_since pf start) (\<lambda>c. case c of Crashed m \<Rightarrow> {#} | _ \<Rightarrow> res s)"
    by (rule cmoves_quiet) (simp_all add: quiet_cmd time_since_def cbind_def time_now_def cret_def)
  show "cmoves lg (case Next d of Crashed m \<Rightarrow> {#} | _ \<Rightarrow> res s)
      (cdeferred (dropThrowaway bk name s) (certtestBody pf cl bk s d)) (left (res s) {#})" for d
    using released_cmoves [OF body_cmoves drop_cmoves dropThrowaway_not_exited] by simp
qed simp_all

text \<open>
  What a command holds when it ends: nothing; or, when the process was left by \<^verbatim>\<open>os.Exit\<close>, what the
  signer it had created owns.
\<close>

definition held_at_end :: "string \<Rightarrow> 'a ctl \<Rightarrow> 'r multiset \<Rightarrow> bool" where
  "held_at_end name c N \<longleftrightarrow>
     N = {#} \<or> (\<exists>n s w w'. c = Exited n \<and> bk_create bk name w = (Ret s, w') \<and> N = res s)"

lemma create_cowns:
  assumes k: "\<And>s. cmoves lg (res s) (k s) (K s)" and err: "\<And>e p. world (snd (err e p)) = world p"
    and Q: "\<And>s w w' c. bk_create bk name w = (Ret s, w') \<Longrightarrow> Q c (K s c)" and none: "\<And>c. Q c {#}"
  shows "cowns lg {#} (cbind (on_world (bk_create bk name)) (\<lambda>r. case r of Inl e \<Rightarrow> err e | Inr s \<Rightarrow> k s)) Q"
proof (rule cowns_bind [OF cowns_on_world [OF create_moves]])
  fix x N
  assume "\<exists>r w w'. bk_create bk name w = (r, w') \<and> N = made res r \<and> Next x = as_ctl r"
  then obtain r w w' where r: "bk_create bk name w = (r, w')" "N = made res r" "Next x = as_ctl r" by blast
  show "cowns lg N (case x of Inl e \<Rightarrow> err e | Inr s \<Rightarrow> k s) Q"
  proof (cases x)
    case (Inl e)
    with r have N: "N = {#}" by simp
    have "cmoves lg {#} (err e) (\<lambda>_. {#})" by (rule cmoves_quiet) (simp_all add: err)
    then show ?thesis unfolding Inl N sum.case by (rule cowns_cmoves) (rule none)
  next
    case (Inr s)
    with r have N: "N = res s" "bk_create bk name w = (Ret s, w')" by simp_all
    from k [of s] show ?thesis unfolding Inr N(1) sum.case by (rule cowns_cmoves) (rule Q [OF N(2)])
  qed
qed (auto simp: none)

lemma held_at_end_left: "bk_create bk name w = (Ret s, w') \<Longrightarrow> held_at_end name c (left (res s) {#} c)"
  by (cases c) (auto simp: held_at_end_def)

lemma held_at_end_none [simp]: "held_at_end name c {#}"
  by (simp add: held_at_end_def)

lemma runCertTestCmd_cowns:
  assumes os: "moves_st lg (\<lambda>_. {#}) (\<lambda>w. snd (osVersion pf w)) (\<lambda>_. {#})"
  shows "cowns lg {#} (runCertTestCmd pf cl bk args) (held_at_end (newUUID pf))"
proof -
  have "moves lg (\<lambda>_. {#}) (\<lambda>w. (Ret (), snd (osVersion pf w))) (\<lambda>_ _. {#})"
    using os by (simp add: moves_st_def moves_def owns_st_def)
  then have v: "cmoves lg {#} (\<lambda>p. case osVersion pf (world p) of (v, w) \<Rightarrow> (Next v, p\<lparr>world := w\<rparr>)) (\<lambda>_. {#})"
    using cmoves_world [of lg "{#}" "\<lambda>w. (Ret (), snd (osVersion pf w))" "{#}"]
    by (simp add: cmoves_def on_world_def split_def)
  have header: "cmoves lg {#} (printReportHeader pf bk) (\<lambda>_. {#})"
    unfolding printReportHeader_def
    by (intro cmoves_skip cmoves_keep v) (auto intro!: cmoves_quiet simp: quiet_cmd)
  have head: "cowns lg {#} (cbind (printReportHeader pf bk) g) Q"
    if "\<And>x. cowns lg {#} (g x) Q" "\<And>n. Q (Exited n) {#}" "\<And>m. Q (Crashed m) {#}" for g and Q :: "'z ctl \<Rightarrow> 'r multiset \<Rightarrow> bool"
    by (rule cowns_bind [OF cowns_cmoves [OF header, where Q = "\<lambda>_ N. N = {#}"]]) (simp_all add: that)
  show ?thesis
    unfolding runCertTestCmd_def Let_def
    by (rule cowns_skip, simp add: quiet_cmd, rule head, rule cowns_skip, simp add: quiet_cmd,
        rule create_cowns [OF certtest_opened_cmoves]) (simp_all add: quiet_cmd held_at_end_left)
qed

lemma runCreate_cowns: "cowns lg {#} (runCreate pf bk args) (\<lambda>_ N. N = {#})"
proof -
  have "cmoves lg (res s) (cdeferred (closeSigner bk s) (emit o')) (\<lambda>_. {#})" for s o'
  proof -
    have "cmoves lg (res s) (emit o') (left {#} (res s))"
      by (rule cmoves_quiet) (simp_all add: quiet_cmd)
    then show ?thesis
      by (rule cmoves_deferred [OF _ _ _ _ closeSigner_not_exited]) (simp_all add: left_not_exited close_cmoves)
  qed
  then show ?thesis
    unfolding runCreate_def Let_def
    by (intro cowns_skip create_cowns) (simp_all add: quiet_cmd)
qed

lemma runDelete_cowns: "cowns lg {#} (runDelete bk args) (\<lambda>_ N. N = {#})"
proof -
  have "cmoves lg {#} (runDelete bk args) (\<lambda>_. {#})"
    unfolding runDelete_def
    by (rule cmoves_skip)
      (auto simp: quiet_cmd split: sum.split intro!: cmoves_quiet cmoves_keep cmoves_world delete_moves)
  then show ?thesis by (rule cowns_cmoves) simp
qed

text \<open>Every command, whatever the arguments.\<close>

lemma main_cowns:
  assumes "moves_st lg (\<lambda>_. {#}) (\<lambda>w. snd (osVersion pf w)) (\<lambda>_. {#})"
  shows "cowns lg {#} (main pf cl bk args) (held_at_end (newUUID pf))"
proof -
  have none: "cowns lg {#} f (held_at_end n)" if "cowns lg {#} f (\<lambda>_ N. N = {#})" for f :: "('w, unit) cmd" and n
    using that by (fastforce simp: cowns_def intro: exI [of _ "{#}"])
  have quiet: "cowns lg {#} f (held_at_end n)" if "\<And>p. world (snd (f p)) = world p" for f :: "('w, unit) cmd" and n
    by (rule cowns_cmoves [OF cmoves_quiet [where Q = "\<lambda>_. {#}"]]) (simp_all add: that)
  show ?thesis
    unfolding main_def
    by (auto split: list.split simp: quiet_cmd world_cbind usage_def
      intro!: quiet none [OF runCreate_cowns] none [OF runDelete_cowns] runCertTestCmd_cowns assms)
qed

end

end
