(* ===== verification/CliStore.thy ===== *)
theory CliStore
  imports CliFacts
begin

text \<open>
  What the commands do to the stored keys, for any backend that keeps the contract \<open>key_store\<close>. The three
  reports say what a command line, the way the process ended and the keys before and after have to do with one
  another.
\<close>

section \<open>Reports\<close>

text \<open>\<^verbatim>\<open>create\<close>: status 0 means a new key, any other at most what a failed creation leaves.\<close>

definition create_report ::
    "('w \<Rightarrow> 'v) \<Rightarrow> (string \<Rightarrow> 'v \<Rightarrow> 'v \<Rightarrow> bool) \<Rightarrow> (string \<Rightarrow> 'v \<Rightarrow> 'v \<Rightarrow> bool)
     \<Rightarrow> string \<Rightarrow> string list \<Rightarrow> 'w proc \<Rightarrow> unit ctl \<times> 'w proc \<Rightarrow> bool" where
  "create_report view added stray uuid args p e \<longleftrightarrow>
     (case e of (c, p') \<Rightarrow>
      (case parseFlags [''name''] args (\<lambda>_. []) of
        Inl er \<Rightarrow> status c = (if er = ErrHelp then 0 else 2) \<and> world p' = world p
      | Inr (vals, rest) \<Rightarrow>
          (let name = (if vals ''name'' = [] then uuid else vals ''name'') in
           if status c = 0 then added name (view (world p)) (view (world p'))
           else stray name (view (world p)) (view (world p')))))"

text \<open>\<^verbatim>\<open>delete\<close>: without a name nothing happens; status 0 means that the key is gone, any other that none is.\<close>

definition delete_report ::
    "('w \<Rightarrow> 'v) \<Rightarrow> (string \<Rightarrow> 'v \<Rightarrow> 'v \<Rightarrow> bool) \<Rightarrow> string list \<Rightarrow> 'w proc \<Rightarrow> unit ctl \<times> 'w proc \<Rightarrow> bool" where
  "delete_report view gone args p e \<longleftrightarrow>
     (case e of (c, p') \<Rightarrow>
      (case parseFlags [''name''] args (\<lambda>_. []) of
        Inl er \<Rightarrow> status c = (if er = ErrHelp then 0 else 2) \<and> world p' = world p
      | Inr (vals, rest) \<Rightarrow>
          if vals ''name'' = [] then status c = 1 \<and> world p' = world p
          else if status c = 0 then gone (vals ''name'') (view (world p)) (view (world p'))
          else view (world p') = view (world p)))"

text \<open>
  \<^verbatim>\<open>certtest\<close>: either the keys are as before, or the creation of the throwaway key failed and left something,
  or it was created and then deleted again, unless the deletion failed (with a warning) or the process had
  exited before.
\<close>

definition certtest_report ::
    "('w \<Rightarrow> 'v) \<Rightarrow> (string \<Rightarrow> 'v \<Rightarrow> 'v \<Rightarrow> bool) \<Rightarrow> (string \<Rightarrow> 'v \<Rightarrow> 'v \<Rightarrow> bool) \<Rightarrow> (string \<Rightarrow> 'v \<Rightarrow> 'v \<Rightarrow> bool)
     \<Rightarrow> string \<Rightarrow> 'w proc \<Rightarrow> unit ctl \<times> 'w proc \<Rightarrow> bool" where
  "certtest_report view added stray gone uuid p e \<longleftrightarrow>
     (case e of (c, p') \<Rightarrow>
        view (world p') = view (world p) \<or>
        status c \<noteq> 0 \<and> stray uuid (view (world p)) (view (world p')) \<or>
        (\<exists>V. added uuid (view (world p)) V \<and>
           (gone uuid V (view (world p')) \<or>
            view (world p') = V \<and>
            ((\<exists>n. c = Exited n) \<or>
             (\<exists>er. LogMsg ''warning: delete throwaway key %q: %v'' [LogStr uuid, LogErr er] \<in> set (printed p'))))))"

section \<open>Steps of a command\<close>

lemma flagParse_error:
  "parseFlags (map fst formal) args (\<lambda>_. []) = Inl e \<Longrightarrow>
   \<exists>p'. flagParse fset formal args p = (Exited (if e = ErrHelp then 0 else 2), p') \<and> world p' = world p"
  by (cases e) (simp_all add: flagParse_def cbind_def emit_def os_exit_def)

lemma cbind_exited: "f p = (Exited n, p') \<Longrightarrow> cbind f g p = (Exited n, p')"
  by (simp add: cbind_def)

lemma cbind_next: "f p = (Next x, p') \<Longrightarrow> cbind f g p = g x p'"
  by (simp add: cbind_def)

lemma flagParse_values:
  "parseFlags (map fst formal) args (\<lambda>_. []) = Inr (vals, rest) \<Longrightarrow> flagParse fset formal args p = (Next vals, p)"
  by (simp add: flagParse_def cret_def)

lemma time_since_next: "\<exists>d p'. time_since pf start p = (Next d, p') \<and> world p' = world p"
  by (simp add: time_since_def cbind_def time_now_def cret_def)

lemma header_next: "\<exists>p1. printReportHeader pf bk p = (Next (), p1) \<and> world p1 = snd (osVersion pf (world p))"
  by (simp add: printReportHeader_def headerLine_def cbind_def emit_def split_def)

text \<open>\<^verbatim>\<open>certtest\<close> up to the creation of the key, and from there on.\<close>

abbreviation opened ::
    "('w, 'x) platform_scheme \<Rightarrow> cert_lib \<Rightarrow> ('w, 's) backend \<Rightarrow> int \<Rightarrow> 's \<Rightarrow> ('w, unit) cmd" where
  "opened pf cl bk start s \<equiv>
     cbind (time_since pf start) (\<lambda>d. cdeferred (dropThrowaway bk (newUUID pf) s) (certtestBody pf cl bk s d))"

lemma certtest_start:
  fixes pf :: "('w, 'x) platform_scheme"
  assumes "parseFlags [] args (\<lambda>_. []) = Inr vr"
  shows "\<exists>p1 start. world p1 = snd (osVersion pf (world p)) \<and>
    main pf cl bk (exe # ''certtest'' # args) p =
      (case bk_create bk (newUUID pf) (world p1) of
         (Ret s, w) \<Rightarrow> opened pf cl bk start s (p1\<lparr>world := w\<rparr>)
       | (Fail e, w) \<Rightarrow> (Exited 1, p1\<lparr>world := w, printed := printed p1 @ [LogMsg ''create key: %v'' [LogErr e]]\<rparr>)
       | (Panic m, w) \<Rightarrow> (Crashed m, p1\<lparr>world := w\<rparr>))"
proof -
  obtain vals rest where vr: "vr = (vals, rest)" by fastforce
  have f: "flagParse ''certtest'' [] args p = (Next vals, p)"
    using assms by (simp add: flagParse_def cret_def vr)
  obtain p1 where h: "printReportHeader pf bk p = (Next (), p1)" "world p1 = snd (osVersion pf (world p))"
    using header_next by blast
  let ?p = "p1\<lparr>ticks := Suc (ticks p1)\<rparr>"
  have t: "time_now pf p1 = (Next (clock pf (ticks p1)), ?p)" by (simp add: time_now_def)
  have b: "cbind (flagParse ''certtest'' [] args) g p = g vals p"
    "cbind (printReportHeader pf bk) g' p = g' () p1"
    "cbind (time_now pf) g'' p1 = g'' (clock pf (ticks p1)) ?p"
    for g g' and g'' :: "int \<Rightarrow> ('w, unit) cmd"
    by (simp_all add: cbind_def f h t)
  have w: "cbind (on_world (bk_create bk (newUUID pf))) (\<lambda>res. case res of Inl err \<Rightarrow> fatal ''create key: %v'' [LogErr err]
        | Inr s \<Rightarrow> k s) ?p =
      (case bk_create bk (newUUID pf) (world ?p) of
         (Ret s, w) \<Rightarrow> k s (?p\<lparr>world := w\<rparr>)
       | (Fail e, w) \<Rightarrow> (Exited 1, ?p\<lparr>world := w, printed := printed ?p @ [LogMsg ''create key: %v'' [LogErr e]]\<rparr>)
       | (Panic m, w) \<Rightarrow> (Crashed m, ?p\<lparr>world := w\<rparr>))" for k :: "_ \<Rightarrow> ('w, unit) cmd"
    by (simp add: cbind_def [of "on_world _"] on_world_def fatal_def cbind_def [of "emit _"] emit_def os_exit_def
        split: prod.split outcome.split)
  show ?thesis
    by (rule exI [of _ ?p], rule exI [of _ "clock pf (ticks p1)"])
      (simp add: main_def runCertTestCmd_def b Let_def w h(2))
qed

section \<open>The commands over the contract\<close>

context key_store
begin

lemma closeSigner_next:
  assumes "inv (world p)"
  shows "\<exists>w. closeSigner bk s p = (Next (), p\<lparr>world := w\<rparr>) \<and> inv w \<and> view w = view (world p)"
proof -
  obtain r s' w where c: "bk_close bk (s, world p) = (r, s', w)" by (metis prod.exhaust)
  from close_store [OF assms c] show ?thesis
    by (cases r) (auto simp: closeSigner_def cbind_def on_world_def c cret_def)
qed

lemma create_reported:
  assumes "inv (world p)"
  shows "create_report view added stray (newUUID pf) args p (main pf cl bk (exe # ''create'' # args) p)"
proof (cases "parseFlags [''name''] args (\<lambda>_. [])")
  case (Inl e)
  then obtain p' where "flagParse ''create'' [(''name'', ''key name (defaults to a random uuid)'')] args p =
      (Exited (if e = ErrHelp then 0 else 2), p')" "world p' = world p"
    using flagParse_error [of "[(''name'', ''key name (defaults to a random uuid)'')]" args e "''create''" p] by auto
  then show ?thesis using Inl by (simp add: create_report_def main_def runCreate_def cbind_exited)
next
  case (Inr vr)
  obtain vals rest where vr: "vr = (vals, rest)" by fastforce
  define name where "name = (if vals ''name'' = [] then newUUID pf else vals ''name'')"
  obtain r w1 where c: "bk_create bk name (world p) = (r, w1)" by fastforce
  note t = create_store [OF assms c]
  have m: "main pf cl bk (exe # ''create'' # args) p =
      cbind (on_world (bk_create bk name)) (\<lambda>res. case res of
         Inl err \<Rightarrow> fatal ''create key: %v'' [LogErr err]
       | Inr signer \<Rightarrow> cdeferred (closeSigner bk signer) (emit (LogMsg ''created key %q'' [LogStr name]))) p"
    using Inr vr by (simp add: main_def runCreate_def cbind_next [OF flagParse_values] name_def [symmetric] Let_def
        del: if_split)
  have report: "create_report view added stray (newUUID pf) args p e \<longleftrightarrow>
      (if status (fst e) = 0 then added name (view (world p)) (view (world (snd e)))
       else stray name (view (world p)) (view (world (snd e))))" for e
    by (simp add: create_report_def Inr vr Let_def name_def split_def)
  show ?thesis
  proof (cases r)
    case (Ret s)
    let ?q = "p\<lparr>world := w1, printed := printed p @ [LogMsg ''created key %q'' [LogStr name]]\<rparr>"
    from t Ret have w1: "inv (world ?q)" "added name (view (world p)) (view w1)" by simp_all
    from closeSigner_next [OF w1(1)] obtain w2 where cl: "closeSigner bk s ?q = (Next (), ?q\<lparr>world := w2\<rparr>)"
      "view w2 = view w1" by auto
    have "\<exists>p'. main pf cl bk (exe # ''create'' # args) p = (Next (), p') \<and> world p' = w2"
      unfolding m using cl(1) by (simp add: cbind_def on_world_def c Ret cdeferred_def emit_def)
    with w1(2) cl(2) show ?thesis by (auto simp: report)
  qed (use t in \<open>auto simp: report m cbind_def on_world_def c fatal_def emit_def os_exit_def\<close>)
qed

lemma delete_reported:
  assumes "inv (world p)"
  shows "delete_report view gone args p (main pf cl bk (exe # ''delete'' # args) p)"
proof (cases "parseFlags [''name''] args (\<lambda>_. [])")
  case (Inl e)
  then obtain p' where "flagParse ''delete'' [(''name'', ''key name to delete (required)'')] args p =
      (Exited (if e = ErrHelp then 0 else 2), p')" "world p' = world p"
    using flagParse_error [of "[(''name'', ''key name to delete (required)'')]" args e "''delete''" p] by auto
  then show ?thesis using Inl by (simp add: delete_report_def main_def runDelete_def cbind_exited)
next
  case (Inr vr)
  obtain vals rest where vr: "vr = (vals, rest)" by fastforce
  have m: "main pf cl bk (exe # ''delete'' # args) p =
      (if vals ''name'' = [] then fatal ''delete: -name is required'' []
       else cbind (on_world (bk_delete bk (vals ''name''))) (\<lambda>res. case res of
          Inl err \<Rightarrow> fatal ''delete key: %v'' [LogErr err]
        | Inr _ \<Rightarrow> emit (LogMsg ''deleted key %q'' [LogStr (vals ''name'')]))) p"
    using Inr vr by (simp add: main_def runDelete_def cbind_next [OF flagParse_values] del: if_split)
  obtain r w1 where d: "bk_delete bk (vals ''name'') (world p) = (r, w1)" by fastforce
  from delete_store [OF assms d] show ?thesis
    unfolding m
    by (cases r) (auto simp: delete_report_def Inr vr cbind_def on_world_def d fatal_def emit_def os_exit_def)
qed

text \<open>Commands that leave the stored keys alone.\<close>

definition keeps_cmd :: "('w, 'a) cmd \<Rightarrow> bool" where
  "keeps_cmd f \<longleftrightarrow>
     (\<forall>p. inv (world p) \<longrightarrow> inv (world (snd (f p))) \<and> view (world (snd (f p))) = view (world p))"

lemma keeps_cmdD: "keeps_cmd f \<Longrightarrow> inv (world p) \<Longrightarrow> f p = (c, p') \<Longrightarrow> inv (world p') \<and> view (world p') = view (world p)"
  by (metis keeps_cmd_def snd_conv)

lemma keeps_cmd_quiet: "(\<And>p. world (snd (f p)) = world p) \<Longrightarrow> keeps_cmd f"
  by (simp add: keeps_cmd_def)

lemmas keeps_cmd_atoms =
  keeps_cmd_quiet [OF world_emit] keeps_cmd_quiet [OF world_cret] keeps_cmd_quiet [OF world_fatal]
  keeps_cmd_quiet [OF world_time_now] keeps_cmd_quiet [OF world_time_since] keeps_cmd_quiet [OF world_reportStats]

lemma keeps_cmd_bind: "keeps_cmd f \<Longrightarrow> (\<And>x. keeps_cmd (g x)) \<Longrightarrow> keeps_cmd (cbind f g)"
  by (fastforce simp: keeps_cmd_def cbind_def split: prod.split ctl.split)

lemma keeps_cmd_on_world: "keeps_store f \<Longrightarrow> keeps_cmd (on_world f)"
  by (fastforce simp: keeps_cmd_def keeps_store_def on_world_def split: prod.split outcome.split)

lemma keeps_runCertTest: "keeps_store (runCertTest cl bk s)"
  unfolding runCertTest_def createRootCert_def createLeafCert_def createCertificate_def
  by (intro keeps_store_gbind keeps_store_on_err keeps_store_of_sum keeps_store_sign)

lemma keeps_signLoop: "keeps_cmd (signLoop pf bk s digest n ds)"
proof (induction n arbitrary: ds)
  case (Suc n)
  show ?case unfolding signLoop.simps
    by (auto intro!: keeps_cmd_bind keeps_cmd_on_world keeps_store_sign keeps_cmd_atoms Suc.IH split: sum.split)
qed (simp add: keeps_cmd_atoms)

lemma keeps_body: "keeps_cmd (certtestBody pf cl bk s d)"
  unfolding certtestBody_def
  by (auto intro!: keeps_cmd_bind keeps_cmd_on_world keeps_runCertTest keeps_signLoop keeps_cmd_atoms split: sum.split)

text \<open>The deferred closure: either the key is gone, or a warning was logged.\<close>

lemma drop_reported:
  assumes "inv (world p)" and "dropThrowaway bk u s p = (c, p')"
  shows "c = Next () \<and>
    (gone u (view (world p)) (view (world p')) \<or>
     view (world p') = view (world p) \<and>
       (\<exists>e. LogMsg ''warning: delete throwaway key %q: %v'' [LogStr u, LogErr e] \<in> set (printed p')))"
proof -
  from closeSigner_next [OF assms(1)] obtain w where
    c: "closeSigner bk s p = (Next (), p\<lparr>world := w\<rparr>)" "inv w" "view w = view (world p)" by blast
  obtain r w2 where d: "bk_delete bk u w = (r, w2)" by fastforce
  from delete_store [OF c(2) d] assms(2) c(3) show ?thesis
    by (cases r) (auto simp: dropThrowaway_def cbind_def c(1) on_world_def d cret_def emit_def)
qed

lemma opened_reported:
  assumes "inv (world p)" and "opened pf cl bk start s p = (c, p')"
  shows "gone (newUUID pf) (view (world p)) (view (world p')) \<or>
    view (world p') = view (world p) \<and>
      ((\<exists>n. c = Exited n) \<or>
       (\<exists>e. LogMsg ''warning: delete throwaway key %q: %v'' [LogStr (newUUID pf), LogErr e] \<in> set (printed p')))"
proof -
  from time_since_next obtain d p1 where t: "time_since pf start p = (Next d, p1)" "world p1 = world p" by blast
  obtain c2 p2 where b: "certtestBody pf cl bk s d p1 = (c2, p2)" by fastforce
  from keeps_cmdD [OF keeps_body _ b] assms(1) t(2) have k: "inv (world p2)" "view (world p2) = view (world p)" by simp_all
  have r: "cdeferred (dropThrowaway bk (newUUID pf) s) (certtestBody pf cl bk s d) p1 = (c, p')"
    using assms(2) by (simp add: cbind_def [of "time_since _ _"] t)
  show ?thesis
  proof (cases "\<exists>n. c2 = Exited n")
    case True
    with r b k show ?thesis by (auto simp: cdeferred_def)
  next
    case False
    obtain c3 p3 where dr: "dropThrowaway bk (newUUID pf) s p2 = (c3, p3)" by fastforce
    note d = drop_reported [OF k(1) dr]
    then have "p' = p3" using r b dr False by (auto simp: cdeferred_def split: ctl.splits)
    with d k(2) show ?thesis by auto
  qed
qed

lemma certtest_reported:
  assumes "inv (world p)"
    and os: "\<And>w. inv w \<Longrightarrow> inv (snd (osVersion pf w)) \<and> view (snd (osVersion pf w)) = view w"
  shows "certtest_report view added stray gone (newUUID pf) p (main pf cl bk (exe # ''certtest'' # args) p)"
proof (cases "parseFlags [] args (\<lambda>_. [])")
  case (Inl e)
  then obtain p' where "flagParse ''certtest'' [] args p = (Exited (if e = ErrHelp then 0 else 2), p')" "world p' = world p"
    using flagParse_error [of "[]" args e "''certtest''" p] by auto
  then show ?thesis by (simp add: certtest_report_def main_def runCertTestCmd_def cbind_exited)
next
  case (Inr vr)
  from certtest_start [OF Inr, where p = p and pf = pf and cl = cl and bk = bk, of exe]
  obtain p1 start where p1: "world p1 = snd (osVersion pf (world p))"
    and m: "main pf cl bk (exe # ''certtest'' # args) p =
      (case bk_create bk (newUUID pf) (world p1) of
         (Ret s, w) \<Rightarrow> opened pf cl bk start s (p1\<lparr>world := w\<rparr>)
       | (Fail e, w) \<Rightarrow> (Exited 1, p1\<lparr>world := w, printed := printed p1 @ [LogMsg ''create key: %v'' [LogErr e]]\<rparr>)
       | (Panic m, w) \<Rightarrow> (Crashed m, p1\<lparr>world := w\<rparr>))" by blast
  from os [OF assms(1)] have w1: "inv (world p1)" "view (world p1) = view (world p)" by (simp_all add: p1)
  obtain r w where c: "bk_create bk (newUUID pf) (world p1) = (r, w)" by fastforce
  note t = create_store [OF w1(1) c]
  show ?thesis
  proof (cases r)
    case (Ret s)
    obtain c' p' where o: "opened pf cl bk start s (p1\<lparr>world := w\<rparr>) = (c', p')" by fastforce
    have "inv (world (p1\<lparr>world := w\<rparr>))" using t by simp
    from opened_reported [OF this o] t Ret show ?thesis
      unfolding m c Ret prod.case outcome.case o by (auto simp: certtest_report_def w1(2))
  qed (use t in \<open>simp_all add: m c certtest_report_def w1(2)\<close>)
qed

end

end
