(* ===== verification/OsInfo.thy ===== *)
theory OsInfo
  imports GoOSViews
begin

text \<open>
  The operating-system line of the report: \<^verbatim>\<open>osVersion\<close> of \<^verbatim>\<open>osinfo_linux.go\<close>,
  \<^verbatim>\<open>osinfo_windows.go\<close> and \<^verbatim>\<open>osinfo_darwin.go\<close>. The \<^verbatim>\<open>sysctl\<close> values and the numbers of
  \<^verbatim>\<open>RtlGetVersion\<close> are inputs. \<^verbatim>\<open>strings.TrimSpace\<close> works on the UTF-8 encodings of the Unicode
  white space.
\<close>

section \<open>\<^verbatim>\<open>strings.TrimSpace\<close>\<close>

definition chars :: "nat list \<Rightarrow> string" where
  "chars ns = map char_of ns"

text \<open>\<^verbatim>\<open>unicode.IsSpace\<close>: six ASCII characters, then U+0085, U+00A0, U+1680, U+2000 to U+200A, U+2028, U+2029,
  U+202F, U+205F and U+3000.\<close>

definition spaceRunes :: "string list" where
  "spaceRunes =
     map chars
       ([[9], [10], [11], [12], [13], [32], [194, 133], [194, 160], [225, 154, 128]] @
        map (\<lambda>k. [226, 128, k]) [128..<139] @
        [[226, 128, 168], [226, 128, 169], [226, 128, 175], [226, 129, 159], [227, 128, 128]])"

lemma find_it: "List.find P xs = Some x \<Longrightarrow> x \<in> set xs \<and> P x"
  by (auto simp: find_Some_iff)

definition startsWith :: "'a list \<Rightarrow> 'a list \<Rightarrow> bool" where
  "startsWith s p \<longleftrightarrow> take (length p) s = p"

text \<open>Take sequences of \<open>ps\<close> off the front as long as there is one; the empty sequence is none.\<close>

function stripFront :: "'a list list \<Rightarrow> 'a list \<Rightarrow> 'a list" where
  "stripFront ps s =
     (case List.find (\<lambda>p. p \<noteq> [] \<and> startsWith s p) ps of
        None \<Rightarrow> s
      | Some p \<Rightarrow> stripFront ps (drop (length p) s))"
  by pat_completeness auto
termination
  by (relation "measure (\<lambda>(ps, s). length s)") (auto simp: startsWith_def dest!: find_it intro!: diff_less)

declare stripFront.simps [simp del]

definition trimSpace :: "string \<Rightarrow> string" where
  "trimSpace s = rev (stripFront (map rev spaceRunes) (rev (stripFront spaceRunes s)))"

section \<open>\<^verbatim>\<open>osVersion\<close>\<close>

definition osVersion_linux :: "'x os_scheme \<Rightarrow> string \<times> 'x os_scheme" where
  "osVersion_linux w =
     (case os_read_file ''/proc/sys/kernel/osrelease'' w of
        (Ret release, w') \<Rightarrow> (''Linux '' @ trimSpace (string_of_bytes release), w')
      | (_, w') \<Rightarrow> (''Linux (unknown kernel)'', w'))"

definition osVersion_windows :: "32 word \<times> 32 word \<times> 32 word \<Rightarrow> string" where
  "osVersion_windows v =
     (case v of (major, minor, build) \<Rightarrow>
        ''Windows '' @ dec_digits (unat major) @ ''.'' @ dec_digits (unat minor) @ '' build '' @ dec_digits (unat build))"

definition osVersion_darwin :: "(string \<Rightarrow> go_err + string) \<Rightarrow> string" where
  "osVersion_darwin sysctl =
     (case sysctl ''kern.osproductversion'' of
        Inr v \<Rightarrow> ''macOS '' @ v
      | Inl _ \<Rightarrow>
          (case sysctl ''kern.osrelease'' of
             Inr v \<Rightarrow> ''Darwin '' @ v
           | Inl _ \<Rightarrow> ''macOS (unknown version)''))"

section \<open>Lemmas\<close>

lemma stripFront_result:
  "\<exists>a. s = a @ stripFront ps s \<and> (\<exists>qs. set qs \<subseteq> set ps \<and> a = concat qs)"
proof (induction ps s rule: stripFront.induct)
  case (1 ps s)
  show ?case
  proof (cases "List.find (\<lambda>p. p \<noteq> [] \<and> startsWith s p) ps")
    case None
    then have "s = [] @ stripFront ps s" by (subst stripFront.simps) simp
    then show ?thesis by (intro exI [of _ "[]"] conjI) auto
  next
    case (Some p)
    then have p: "p \<in> set ps" "take (length p) s = p"
      by (auto simp: startsWith_def dest!: find_it)
    from 1 [OF Some] obtain a qs where a: "drop (length p) s = a @ stripFront ps (drop (length p) s)"
      and qs: "set qs \<subseteq> set ps" "a = concat qs" by blast
    have "s = p @ drop (length p) s" using p(2) by (metis append_take_drop_id)
    moreover have "stripFront ps s = stripFront ps (drop (length p) s)"
      using Some by (subst stripFront.simps) simp
    ultimately have "s = (p @ a) @ stripFront ps s" using a by simp
    moreover have "set (p # qs) \<subseteq> set ps" "p @ a = concat (p # qs)" using p(1) qs by simp_all
    ultimately show ?thesis by blast
  qed
qed

lemma stripFront_done: "p \<in> set ps \<Longrightarrow> p \<noteq> [] \<Longrightarrow> \<not> startsWith (stripFront ps s) p"
proof (induction ps s rule: stripFront.induct)
  case (1 ps s)
  then show ?case
    by (subst stripFront.simps) (auto simp: find_None_iff split: option.split)
qed

lemma snd_osVersion_linux: "snd (osVersion_linux w) = snd (os_read_file ''/proc/sys/kernel/osrelease'' w)"
  by (simp add: osVersion_linux_def split: prod.split outcome.split)

lemma moves_osVersion_linux [ledger]: "moves_st ledger_log (\<lambda>_. {#}) (\<lambda>w. snd (osVersion_linux w)) (\<lambda>_. {#})"
  unfolding snd_osVersion_linux by (rule moves_st_snd [OF moves_os_read_file])

lemma inert_osVersion_linux: "tree_kept w (snd (osVersion_linux w))"
  unfolding snd_osVersion_linux by (rule inert_snd [OF inert_read_file])

text \<open>A list that does not start with a space, nor end with one.\<close>

definition trimmed :: "string \<Rightarrow> bool" where
  "trimmed t \<longleftrightarrow> list_all (\<lambda>p. \<not> startsWith t p \<and> \<not> startsWith (rev t) (rev p)) spaceRunes"

lemma spaceRunes_nonempty: "p \<in> set spaceRunes \<Longrightarrow> p \<noteq> []"
  by (auto simp: spaceRunes_def chars_def)

lemma startsWith_iff: "startsWith s p \<longleftrightarrow> (\<exists>r. s = p @ r)"
  unfolding startsWith_def by (metis append_eq_conv_conj)

lemma startsWith_append: "startsWith a p \<Longrightarrow> startsWith (a @ b) p"
  by (auto simp: startsWith_iff)

text \<open>Trimming takes white space off both ends and nothing else.\<close>

lemma trimSpace_result:
  "trimmed (trimSpace s) \<and>
   (\<exists>front back. s = concat front @ trimSpace s @ concat back \<and> set front \<union> set back \<subseteq> set spaceRunes)"
proof -
  define u where "u = stripFront spaceRunes s"
  define v where "v = stripFront (map rev spaceRunes) (rev u)"
  have t: "trimSpace s = rev v" by (simp add: trimSpace_def u_def v_def)
  from stripFront_result [of s spaceRunes] obtain front where
    front: "s = concat front @ u" "set front \<subseteq> set spaceRunes" unfolding u_def by blast
  from stripFront_result [of "rev u" "map rev spaceRunes"] obtain qs where
    qs: "rev u = concat qs @ v" "set qs \<subseteq> set (map rev spaceRunes)" unfolding v_def by blast
  from qs(1) have u: "u = rev v @ concat (map rev (rev qs))" by (metis rev_append rev_concat rev_rev_ident)
  have "set (map rev (rev qs)) \<subseteq> set spaceRunes" using qs(2) by auto
  with front u have "\<exists>front back. s = concat front @ trimSpace s @ concat back \<and> set front \<union> set back \<subseteq> set spaceRunes"
    unfolding t by (intro exI [of _ front] exI [of _ "map rev (rev qs)"]) simp
  moreover have "\<not> startsWith (rev v) p" "\<not> startsWith v (rev p)" if p: "p \<in> set spaceRunes" for p
  proof -
    note ne = spaceRunes_nonempty [OF p]
    show "\<not> startsWith (rev v) p"
      using stripFront_done [OF p ne, of s] startsWith_append [of "rev v" p] u unfolding u_def by metis
    show "\<not> startsWith v (rev p)" unfolding v_def by (rule stripFront_done) (use p ne in auto)
  qed
  ultimately show ?thesis by (simp add: trimmed_def t list_all_iff)
qed

text \<open>
  The operating-system line on Linux is the kernel's release without the white space at its ends:
  what is printed neither starts nor ends with a white-space character, and what was taken off is a
  sequence of them on either side; without the file the kernel is reported as unknown.
\<close>

theorem osVersion_linux_trimmed:
  "case os_read_file ''/proc/sys/kernel/osrelease'' w of
     (Ret b, w') \<Rightarrow> (\<exists>t front back. osVersion_linux w = (''Linux '' @ t, w') \<and> trimmed t \<and>
       string_of_bytes b = concat front @ t @ concat back \<and> set front \<union> set back \<subseteq> set spaceRunes)
   | (_, w') \<Rightarrow> osVersion_linux w = (''Linux (unknown kernel)'', w')"
proof (cases "os_read_file ''/proc/sys/kernel/osrelease'' w")
  case (Pair r w')
  then show ?thesis
    using trimSpace_result [of "string_of_bytes b" for b] by (cases r) (auto simp: osVersion_linux_def)
qed

end
