(* ===== verification/CliBackends.thy ===== *)
theory CliBackends
  imports CliStore OsInfo
begin

text \<open>
  The properties of the three commands: how their arguments are read, what \<^verbatim>\<open>create\<close>, \<^verbatim>\<open>delete\<close> and
  \<^verbatim>\<open>certtest\<close> do to the stored keys, and who holds the hardware when the process ends, on Linux, on Windows
  and on macOS.
\<close>

section \<open>A platform\<close>

text \<open>A machine to run the commands on.\<close>

definition sample_platform :: "nat lx platform" where
  "sample_platform =
     \<lparr>goVersion = ''go1.24'', goOS = ''linux'', goArch = ''amd64'', buildInfo = None, osVersion = osVersion_linux,
      newUUID = ''k'', clock = int, sha256_Sum = (\<lambda>_. replicate 32 0)\<rparr>"

section \<open>Arguments\<close>

lemma flagParse_written:
  assumes "list_all (known_flag (map fst formal)) fs" and "flags_end rest"
  shows "flagParse fset formal (writeFlags fs @ rest) = cret (fold setFlag fs (\<lambda>_. []))"
  using parseFlags_written [OF assms] by (simp add: flagParse_def)

lemma fold_setFlag_last: "fold setFlag (fs @ [(st, n, v)]) vals n = v"
  by (simp add: setFlag_def)



section \<open>What the commands do to the stored keys\<close>

text \<open>
  C33: \<^verbatim>\<open>create\<close> on the three platforms. With flags it cannot read it exits with status 2 (0 when help was
  asked for) and touches nothing. Otherwise the name is the flag's or a fresh UUID; status 0 means that the name
  was free and now has a key, any other that no stored key has changed, except that on Windows a key whose
  export failed stays, and on macOS one whose rollback the keychain refused.
\<close>

theorem cli_create:
  "(os_wf (world p) \<longrightarrow>
      create_report (storedKeys env) linux_added (\<lambda>_ T T'. T' = T) (newUUID pf) args p
        (main pf cl (linux_backend lib env) (exe # ''create'' # args) p)) \<and>
   (provider_laws nc keys handles \<longrightarrow>
      create_report (\<lambda>w. keys (win_dev w)) (windows_added nc) (\<lambda>name K K'. K' = K \<or> windows_added nc name K K')
        (newUUID wpf) args q (main wpf cl (windows_backend nc) (exe # ''create'' # args) q)) \<and>
   (keychain_laws fw tags \<and> lookups_answer fw \<longrightarrow>
      create_report (\<lambda>w. tags (mac_dev w)) darwin_added (darwin_stray fw) (newUUID mpf) args u
        (main mpf cl (darwin_backend fw) (exe # ''create'' # args) u))"
  by (intro conjI impI linux_keys.create_reported windows_keys.create_reported darwin_keys.create_reported)
    simp_all

text \<open>The three platforms of the witnesses: a Linux store, a provider and a keychain in memory.\<close>

definition soft_platform :: "(soft_keys win) platform" where
  "soft_platform = \<lparr>goVersion = [], goOS = ''windows'', goArch = [], buildInfo = None, osVersion = Pair [],
     newUUID = ''k'', clock = int, sha256_Sum = (\<lambda>_. replicate 32 0)\<rparr>"

definition mac_platform :: "(bytes multiset mac) platform" where
  "mac_platform = \<lparr>goVersion = [], goOS = ''darwin'', goArch = [], buildInfo = None, osVersion = Pair [],
     newUUID = ''k'', clock = int, sha256_Sum = (\<lambda>_. replicate 32 0)\<rparr>"

abbreviation lx_start :: "(nat lx) proc" where
  "lx_start \<equiv> \<lparr>world = live_lx, printed = [], ticks = 0\<rparr>"

abbreviation win_start :: "(soft_keys win) proc" where
  "win_start \<equiv> \<lparr>world = \<lparr>win_dev = ([], []), win_log = []\<rparr>, printed = [], ticks = 0\<rparr>"

abbreviation mac_start :: "(bytes multiset mac) proc" where
  "mac_start \<equiv> \<lparr>world = \<lparr>mac_dev = {#}, mac_log = []\<rparr>, printed = [], ticks = 0\<rparr>"

lemma start_ok: "os_wf (world lx_start)" "provider_laws soft_provider soft_keys soft_handles"
  "keychain_laws (sample_keychain False sample_point) (\<lambda>d. d) \<and> lookups_answer (sample_keychain False sample_point)"
  using live_lx_ready(1) soft_provider_laws sample_keychain_laws sample_answers by (auto simp: lookups_answer_def)

lemma cli_create_witness:
  "create_report (storedKeys sample_env) linux_added (\<lambda>_ T T'. T' = T) ''k'' [''-name'', ''k''] lx_start
     (main sample_platform echo_lib (linux_backend live_tpm sample_env) (''kp'' # ''create'' # [''-name'', ''k'']) lx_start) \<and>
   create_report (\<lambda>w. soft_keys (win_dev w)) (windows_added soft_provider)
     (\<lambda>name K K'. K' = K \<or> windows_added soft_provider name K K') ''k'' [''-name'', ''k''] win_start
     (main soft_platform echo_lib (windows_backend soft_provider) (''kp'' # ''create'' # [''-name'', ''k'']) win_start) \<and>
   create_report mac_dev darwin_added (darwin_stray (sample_keychain False sample_point)) ''k'' [''-name'', ''k''] mac_start
     (main mac_platform echo_lib (darwin_backend (sample_keychain False sample_point)) (''kp'' # ''create'' # [''-name'', ''k'']) mac_start)"
  using cli_create [where p = lx_start and env = sample_env and pf = sample_platform and cl = echo_lib and lib = live_tpm
      and nc = soft_provider and keys = soft_keys and handles = soft_handles and wpf = soft_platform and q = win_start
      and fw = "sample_keychain False sample_point" and tags = "\<lambda>d. d" and mpf = mac_platform and u = mac_start
      and args = "[''-name'', ''k'']" and exe = "''kp''"] start_ok
  by (simp add: sample_platform_def soft_platform_def mac_platform_def)

text \<open>
  C34: \<^verbatim>\<open>delete\<close> on the three platforms: without a name, or with an empty one, nothing is deleted and the
  status is 1; with a name, status 0 means that exactly this key is gone, any other that no key is.
\<close>

theorem cli_delete:
  "(os_wf (world p) \<longrightarrow>
      delete_report (storedKeys env) (\<lambda>name T T'. T' = T(name := None)) args p
        (main pf cl (linux_backend lib env) (exe # ''delete'' # args) p)) \<and>
   (provider_laws nc keys handles \<longrightarrow>
      delete_report (\<lambda>w. keys (win_dev w)) (windows_removed nc) args q
        (main wpf cl (windows_backend nc) (exe # ''delete'' # args) q)) \<and>
   (keychain_laws fw tags \<and> lookups_answer fw \<longrightarrow>
      delete_report (\<lambda>w. tags (mac_dev w)) darwin_removed args u
        (main mpf cl (darwin_backend fw) (exe # ''delete'' # args) u))"
  by (intro conjI impI linux_keys.delete_reported windows_keys.delete_reported darwin_keys.delete_reported)
    simp_all

lemma cli_delete_witness:
  "delete_report (storedKeys sample_env) (\<lambda>name T T'. T' = T(name := None)) [''-name'', ''k''] lx_start
     (main sample_platform echo_lib (linux_backend live_tpm sample_env) (''kp'' # ''delete'' # [''-name'', ''k'']) lx_start) \<and>
   delete_report (\<lambda>w. soft_keys (win_dev w)) (windows_removed soft_provider) [''-name'', ''k''] win_start
     (main soft_platform echo_lib (windows_backend soft_provider) (''kp'' # ''delete'' # [''-name'', ''k'']) win_start) \<and>
   delete_report mac_dev darwin_removed [''-name'', ''k''] mac_start
     (main mac_platform echo_lib (darwin_backend (sample_keychain False sample_point)) (''kp'' # ''delete'' # [''-name'', ''k'']) mac_start)"
  using cli_delete [where p = lx_start and env = sample_env and pf = sample_platform and cl = echo_lib and lib = live_tpm
      and nc = soft_provider and keys = soft_keys and handles = soft_handles and wpf = soft_platform and q = win_start
      and fw = "sample_keychain False sample_point" and tags = "\<lambda>d. d" and mpf = mac_platform and u = mac_start
      and args = "[''-name'', ''k'']" and exe = "''kp''"] start_ok
  by simp

section \<open>Who holds the TPM when the process ends\<close>

text \<open>The platform's \<^verbatim>\<open>osVersion\<close> put in.\<close>

definition linux_platform :: "('d lx) platform \<Rightarrow> ('d lx) platform" where
  "linux_platform pf = pf\<lparr>osVersion := osVersion_linux\<rparr>"

definition windows_platform :: "32 word \<times> 32 word \<times> 32 word \<Rightarrow> ('d win) platform \<Rightarrow> ('d win) platform" where
  "windows_platform v pf = pf\<lparr>osVersion := (\<lambda>w. (osVersion_windows v, w))\<rparr>"

definition darwin_platform :: "(string \<Rightarrow> go_err + string) \<Rightarrow> ('d mac) platform \<Rightarrow> ('d mac) platform" where
  "darwin_platform sysctl pf = pf\<lparr>osVersion := (\<lambda>w. (osVersion_darwin sysctl, w))\<rparr>"

text \<open>
  C35: whatever the command line, the backend's answers and the errors: when the process ends by
  returning from \<^verbatim>\<open>main\<close> or by a panic, every connection, handle and file it opened has been given back exactly
  once; only \<^verbatim>\<open>os.Exit\<close> can leave something behind, and then at most what the signer of the
  throwaway key owns. The same on Linux, on Windows and on macOS.
\<close>

theorem cli_releases:
  "(case main (linux_platform pf) cl (linux_backend lib env) args p of (c, p') \<Rightarrow>
      \<exists>N. (\<forall>F. replays ledger_log (world p) (world p') F (F + N)) \<and>
        (N = {#} \<or> (\<exists>n s w w'. c = Exited n \<and> createKey lib env (newUUID pf) w = (Ret s, w') \<and> N = signer_res s))) \<and>
   (case main (windows_platform v wpf) cl (windows_backend nc) args q of (c, q') \<Rightarrow>
      \<exists>N. (\<forall>F. replays win_log (world q) (world q') F (F + N)) \<and>
        (N = {#} \<or> (\<exists>n s w w'. c = Exited n \<and> createKey_windows nc (newUUID wpf) w = (Ret s, w') \<and> N = win_signer_res s))) \<and>
   (case main (darwin_platform sysctl mpf) cl (darwin_backend fw) args u of (c, u') \<Rightarrow>
      \<exists>N. (\<forall>F. replays mac_log (world u) (world u') F (F + N)) \<and>
        (N = {#} \<or> (\<exists>n s w w'. c = Exited n \<and> createKey_darwin fw (newUUID mpf) w = (Ret s, w') \<and> N = es_res s)))"
proof -
  have l: "moves_st ledger_log (\<lambda>_. {#}) (\<lambda>w. snd (osVersion (linux_platform pf) w)) (\<lambda>_. {#})"
    by (simp add: linux_platform_def moves_osVersion_linux)
  obtain c p' where r: "main (linux_platform pf) cl (linux_backend lib env) args p = (c, p')" by fastforce
  have w: "moves_st win_log (\<lambda>_. {#}) (\<lambda>w. snd (osVersion (windows_platform v wpf) w)) (\<lambda>_. {#})"
    by (simp add: windows_platform_def moves_st_id)
  obtain d q' where r2: "main (windows_platform v wpf) cl (windows_backend nc) args q = (d, q')" by fastforce
  have m: "moves_st mac_log (\<lambda>_. {#}) (\<lambda>w. snd (osVersion (darwin_platform sysctl mpf) w)) (\<lambda>_. {#})"
    by (simp add: darwin_platform_def moves_st_id)
  obtain e u' where r3: "main (darwin_platform sysctl mpf) cl (darwin_backend fw) args u = (e, u')" by fastforce
  show ?thesis
    unfolding r r2 r3 prod.case
  proof (intro conjI)
    from cowns_replays [OF linux.main_cowns [OF l] r]
    show "\<exists>N. (\<forall>F. replays ledger_log (world p) (world p') F (F + N)) \<and>
        (N = {#} \<or> (\<exists>n s w w'. c = Exited n \<and> createKey lib env (newUUID pf) w = (Ret s, w') \<and> N = signer_res s))"
      unfolding linux.held_at_end_def by (simp add: linux_platform_def) blast
    from cowns_replays [OF windows.main_cowns [OF w] r2]
    show "\<exists>N. (\<forall>F. replays win_log (world q) (world q') F (F + N)) \<and>
        (N = {#} \<or> (\<exists>n s w w'. d = Exited n \<and> createKey_windows nc (newUUID wpf) w = (Ret s, w') \<and> N = win_signer_res s))"
      unfolding windows.held_at_end_def by (simp add: windows_platform_def) blast
    from cowns_replays [OF darwin.main_cowns [OF m] r3]
    show "\<exists>N. (\<forall>F. replays mac_log (world u) (world u') F (F + N)) \<and>
        (N = {#} \<or> (\<exists>n s w w'. e = Exited n \<and> createKey_darwin fw (newUUID mpf) w = (Ret s, w') \<and> N = es_res s))"
      unfolding darwin.held_at_end_def by (simp add: darwin_platform_def) blast
  qed
qed

section \<open>The throwaway key\<close>

text \<open>
  C36: \<^verbatim>\<open>certtest\<close> leaves the stored keys as they were on every platform, with three exceptions: when
  creating its throwaway key failed and left one (on Windows after a failed export, on macOS after a refused
  rollback), when the deletion of the throwaway key failed, which it warns about, and when it was ended by
  \<^verbatim>\<open>os.Exit\<close> after the key had been created.
\<close>

theorem certtest_table:
  "(os_wf (world p) \<longrightarrow>
      certtest_report (storedKeys env) linux_added (\<lambda>_ T T'. T' = T) (\<lambda>name T T'. T' = T(name := None)) (newUUID pf) p
        (main (linux_platform pf) cl (linux_backend lib env) (exe # ''certtest'' # args) p)) \<and>
   (provider_laws nc keys handles \<longrightarrow>
      certtest_report (\<lambda>w. keys (win_dev w)) (windows_added nc) (\<lambda>name K K'. K' = K \<or> windows_added nc name K K')
        (windows_removed nc) (newUUID wpf) q
        (main (windows_platform v wpf) cl (windows_backend nc) (exe # ''certtest'' # args) q)) \<and>
   (keychain_laws fw tags \<and> lookups_answer fw \<longrightarrow>
      certtest_report (\<lambda>w. tags (mac_dev w)) darwin_added (darwin_stray fw) darwin_removed (newUUID mpf) u
        (main (darwin_platform sysctl mpf) cl (darwin_backend fw) (exe # ''certtest'' # args) u))"
proof (intro conjI impI)
  have os: "os_wf (snd (osVersion_linux w)) \<and> storedKeys env (snd (osVersion_linux w)) = storedKeys env w"
    if "os_wf w" for w :: "'a lx"
    using inert_osVersion_linux [of w] that by (simp add: tree_keptD storedKeys_kept)
  assume "os_wf (world p)"
  then show "certtest_report (storedKeys env) linux_added (\<lambda>_ T T'. T' = T) (\<lambda>name T T'. T' = T(name := None)) (newUUID pf) p
      (main (linux_platform pf) cl (linux_backend lib env) (exe # ''certtest'' # args) p)"
    using linux_keys.certtest_reported [where p = p and pf = "linux_platform pf" and env = env and cl = cl and lib = lib
        and args = args and exe = exe] os
    by (simp add: linux_platform_def)
next
  assume "provider_laws nc keys handles"
  then show "certtest_report (\<lambda>w. keys (win_dev w)) (windows_added nc) (\<lambda>name K K'. K' = K \<or> windows_added nc name K K')
      (windows_removed nc) (newUUID wpf) q
      (main (windows_platform v wpf) cl (windows_backend nc) (exe # ''certtest'' # args) q)"
    using windows_keys.certtest_reported [where p = q and pf = "windows_platform v wpf" and nc = nc and cl = cl
        and keys = keys and handles = handles and args = args and exe = exe]
    by (simp add: windows_platform_def)
next
  assume "keychain_laws fw tags \<and> lookups_answer fw"
  then show "certtest_report (\<lambda>w. tags (mac_dev w)) darwin_added (darwin_stray fw) darwin_removed (newUUID mpf) u
      (main (darwin_platform sysctl mpf) cl (darwin_backend fw) (exe # ''certtest'' # args) u)"
    using darwin_keys.certtest_reported [where p = u and pf = "darwin_platform sysctl mpf" and fw = fw and cl = cl
        and tags = tags and args = args and exe = exe]
    by (simp add: darwin_platform_def)
qed

lemma certtest_table_witness:
  "certtest_report (storedKeys sample_env) linux_added (\<lambda>_ T T'. T' = T) (\<lambda>name T T'. T' = T(name := None)) ''k'' lx_start
     (main (linux_platform sample_platform) echo_lib (linux_backend live_tpm sample_env) (''kp'' # ''certtest'' # []) lx_start) \<and>
   certtest_report (\<lambda>w. soft_keys (win_dev w)) (windows_added soft_provider)
     (\<lambda>name K K'. K' = K \<or> windows_added soft_provider name K K') (windows_removed soft_provider) ''k'' win_start
     (main (windows_platform (10, 0, 1) soft_platform) echo_lib (windows_backend soft_provider) (''kp'' # ''certtest'' # []) win_start) \<and>
   certtest_report mac_dev darwin_added (darwin_stray (sample_keychain False sample_point)) darwin_removed ''k'' mac_start
     (main (darwin_platform (\<lambda>_. Inr []) mac_platform) echo_lib (darwin_backend (sample_keychain False sample_point))
        (''kp'' # ''certtest'' # []) mac_start)"
  using certtest_table [where p = lx_start and env = sample_env and pf = sample_platform and cl = echo_lib and lib = live_tpm
      and nc = soft_provider and keys = soft_keys and handles = soft_handles and wpf = soft_platform and q = win_start
      and fw = "sample_keychain False sample_point" and tags = "\<lambda>d. d" and mpf = mac_platform and u = mac_start
      and v = "(10, 0, 1)" and sysctl = "\<lambda>_. Inr []" and args = "[]" and exe = "''kp''"] start_ok
  by (simp add: sample_platform_def soft_platform_def mac_platform_def)

text \<open>
  C37: \<^verbatim>\<open>certtest\<close> does not clean up after a failure: when the self-test reports an error,
  \<^verbatim>\<open>log.Fatalf\<close> ends the process before the deferred closure runs, so the signer is not closed and
  the throwaway key stays in the store, under a random name nothing has printed.
\<close>

theorem certtest_leaves_key:
  assumes "os_wf (world p)"
  shows "case createKey lib env (newUUID pf) (snd (osVersion_linux (world p))) of
      (Ret s, w1) \<Rightarrow>
        (case runCertTest cl (linux_backend lib env) s w1 of
           (Fail e, w2) \<Rightarrow>
             (case main (linux_platform pf) cl (linux_backend lib env) [exe, ''certtest''] p of (c, p') \<Rightarrow>
                c = Exited 1 \<and> world p' = w2 \<and> storedKeys env w2 (newUUID pf) \<noteq> None)
         | _ \<Rightarrow> True)
    | _ \<Rightarrow> True"
proof -
  have ok: "parseFlags [] [] (\<lambda>_. []) = Inr (\<lambda>_. [], [])"
    by (subst parseFlags.simps) (simp add: parseOne_def)
  from certtest_start [OF ok, where p = p and pf = "linux_platform pf" and cl = cl and bk = "linux_backend lib env", of exe]
  obtain p1 start where p1: "world p1 = snd (osVersion_linux (world p))"
    and m: "main (linux_platform pf) cl (linux_backend lib env) [exe, ''certtest''] p =
      (case createKey lib env (newUUID pf) (world p1) of
         (Ret s, w) \<Rightarrow> opened (linux_platform pf) cl (linux_backend lib env) start s (p1\<lparr>world := w\<rparr>)
       | (Fail e, w) \<Rightarrow> (Exited 1, p1\<lparr>world := w, printed := printed p1 @ [LogMsg ''create key: %v'' [LogErr e]]\<rparr>)
       | (Panic m, w) \<Rightarrow> (Crashed m, p1\<lparr>world := w\<rparr>))" by (auto simp: linux_platform_def)
  obtain r w1 where c: "createKey lib env (newUUID pf) (world p1) = (r, w1)" by fastforce
  have wf1: "os_wf (world p1)" using inert_osVersion_linux [of "world p"] assms by (simp add: p1 tree_keptD)
  note t = tripleD [OF triple_createKey c table_is_self [OF wf1]]
  have "case main (linux_platform pf) cl (linux_backend lib env) [exe, ''certtest''] p of (c, p') \<Rightarrow>
      c = Exited 1 \<and> world p' = w2 \<and> storedKeys env w2 (newUUID pf) \<noteq> None"
    if "r = Ret s" and f: "runCertTest cl (linux_backend lib env) s w1 = (Fail e, w2)" for s e w2
  proof -
    from t that(1) have b: "storedKeys env w1 (newUUID pf) \<noteq> None" by (auto simp: created_def table_is_def)
    have "os_wf w1" using t that(1) by (auto simp: created_def table_is_def)
    from linux_keys.keeps_storeD [OF linux_keys.keeps_runCertTest this f]
    have "storedKeys env w2 = storedKeys env w1" by simp
    moreover obtain d p2 where
      s: "time_since (linux_platform pf) start (p1\<lparr>world := w1\<rparr>) = (Next d, p2)" "world p2 = w1"
      using time_since_next [of "linux_platform pf" start "p1\<lparr>world := w1\<rparr>"] by auto
    have "\<exists>p'. certtestBody (linux_platform pf) cl (linux_backend lib env) s d p2 = (Exited 1, p') \<and> world p' = w2"
      using s(2) by (simp add: certtestBody_def cbind_def emit_def time_now_def on_world_def f fatal_def os_exit_def)
    then have "\<exists>p'. opened (linux_platform pf) cl (linux_backend lib env) start s (p1\<lparr>world := w1\<rparr>) = (Exited 1, p') \<and> world p' = w2"
      by (auto simp: cbind_def [of "time_since _ _"] s(1) cdeferred_def)
    ultimately show ?thesis using b unfolding m c that(1) prod.case outcome.case by auto
  qed
  then show ?thesis unfolding p1 [symmetric] c by (auto split: outcome.split prod.split)
qed

lemma certtest_leaves_key_witness:
  "\<exists>s w1 e w2 p'. createKey live_tpm sample_env ''k'' (snd (osVersion_linux live_lx)) = (Ret s, w1) \<and>
     runCertTest (echo_lib\<lparr>root_random := Inl (Ext ''no entropy'')\<rparr>) (linux_backend live_tpm sample_env) s w1 = (Fail e, w2) \<and>
     main (linux_platform sample_platform) (echo_lib\<lparr>root_random := Inl (Ext ''no entropy'')\<rparr>)
       (linux_backend live_tpm sample_env) [''kp'', ''certtest''] \<lparr>world = live_lx, printed = [], ticks = 0\<rparr> = (Exited 1, p') \<and>
     storedKeys sample_env (world p') ''k'' \<noteq> None"
proof -
  let ?w = "snd (osVersion_linux live_lx)" and ?cl = "echo_lib\<lparr>root_random := Inl (Ext ''no entropy'')\<rparr>"
    and ?bk = "linux_backend live_tpm sample_env" and ?p = "\<lparr>world = live_lx, printed = [], ticks = 0\<rparr>"
  have "node_at (live_lx\<lparr>tick := 1\<rparr>) ''/proc/sys/kernel/osrelease'' = None"
    by (simp add: node_at_def live_lx_def)
  then have w: "?w = record_view (live_lx\<lparr>tick := 1\<rparr>)"
    using live_lx_ready(2)
    by (simp add: snd_osVersion_linux os_read_file_def os_open_def gbind_def no_faults_syscall fail_def)
      (simp add: live_lx_def sample_lx_def)
  have nf: "no_faults ?w" using live_lx_ready(2) by (simp add: w)
  have nodes: "node_at ?w = node_at live_lx" using inert_osVersion_linux by (rule tree_keptD)
  from returnsD [OF returns_createKey [OF live_tpm_answers live_lx_ready(3)] no_faults_calm [OF nf]] live_lx_ready(4) nodes
  obtain s w1 where c: "createKey live_tpm sample_env ''k'' ?w = (Ret s, w1)" by metis
  have r: "runCertTest ?cl ?bk s w1 = (Fail (Wrapf ''create root certificate: %w'' []
      (Wrapf ''generate serial number: %w'' [] (Ext ''no entropy''))), w1)"
    by (simp add: runCertTest_def createRootCert_def randomSerial_def of_sum_def gbind_def on_err_def fail_def)
  have wf: "os_wf (world ?p)" using live_lx_ready(1) by simp
  have u: "newUUID sample_platform = ''k''" by (simp add: sample_platform_def)
  obtain e p' where m: "main (linux_platform sample_platform) ?cl ?bk [''kp'', ''certtest''] ?p = (e, p')" by fastforce
  from certtest_leaves_key [OF wf, where env = sample_env and pf = sample_platform and lib = live_tpm and cl = ?cl, of "''kp''"] c r m
  have "e = Exited 1" "storedKeys sample_env (world p') ''k'' \<noteq> None" by (simp_all add: u)
  with c r m show ?thesis by blast
qed

end
