(* ===== verification/SignerLock.thy ===== *)
theory SignerLock
  imports LinuxBackend
begin

text \<open>
  \<^verbatim>\<open>tpmSigner\<close> under concurrent use (\<^verbatim>\<open>key_linux.go\<close>: the field \<^verbatim>\<open>mu\<close>, \<^verbatim>\<open>Sign\<close> and \<^verbatim>\<open>Close\<close>).
  Any number of goroutines call \<^verbatim>\<open>Sign\<close> and \<^verbatim>\<open>Close\<close> on one signer. A step of the machine is one
  goroutine's passage from one line that matters to the next: the guards of \<^verbatim>\<open>Sign\<close>, \<^verbatim>\<open>mu.Lock()\<close>, the
  test of \<^verbatim>\<open>s.tpm\<close>, writing a command to the device, reading a response, \<^verbatim>\<open>s.tpm.Close()\<close>,
  \<^verbatim>\<open>s.tpm = nil\<close>, the deferred \<^verbatim>\<open>mu.Unlock()\<close>. The device answers the commands on the wire in
  order and does not know who asked, so a goroutine that reads while another's command is first gets the
  other's response; the machine does not forbid that, the invariant does.
\<close>

section \<open>The machine\<close>

text \<open>\<^verbatim>\<open>Sign\<close> before the lock.\<close>

definition signGuard :: "bytes \<Rightarrow> signer_opts \<Rightarrow> bytes outcome + tpm_alg" where
  "signGuard digest opts =
     (case opts of
        PSSOptions _ \<Rightarrow> Inl (Fail (Errorf ''tpmSigner: RSA-PSS is not supported'' []))
      | NilOpts \<Rightarrow> Inl (Panic ''invalid memory address or nil pointer dereference'')
      | HashOpts h \<Rightarrow>
          (case hashAlg h of
             None \<Rightarrow> Inl (Fail (Errorf ''tpmSigner: unsupported hash %v'' [FInt (hash_number h)]))
           | Some alg \<Rightarrow>
               if length digest \<noteq> hash_size h
               then Inl (Fail (Errorf ''tpmSigner: digest length %d does not match hash %v''
                            [FInt (int (length digest)), FInt (hash_number h)]))
               else Inr alg))"

lemma Sign_guarded:
  "tpmSigner_Sign lib s digest opts w =
     (case signGuard digest opts of Inl r \<Rightarrow> (r, w) | Inr alg \<Rightarrow> signLocked lib s digest alg w)"
  by (simp add: tpmSigner_Sign_def signGuard_def fail_def panic_def split: signer_opts.split option.split)

datatype command = CSign tpm_conn named_handle bytes tpm_alg | CFlush tpm_conn tpm_handle

text \<open>What a goroutine does under the lock.\<close>

datatype locked_call = LSign bytes tpm_alg | LClose

datatype phase =
    CallSign bytes signer_opts
  | CallClose
  | WantLock locked_call
  | Locked locked_call
  | SignWait bytes tpm_alg
  | FlushWait
  | CloseConn tpm_conn
  | CloseNil "unit outcome"
  | Unlocking locked_call "bytes outcome"
  | Refused "bytes outcome"
  | Returned locked_call "bytes outcome"

record 'd machine =
  mu :: "nat option"
  signer :: tpm_signer
  lx_world :: "'d lx"
  wire :: "command list"
  phases :: "nat \<Rightarrow> phase"
  finished :: "(nat \<times> locked_call \<times> bytes outcome) list"

definition goto :: "nat \<Rightarrow> phase \<Rightarrow> 'd machine \<Rightarrow> 'd machine" where
  "goto t ph m = m\<lparr>phases := (phases m)(t := ph)\<rparr>"

text \<open>The device executes the first command on the wire.\<close>

definition respond :: "('d, 'pub, 'priv) gotpm \<Rightarrow> command \<Rightarrow> ('d lx, bytes) go" where
  "respond lib cmd =
     (case cmd of
        CSign c key digest alg \<Rightarrow> tpm_sign lib c key digest (TPMTSigScheme TPMAlgECDSA alg) NullHashCheck
      | CFlush c h \<Rightarrow> gbind (tpm_flush_context lib c h) (\<lambda>_. ret []))"

text \<open>\<^verbatim>\<open>Sign\<close> after the response.\<close>

definition decodeResponse :: "('d, 'pub, 'priv) gotpm \<Rightarrow> bytes outcome \<Rightarrow> bytes outcome" where
  "decodeResponse lib r =
     (case r of
        Fail err \<Rightarrow> Fail (Wrapf ''sign: %w'' [] err)
      | Panic p \<Rightarrow> Panic p
      | Ret rsp \<Rightarrow>
          (case sig_ECDSA lib rsp of
             Inl err \<Rightarrow> Fail (Wrapf ''extract ECDSA signature: %w'' [] err)
           | Inr (x, y) \<Rightarrow> Ret (der_signature (nat_of_bytes x) (nat_of_bytes y))))"

definition unit_bytes :: "unit outcome \<Rightarrow> bytes outcome" where
  "unit_bytes r = (case r of Ret _ \<Rightarrow> Ret [] | Fail e \<Rightarrow> Fail e | Panic p \<Rightarrow> Panic p)"

inductive lock_step :: "('d, 'pub, 'priv) gotpm \<Rightarrow> 'd machine \<Rightarrow> 'd machine \<Rightarrow> bool"
  for lib :: "('d, 'pub, 'priv) gotpm" where
  refuse: "phases m t = CallSign d opts \<Longrightarrow> signGuard d opts = Inl r \<Longrightarrow> lock_step lib m (goto t (Refused r) m)"
| want_sign: "phases m t = CallSign d opts \<Longrightarrow> signGuard d opts = Inr alg \<Longrightarrow> lock_step lib m (goto t (WantLock (LSign d alg)) m)"
| want_close: "phases m t = CallClose \<Longrightarrow> lock_step lib m (goto t (WantLock LClose) m)"
| lock: "phases m t = WantLock c \<Longrightarrow> mu m = None \<Longrightarrow> lock_step lib m (goto t (Locked c) (m\<lparr>mu := Some t\<rparr>))"
| sign_closed: "phases m t = Locked (LSign d alg) \<Longrightarrow> sg_tpm (signer m) = None \<Longrightarrow>
    lock_step lib m (goto t (Unlocking (LSign d alg) (Fail (Errorf ''tpmSigner: signer is closed'' []))) m)"
| sign_send: "phases m t = Locked (LSign d alg) \<Longrightarrow> sg_tpm (signer m) = Some c \<Longrightarrow>
    lock_step lib m (goto t (SignWait d alg)
      (m\<lparr>wire := wire m @ [CSign c \<lparr>nh_handle = sg_handle (signer m), nh_name = sg_name (signer m)\<rparr> d alg]\<rparr>))"
| sign_receive: "phases m t = SignWait d alg \<Longrightarrow> wire m = cmd # cmds \<Longrightarrow> respond lib cmd (lx_world m) = (r, w') \<Longrightarrow>
    lock_step lib m (goto t (Unlocking (LSign d alg) (decodeResponse lib r)) (m\<lparr>wire := cmds, lx_world := w'\<rparr>))"
| close_closed: "phases m t = Locked LClose \<Longrightarrow> sg_tpm (signer m) = None \<Longrightarrow>
    lock_step lib m (goto t (Unlocking LClose (Ret [])) m)"
| close_flush: "phases m t = Locked LClose \<Longrightarrow> sg_tpm (signer m) = Some c \<Longrightarrow> sg_handle (signer m) \<noteq> 0 \<Longrightarrow>
    lock_step lib m (goto t FlushWait (m\<lparr>wire := wire m @ [CFlush c (sg_handle (signer m))]\<rparr>))"
| close_no_flush: "phases m t = Locked LClose \<Longrightarrow> sg_tpm (signer m) = Some c \<Longrightarrow> sg_handle (signer m) = 0 \<Longrightarrow>
    lock_step lib m (goto t (CloseConn c) m)"
| flush_receive: "phases m t = FlushWait \<Longrightarrow> wire m = cmd # cmds \<Longrightarrow> respond lib cmd (lx_world m) = (r, w') \<Longrightarrow>
    sg_tpm (signer m) = Some c \<Longrightarrow>
    lock_step lib m (goto t (CloseConn c) (m\<lparr>wire := cmds, lx_world := w'\<rparr>))"
| close_conn: "phases m t = CloseConn c \<Longrightarrow> tpm_close_conn lib c (lx_world m) = (r, w') \<Longrightarrow>
    lock_step lib m (goto t (CloseNil r) (m\<lparr>signer := (signer m)\<lparr>sg_handle := 0\<rparr>, lx_world := w'\<rparr>))"
| close_nil: "phases m t = CloseNil r \<Longrightarrow>
    lock_step lib m (goto t (Unlocking LClose (unit_bytes r)) (m\<lparr>signer := (signer m)\<lparr>sg_tpm := None\<rparr>\<rparr>))"
| unlock: "phases m t = Unlocking c r \<Longrightarrow>
    lock_step lib m (goto t (Returned c r) (m\<lparr>mu := None, finished := finished m @ [(t, c, r)]\<rparr>))"

text \<open>Goroutine \<open>t\<close> is about to make the call \<open>calls t\<close>.\<close>

definition start :: "tpm_signer \<Rightarrow> 'd lx \<Rightarrow> (nat \<Rightarrow> phase) \<Rightarrow> 'd machine" where
  "start s w calls = \<lparr>mu = None, signer = s, lx_world = w, wire = [], phases = calls, finished = []\<rparr>"

fun is_call :: "phase \<Rightarrow> bool" where
  "is_call (CallSign d opts) = True"
| "is_call CallClose = True"
| "is_call ph = False"

text \<open>The sequential specification: one call after another, each as \<^verbatim>\<open>signLocked\<close> and \<^verbatim>\<open>Close\<close> define it.\<close>

definition run_locked :: "('d, 'pub, 'priv) gotpm \<Rightarrow> locked_call \<Rightarrow> tpm_signer \<times> 'd lx \<Rightarrow> bytes outcome \<times> tpm_signer \<times> 'd lx" where
  "run_locked lib c sw =
     (case c of
        LSign d alg \<Rightarrow> (case signLocked lib (fst sw) d alg (snd sw) of (r, w') \<Rightarrow> (r, fst sw, w'))
      | LClose \<Rightarrow> (case tpmSigner_Close lib sw of (r, sw') \<Rightarrow> (unit_bytes r, sw')))"

text \<open>\<open>None\<close> when a recorded result is not the one of the sequential run.\<close>

fun replay_calls :: "('d, 'pub, 'priv) gotpm \<Rightarrow> (nat \<times> locked_call \<times> bytes outcome) list \<Rightarrow> tpm_signer \<times> 'd lx
    \<Rightarrow> (tpm_signer \<times> 'd lx) option" where
  "replay_calls lib [] sw = Some sw"
| "replay_calls lib ((t, c, r) # cs) sw =
     (case run_locked lib c sw of (r', sw') \<Rightarrow> if r' = r then replay_calls lib cs sw' else None)"

lemma replay_calls_append:
  "replay_calls lib (xs @ ys) sw = (case replay_calls lib xs sw of None \<Rightarrow> None | Some sw' \<Rightarrow> replay_calls lib ys sw')"
  by (induction lib xs sw rule: replay_calls.induct) (auto split: prod.split)

section \<open>The invariant\<close>

fun holds_lock :: "phase \<Rightarrow> bool" where
  "holds_lock (CallSign d opts) = False"
| "holds_lock CallClose = False"
| "holds_lock (WantLock c) = False"
| "holds_lock (Refused r) = False"
| "holds_lock (Returned c r) = False"
| "holds_lock ph = True"

text \<open>
  Where the holder of the lock is in its call, when the calls before it have led to \<open>(s, w)\<close>: what is
  on the wire, what the signer and the world are.
\<close>

fun midway :: "('d, 'pub, 'priv) gotpm \<Rightarrow> tpm_signer \<times> 'd lx \<Rightarrow> phase \<Rightarrow> command list \<Rightarrow> tpm_signer \<Rightarrow> 'd lx \<Rightarrow> bool" where
  "midway lib (s, w) (Locked c) cmds s' w' \<longleftrightarrow> cmds = [] \<and> s' = s \<and> w' = w"
| "midway lib (s, w) (SignWait d alg) cmds s' w' \<longleftrightarrow> (\<exists>c. sg_tpm s = Some c \<and>
     cmds = [CSign c \<lparr>nh_handle = sg_handle s, nh_name = sg_name s\<rparr> d alg]) \<and> s' = s \<and> w' = w"
| "midway lib (s, w) FlushWait cmds s' w' \<longleftrightarrow> (\<exists>c. sg_tpm s = Some c \<and> sg_handle s \<noteq> 0 \<and>
     cmds = [CFlush c (sg_handle s)]) \<and> s' = s \<and> w' = w"
| "midway lib (s, w) (CloseConn c) cmds s' w' \<longleftrightarrow> cmds = [] \<and> sg_tpm s = Some c \<and> s' = s \<and>
     w' = snd (flush lib c (sg_handle s) w)"
| "midway lib (s, w) (CloseNil r) cmds s' w' \<longleftrightarrow> cmds = [] \<and> (\<exists>c. sg_tpm s = Some c \<and> s' = s\<lparr>sg_handle := 0\<rparr> \<and>
     tpm_close_conn lib c (snd (flush lib c (sg_handle s) w)) = (r, w'))"
| "midway lib (s, w) (Unlocking c r) cmds s' w' \<longleftrightarrow> cmds = [] \<and> run_locked lib c (s, w) = (r, s', w')"
| "midway lib sw ph cmds s' w' \<longleftrightarrow> False"

definition lock_inv :: "('d, 'pub, 'priv) gotpm \<Rightarrow> tpm_signer \<times> 'd lx \<Rightarrow> 'd machine \<Rightarrow> bool" where
  "lock_inv lib sw0 m \<longleftrightarrow>
     (\<exists>sw. replay_calls lib (finished m) sw0 = Some sw \<and>
       (case mu m of
          None \<Rightarrow> (\<forall>t. \<not> holds_lock (phases m t)) \<and> wire m = [] \<and> sw = (signer m, lx_world m)
        | Some t \<Rightarrow> (\<forall>u. holds_lock (phases m u) \<longleftrightarrow> u = t) \<and> midway lib sw (phases m t) (wire m) (signer m) (lx_world m))) \<and>
     (\<forall>t c r. phases m t = Returned c r \<longrightarrow> (t, c, r) \<in> set (finished m))"

lemma goto_fields [simp]:
  "phases (goto t ph m) = (phases m)(t := ph)" "mu (goto t ph m) = mu m" "signer (goto t ph m) = signer m"
  "lx_world (goto t ph m) = lx_world m" "wire (goto t ph m) = wire m" "finished (goto t ph m) = finished m"
  by (simp_all add: goto_def)

lemma start_inv: "(\<And>t. is_call (calls t)) \<Longrightarrow> lock_inv lib (s, w) (start s w calls)"
proof -
  assume c: "\<And>t. is_call (calls t)"
  have "\<not> holds_lock (calls t)" "calls t \<noteq> Returned c r" for t c r
    using c [of t] by (cases "calls t"; simp)+
  then show ?thesis by (simp add: lock_inv_def start_def)
qed

lemma holder_unique:
  assumes "lock_inv lib sw0 m" and "holds_lock (phases m t)"
  shows "mu m = Some t"
  using assms by (auto simp: lock_inv_def split: option.splits)

text \<open>A step outside the lock.\<close>

lemma outside_inv:
  assumes "lock_inv lib sw0 m" and "\<not> holds_lock (phases m t)" and "\<not> holds_lock ph" and "\<And>c r. ph \<noteq> Returned c r"
  shows "lock_inv lib sw0 (goto t ph m)"
proof (cases "mu m")
  case None
  with assms show ?thesis by (auto simp: lock_inv_def)
next
  case (Some u)
  with assms(1,2) have "u \<noteq> t" by (auto simp: lock_inv_def)
  with Some assms show ?thesis by (auto simp: lock_inv_def)
qed

text \<open>A step of the holder that keeps the lock.\<close>

lemma inside_inv:
  assumes inv: "lock_inv lib sw0 m" and t: "holds_lock (phases m t)" and ph: "holds_lock ph"
    and same: "mu m' = mu m" "finished m' = finished m" "phases m' = phases m"
    and mid: "\<And>s w. midway lib (s, w) (phases m t) (wire m) (signer m) (lx_world m) \<Longrightarrow>
      midway lib (s, w) ph (wire m') (signer m') (lx_world m')"
  shows "lock_inv lib sw0 (goto t ph m')"
proof -
  have m: "mu m = Some t" by (rule holder_unique [OF inv t])
  with inv obtain s w where sw: "replay_calls lib (finished m) sw0 = Some (s, w)"
    "midway lib (s, w) (phases m t) (wire m) (signer m) (lx_world m)" "\<And>u. holds_lock (phases m u) \<longleftrightarrow> u = t"
    by (auto simp: lock_inv_def)
  have "\<forall>u c r. ((phases m)(t := ph)) u = Returned c r \<longrightarrow> (u, c, r) \<in> set (finished m)"
    using inv ph by (auto simp: lock_inv_def)
  with sw(1,3) mid [OF sw(2)] ph m show ?thesis
    unfolding lock_inv_def by (auto simp: same)
qed

lemma acquire_inv:
  assumes "lock_inv lib sw0 m" and "phases m t = WantLock c" and "mu m = None"
  shows "lock_inv lib sw0 (goto t (Locked c) (m\<lparr>mu := Some t\<rparr>))"
  using assms by (auto simp: lock_inv_def)

lemma release_inv:
  assumes inv: "lock_inv lib sw0 m" and t: "phases m t = Unlocking c r"
  shows "lock_inv lib sw0 (goto t (Returned c r) (m\<lparr>mu := None, finished := finished m @ [(t, c, r)]\<rparr>))"
proof -
  have m: "mu m = Some t" by (rule holder_unique [OF inv]) (simp add: t)
  with inv t obtain s w where sw: "replay_calls lib (finished m) sw0 = Some (s, w)"
    "midway lib (s, w) (Unlocking c r) (wire m) (signer m) (lx_world m)" "\<And>u. holds_lock (phases m u) \<longleftrightarrow> u = t"
    by (auto simp: lock_inv_def)
  with inv show ?thesis by (auto simp: lock_inv_def replay_calls_append)
qed

section \<open>Every step keeps it\<close>

lemma signLocked_steps:
  assumes "sg_tpm s = Some c"
    and "respond lib (CSign c \<lparr>nh_handle = sg_handle s, nh_name = sg_name s\<rparr> d alg) w = (r, w')"
  shows "signLocked lib s d alg w = (decodeResponse lib r, w')"
proof -
  have t: "tpm_sign lib c \<lparr>nh_handle = sg_handle s, nh_name = sg_name s\<rparr> d (TPMTSigScheme TPMAlgECDSA alg) NullHashCheck w = (r, w')"
    using assms(2) by (simp add: respond_def)
  show ?thesis
    by (cases r) (simp_all add: signLocked_def assms(1) decodeResponse_def t go_defs split: sum.split)
qed

lemma flush_steps:
  assumes "h \<noteq> 0" and "respond lib (CFlush c h) w = (r, w')"
  shows "snd (flush lib c h w) = w'"
  using assms by (auto simp: respond_def flush_def ignore_def gbind_def ret_def split: prod.splits outcome.splits)

lemma lock_step_inv:
  assumes "lock_step lib m m'" and inv: "lock_inv lib sw0 m"
  shows "lock_inv lib sw0 m'"
  using assms(1)
proof cases
  case (refuse t d opts r)
  then show ?thesis using inv by (auto intro: outside_inv)
next
  case (want_sign t d opts alg)
  then show ?thesis using inv by (auto intro: outside_inv)
next
  case (want_close t)
  then show ?thesis using inv by (auto intro: outside_inv)
next
  case (lock t c)
  then show ?thesis using inv by (auto intro: acquire_inv)
next
  case (sign_closed t d alg)
  show ?thesis unfolding sign_closed(1)
    by (rule inside_inv [OF inv]) (auto simp: sign_closed(2,3) run_locked_def signLocked_def fail_def)
next
  case (sign_send t d alg c)
  show ?thesis unfolding sign_send(1)
    by (rule inside_inv [OF inv]) (use sign_send(2,3) in auto)
next
  case (sign_receive t d alg cmd cmds r w')
  show ?thesis unfolding sign_receive(1)
    by (rule inside_inv [OF inv])
      (use sign_receive(2-) in \<open>auto simp: run_locked_def dest: signLocked_steps\<close>)
next
  case (close_closed t)
  show ?thesis unfolding close_closed(1)
    by (rule inside_inv [OF inv]) (auto simp: close_closed(2,3) run_locked_def tpmSigner_Close_def unit_bytes_def)
next
  case (close_flush t c)
  show ?thesis unfolding close_flush(1)
    by (rule inside_inv [OF inv]) (use close_flush(2-) in auto)
next
  case (close_no_flush t c)
  show ?thesis unfolding close_no_flush(1)
    by (rule inside_inv [OF inv]) (use close_no_flush(2-) in \<open>auto simp: flush_def ret_def\<close>)
next
  case (flush_receive t cmd cmds r w' c)
  show ?thesis unfolding flush_receive(1)
    by (rule inside_inv [OF inv]) (use flush_receive(2-) in \<open>auto dest: flush_steps\<close>)
next
  case (close_conn t c r w')
  show ?thesis unfolding close_conn(1)
    by (rule inside_inv [OF inv]) (use close_conn(2-) in auto)
next
  case (close_nil t r)
  show ?thesis unfolding close_nil(1)
    by (rule inside_inv [OF inv])
      (use close_nil(2-) in \<open>auto simp: run_locked_def tpmSigner_Close_def Let_def unit_bytes_def\<close>)
next
  case (unlock t c r)
  then show ?thesis using inv by (auto intro: release_inv)
qed

lemma lock_run_inv: "(lock_step lib)\<^sup>*\<^sup>* m m' \<Longrightarrow> lock_inv lib sw0 m \<Longrightarrow> lock_inv lib sw0 m'"
  by (induction rule: rtranclp_induct) (auto intro: lock_step_inv)

text \<open>Where a goroutine is, seen from the call it started with.\<close>

fun belongs :: "phase \<Rightarrow> phase \<Rightarrow> bool" where
  "belongs (CallSign d opts) ph \<longleftrightarrow>
     (case signGuard d opts of
        Inl r \<Rightarrow> ph \<in> {CallSign d opts, Refused r}
      | Inr alg \<Rightarrow>
          (case ph of
             WantLock c \<Rightarrow> c = LSign d alg
           | Locked c \<Rightarrow> c = LSign d alg
           | SignWait d' alg' \<Rightarrow> d' = d \<and> alg' = alg
           | Unlocking c r \<Rightarrow> c = LSign d alg
           | Returned c r \<Rightarrow> c = LSign d alg
           | _ \<Rightarrow> ph = CallSign d opts))"
| "belongs CallClose ph \<longleftrightarrow>
     (case ph of
        WantLock c \<Rightarrow> c = LClose
      | Locked c \<Rightarrow> c = LClose
      | Unlocking c r \<Rightarrow> c = LClose
      | Returned c r \<Rightarrow> c = LClose
      | FlushWait \<Rightarrow> True
      | CloseConn c \<Rightarrow> True
      | CloseNil r \<Rightarrow> True
      | _ \<Rightarrow> ph = CallClose)"
| "belongs ph0 ph \<longleftrightarrow> False"

lemma lock_step_belongs:
  assumes "lock_step lib m m'" and "\<And>t. is_call (calls t)" and "\<And>t. belongs (calls t) (phases m t)"
  shows "belongs (calls u) (phases m' u)"
proof -
  have call: "(\<exists>d opts. calls u = CallSign d opts) \<or> calls u = CallClose"
    using assms(2) [of u] by (cases "calls u") auto
  have b: "belongs (calls u) (phases m u)" by (rule assms(3))
  show ?thesis using assms(1) call b
    by (cases rule: lock_step.cases) (auto split: sum.splits if_splits)
qed

lemma start_belongs: "(\<And>t. is_call (calls t)) \<Longrightarrow> belongs (calls t) (phases (start s w calls) t)"
proof -
  assume "\<And>t. is_call (calls t)"
  then have "is_call (calls t)" .
  then show ?thesis by (cases "calls t") (auto simp: start_def split: sum.split)
qed

lemma lock_run_belongs:
  assumes "(lock_step lib)\<^sup>*\<^sup>* (start s w calls) m" and "\<And>t. is_call (calls t)"
  shows "belongs (calls t) (phases m t)"
  using assms(1)
proof (induction arbitrary: t rule: rtranclp_induct)
  case base
  show ?case by (rule start_belongs [OF assms(2)])
next
  case (step m m')
  show ?case by (rule lock_step_belongs [OF step(2) assms(2) step(3)])
qed

section \<open>Properties\<close>

text \<open>
  C38: concurrent calls behave as if they were made one after another. Every interleaving has a
  sequential order of the calls that got the lock, in which each returns what \<^verbatim>\<open>Sign\<close> or \<^verbatim>\<open>Close\<close> run
  alone returns there, and which ends in the signer and the device as they are; a call refused before the
  lock returns what \<^verbatim>\<open>Sign\<close> returns on any signer.
\<close>

theorem concurrent_calls_linearize:
  assumes "(lock_step lib)\<^sup>*\<^sup>* (start s w calls) m" and "\<And>t. is_call (calls t)"
  shows "(case replay_calls lib (finished m) (s, w) of
       None \<Rightarrow> False
     | Some sw \<Rightarrow> mu m \<noteq> None \<or> sw = (signer m, lx_world m)) \<and>
   (\<forall>t. case phases m t of
      Returned (LSign d alg) r \<Rightarrow> (t, LSign d alg, r) \<in> set (finished m) \<and>
        (\<exists>opts. calls t = CallSign d opts \<and> (\<forall>s' w'. tpmSigner_Sign lib s' d opts w' = signLocked lib s' d alg w'))
    | Returned LClose r \<Rightarrow> (t, LClose, r) \<in> set (finished m) \<and> calls t = CallClose
    | Refused r \<Rightarrow> (\<exists>d opts. calls t = CallSign d opts \<and> (\<forall>s' w'. tpmSigner_Sign lib s' d opts w' = (r, w')))
    | _ \<Rightarrow> True)"
proof (rule conjI)
  have inv: "lock_inv lib (s, w) m" by (rule lock_run_inv [OF assms(1) start_inv [OF assms(2)]])
  then show "case replay_calls lib (finished m) (s, w) of None \<Rightarrow> False
      | Some sw \<Rightarrow> mu m \<noteq> None \<or> sw = (signer m, lx_world m)"
    by (auto simp: lock_inv_def split: option.splits)
  have "(case phases m t of
      Returned (LSign d alg) r \<Rightarrow> (t, LSign d alg, r) \<in> set (finished m) \<and>
        (\<exists>opts. calls t = CallSign d opts \<and> (\<forall>s' w'. tpmSigner_Sign lib s' d opts w' = signLocked lib s' d alg w'))
    | Returned LClose r \<Rightarrow> (t, LClose, r) \<in> set (finished m) \<and> calls t = CallClose
    | Refused r \<Rightarrow> (\<exists>d opts. calls t = CallSign d opts \<and> (\<forall>s' w'. tpmSigner_Sign lib s' d opts w' = (r, w')))
    | _ \<Rightarrow> True)" for t
  proof -
    have b: "belongs (calls t) (phases m t)" by (rule lock_run_belongs [OF assms])
    have "(\<exists>d opts. calls t = CallSign d opts) \<or> calls t = CallClose"
      using assms(2) [of t] by (cases "calls t") auto
    with b inv show ?thesis
      by (auto simp: Sign_guarded lock_inv_def split: phase.splits locked_call.splits sum.splits)
  qed
  then show "\<forall>t. case phases m t of
      Returned (LSign d alg) r \<Rightarrow> (t, LSign d alg, r) \<in> set (finished m) \<and>
        (\<exists>opts. calls t = CallSign d opts \<and> (\<forall>s' w'. tpmSigner_Sign lib s' d opts w' = signLocked lib s' d alg w'))
    | Returned LClose r \<Rightarrow> (t, LClose, r) \<in> set (finished m) \<and> calls t = CallClose
    | Refused r \<Rightarrow> (\<exists>d opts. calls t = CallSign d opts \<and> (\<forall>s' w'. tpmSigner_Sign lib s' d opts w' = (r, w')))
    | _ \<Rightarrow> True" by blast
qed

text \<open>
  Commands and responses of different calls are never mixed: at most one goroutine is inside
  \<^verbatim>\<open>Sign\<close> or \<^verbatim>\<open>Close\<close>, the wire carries at most one command, and a goroutine that waits for a
  response finds its own command there, sent to the connection that is still open.
\<close>

lemma wire_exclusive:
  assumes "(lock_step lib)\<^sup>*\<^sup>* (start s w calls) m" and "\<And>t. is_call (calls t)"
  shows "length (wire m) \<le> 1 \<and> (\<forall>t. holds_lock (phases m t) \<longleftrightarrow> mu m = Some t) \<and>
    (\<forall>t. case phases m t of
       SignWait d alg \<Rightarrow> (\<exists>c. sg_tpm (signer m) = Some c \<and>
         wire m = [CSign c \<lparr>nh_handle = sg_handle (signer m), nh_name = sg_name (signer m)\<rparr> d alg])
     | FlushWait \<Rightarrow> (\<exists>c. sg_tpm (signer m) = Some c \<and> wire m = [CFlush c (sg_handle (signer m))])
     | _ \<Rightarrow> wire m = [] \<or> mu m \<noteq> Some t)"
proof -
  have inv: "lock_inv lib (s, w) m" by (rule lock_run_inv [OF assms(1) start_inv [OF assms(2)]])
  show ?thesis
  proof (cases "mu m")
    case None
    with inv have n: "wire m = []" "\<And>t. \<not> holds_lock (phases m t)" by (auto simp: lock_inv_def)
    have "phases m t \<noteq> SignWait d alg" "phases m t \<noteq> FlushWait" for t d alg using n(2) [of t] by auto
    with n None show ?thesis by (auto split: phase.split)
  next
    case (Some t)
    with inv obtain s1 w1 where mid: "midway lib (s1, w1) (phases m t) (wire m) (signer m) (lx_world m)"
      and h: "\<And>u. holds_lock (phases m u) \<longleftrightarrow> u = t" by (auto simp: lock_inv_def)
    have other: "u = t" if "phases m u = SignWait d alg \<or> phases m u = FlushWait" for u d alg
      using h [of u] that by auto
    have "length (wire m) \<le> 1" using mid by (cases "phases m t") auto
    moreover have "case phases m u of
       SignWait d alg \<Rightarrow> (\<exists>c. sg_tpm (signer m) = Some c \<and>
         wire m = [CSign c \<lparr>nh_handle = sg_handle (signer m), nh_name = sg_name (signer m)\<rparr> d alg])
     | FlushWait \<Rightarrow> (\<exists>c. sg_tpm (signer m) = Some c \<and> wire m = [CFlush c (sg_handle (signer m))])
     | _ \<Rightarrow> wire m = [] \<or> mu m \<noteq> Some u" for u
    proof (cases "u = t")
      case True
      with mid show ?thesis by (cases "phases m t") auto
    next
      case False
      with Some other show ?thesis by (cases "phases m u") auto
    qed
    ultimately show ?thesis using h Some by auto
  qed
qed

text \<open>What a run of calls does to the ledger.\<close>

lemma run_locked_moves:
  assumes "run_locked lib c (s, w) = (r, s', w')"
  shows "\<exists>es. ledger_log w' = ledger_log w @ es \<and> (\<forall>F. run_log (signer_res s + F) es = Some (signer_res s' + F))"
proof (cases c)
  case (LSign d alg)
  with assms have "signLocked lib s d alg w = (r, w')" "s' = s" by (auto simp: run_locked_def split: prod.splits)
  then show ?thesis using movesD [OF moves_signLocked] by metis
next
  case LClose
  with assms obtain u where c: "tpmSigner_Close lib (s, w) = (u, s', w')" by (auto simp: run_locked_def split: prod.splits)
  from movesD [OF moves_Close c] obtain es where
    "ledger_log w' = ledger_log w @ es" "\<And>F. run_log (signer_res s + F) es = Some ({#} + F)" by auto
  moreover have "signer_res s' = {#}" using tpmSigner_Close_closed [OF c] by (simp add: signer_res_def)
  ultimately show ?thesis by auto
qed

lemma replay_calls_moves:
  "replay_calls lib cs (s, w) = Some (s', w') \<Longrightarrow>
   \<exists>es. ledger_log w' = ledger_log w @ es \<and> (\<forall>F. run_log (signer_res s + F) es = Some (signer_res s' + F))"
proof (induction cs arbitrary: s w)
  case (Cons x cs)
  obtain t c r where x: "x = (t, c, r)" by (metis prod.exhaust)
  obtain r1 s1 w1 where r1: "run_locked lib c (s, w) = (r1, s1, w1)" by (metis prod.exhaust)
  with Cons.prems x have "replay_calls lib cs (s1, w1) = Some (s', w')" by (simp split: if_splits)
  from Cons.IH [OF this] run_locked_moves [OF r1] obtain es es2 where
    "ledger_log w1 = ledger_log w @ es" "\<forall>F. run_log (signer_res s + F) es = Some (signer_res s1 + F)"
    "ledger_log w' = ledger_log w1 @ es2" "\<forall>F. run_log (signer_res s1 + F) es2 = Some (signer_res s' + F)" by blast
  then show ?case by (intro exI [of _ "es @ es2"]) (simp add: run_log_append)
qed auto

lemma replay_calls_closed:
  assumes "replay_calls lib cs (s, w) = Some sw" and "sg_tpm s = None"
  shows "sg_tpm (fst sw) = None \<and>
    (\<forall>(t, c, r) \<in> set cs. c \<noteq> LClose \<longrightarrow> r = Fail (Errorf ''tpmSigner: signer is closed'' []))"
  using assms
proof (induction cs arbitrary: s w)
  case (Cons x cs)
  obtain t c r where x: "x = (t, c, r)" by (metis prod.exhaust)
  have "\<exists>r'. run_locked lib c (s, w) = (r', s, w) \<and> (c \<noteq> LClose \<longrightarrow> r' = Fail (Errorf ''tpmSigner: signer is closed'' []))"
    using Cons.prems(2) by (cases c) (simp_all add: run_locked_def signLocked_def tpmSigner_Close_def fail_def)
  then obtain r' where "run_locked lib c (s, w) = (r', s, w)"
    "c \<noteq> LClose \<longrightarrow> r' = Fail (Errorf ''tpmSigner: signer is closed'' [])" by blast
  with Cons x show ?case by (auto split: if_splits)
qed auto

text \<open>
  However the calls interleave, the connection and the key's object are released once and not used
  afterwards: whenever nobody holds the lock, exactly what the signer still owns is held. Once a
  \<^verbatim>\<open>Close\<close> has finished that is nothing, and every \<^verbatim>\<open>Sign\<close> that finishes after it
  reports that the signer is closed.
\<close>

lemma concurrent_close:
  assumes "(lock_step lib)\<^sup>*\<^sup>* (start s w calls) m" and "\<And>t. is_call (calls t)"
  shows "(mu m = None \<longrightarrow> replays ledger_log w (lx_world m) (signer_res s + F) (signer_res (signer m) + F)) \<and>
    (\<forall>before t r after. finished m = before @ (t, LClose, r) # after \<longrightarrow>
       (mu m = None \<longrightarrow> signer_res (signer m) = {#}) \<and>
       (\<forall>(u, c, r') \<in> set after. c \<noteq> LClose \<longrightarrow> r' = Fail (Errorf ''tpmSigner: signer is closed'' [])))"
proof -
  have inv: "lock_inv lib (s, w) m" by (rule lock_run_inv [OF assms(1) start_inv [OF assms(2)]])
  then obtain sw where r: "replay_calls lib (finished m) (s, w) = Some sw" and
    c: "case mu m of None \<Rightarrow> (\<forall>t. \<not> holds_lock (phases m t)) \<and> wire m = [] \<and> sw = (signer m, lx_world m)
      | Some t \<Rightarrow> (\<forall>u. holds_lock (phases m u) \<longleftrightarrow> u = t) \<and> midway lib sw (phases m t) (wire m) (signer m) (lx_world m)"
    unfolding lock_inv_def by blast
  have sw: "replay_calls lib (finished m) (s, w) = Some sw" "mu m = None \<Longrightarrow> sw = (signer m, lx_world m)"
    using r c by simp_all
  have "replays ledger_log w (lx_world m) (signer_res s + F) (signer_res (signer m) + F)" if "mu m = None"
    using replay_calls_moves [of lib "finished m" s w "signer m" "lx_world m"] sw that by auto
  moreover have "(mu m = None \<longrightarrow> signer_res (signer m) = {#}) \<and>
      (\<forall>(u, c, r') \<in> set after. c \<noteq> LClose \<longrightarrow> r' = Fail (Errorf ''tpmSigner: signer is closed'' []))"
    if f: "finished m = before @ (t, LClose, r) # after" for before t r after
  proof -
    from sw(1) f obtain s1 w1 r2 s2 w2 where "run_locked lib LClose (s1, w1) = (r2, s2, w2)"
      and after: "replay_calls lib after (s2, w2) = Some sw"
      by (auto simp: replay_calls_append split: option.splits prod.splits if_splits)
    then have "sg_tpm s2 = None"
      by (auto simp: run_locked_def split: prod.splits dest: tpmSigner_Close_closed)
    from replay_calls_closed [OF after this] sw(2) show ?thesis by (auto simp: signer_res_def)
  qed
  ultimately show ?thesis by blast
qed

text \<open>How many steps a goroutine has left, at most.\<close>

fun steps_left :: "phase \<Rightarrow> nat" where
  "steps_left (CallSign d opts) = 7"
| "steps_left CallClose = 7"
| "steps_left (WantLock c) = 6"
| "steps_left (Locked c) = 5"
| "steps_left (SignWait d alg) = 4"
| "steps_left FlushWait = 4"
| "steps_left (CloseConn c) = 3"
| "steps_left (CloseNil r) = 2"
| "steps_left (Unlocking c r) = 1"
| "steps_left (Refused r) = 0"
| "steps_left (Returned c r) = 0"

text \<open>Goroutine \<open>u\<close> makes a step.\<close>

definition moves_on :: "('d, 'pub, 'priv) gotpm \<Rightarrow> 'd machine \<Rightarrow> nat \<Rightarrow> 'd machine \<Rightarrow> bool" where
  "moves_on lib m u m' \<longleftrightarrow> lock_step lib m m' \<and> steps_left (phases m' u) < steps_left (phases m u) \<and>
     (\<forall>v. v \<noteq> u \<longrightarrow> phases m' v = phases m v)"

lemma moves_onI: "lock_step lib m m' \<Longrightarrow> phases m' = (phases m)(u := ph) \<Longrightarrow> steps_left ph < steps_left (phases m u) \<Longrightarrow>
    moves_on lib m u m'"
  by (simp add: moves_on_def)

lemma holder_moves:
  assumes "midway lib (s1, w1) (phases m u) (wire m) (signer m) (lx_world m)"
  shows "\<exists>m'. moves_on lib m u m'"
proof (cases "phases m u")
  case (Locked c)
  show ?thesis
  proof (cases c)
    case (LSign d alg)
    note ph = Locked [unfolded LSign]
    show ?thesis
    proof (cases "sg_tpm (signer m)")
      case None
      show ?thesis by (rule exI, rule moves_onI [OF sign_closed [OF ph None]], simp, simp add: ph)
    next
      case (Some conn)
      show ?thesis by (rule exI, rule moves_onI [OF sign_send [OF ph Some]], simp, simp add: ph)
    qed
  next
    case LClose
    note ph = Locked [unfolded LClose]
    show ?thesis
    proof (cases "sg_tpm (signer m)")
      case None
      show ?thesis by (rule exI, rule moves_onI [OF close_closed [OF ph None]], simp, simp add: ph)
    next
      case (Some conn)
      show ?thesis
      proof (cases "sg_handle (signer m) = 0")
        case True
        show ?thesis by (rule exI, rule moves_onI [OF close_no_flush [OF ph Some True]], simp, simp add: ph)
      next
        case False
        show ?thesis by (rule exI, rule moves_onI [OF close_flush [OF ph Some False]], simp, simp add: ph)
      qed
    qed
  qed
next
  case (SignWait d alg)
  with assms obtain cmd where c: "wire m = [cmd]" by auto
  obtain r w' where r: "respond lib cmd (lx_world m) = (r, w')" by fastforce
  show ?thesis by (rule exI, rule moves_onI [OF sign_receive [OF SignWait c r]], simp, simp add: SignWait)
next
  case FlushWait
  with assms obtain cmd c where c: "wire m = [cmd]" "sg_tpm (signer m) = Some c" by auto
  obtain r w' where r: "respond lib cmd (lx_world m) = (r, w')" by fastforce
  show ?thesis by (rule exI, rule moves_onI [OF flush_receive [OF FlushWait c(1) r c(2)]], simp, simp add: FlushWait)
next
  case (CloseConn c)
  obtain r w' where r: "tpm_close_conn lib c (lx_world m) = (r, w')" by fastforce
  show ?thesis by (rule exI, rule moves_onI [OF close_conn [OF CloseConn r]], simp, simp add: CloseConn)
next
  case (CloseNil r)
  show ?thesis by (rule exI, rule moves_onI [OF close_nil [OF CloseNil]], simp, simp add: CloseNil)
next
  case (Unlocking c r)
  show ?thesis by (rule exI, rule moves_onI [OF unlock [OF Unlocking]], simp, simp add: Unlocking)
qed (use assms in simp_all)

text \<open>
  C39: commands and responses of different calls are never mixed: at most one goroutine is inside
  \<^verbatim>\<open>Sign\<close> or \<^verbatim>\<open>Close\<close>, the wire carries at most one command, and a goroutine that waits for a
  response finds its own command there, sent to the connection that is still open. And however the calls
  interleave, connection and key object are released once and not used afterwards: whenever nobody holds the
  lock, exactly what the signer still owns is held; once a \<^verbatim>\<open>Close\<close> has finished that is nothing, and every
  \<^verbatim>\<open>Sign\<close> that finishes after it reports that the signer is closed.
\<close>

theorem concurrent_use_safe:
  assumes "(lock_step lib)\<^sup>*\<^sup>* (start s w calls) m" and "\<And>t. is_call (calls t)"
  shows "length (wire m) \<le> 1 \<and> (\<forall>t. holds_lock (phases m t) \<longleftrightarrow> mu m = Some t) \<and>
    (\<forall>t. case phases m t of
       SignWait d alg \<Rightarrow> (\<exists>c. sg_tpm (signer m) = Some c \<and>
         wire m = [CSign c \<lparr>nh_handle = sg_handle (signer m), nh_name = sg_name (signer m)\<rparr> d alg])
     | FlushWait \<Rightarrow> (\<exists>c. sg_tpm (signer m) = Some c \<and> wire m = [CFlush c (sg_handle (signer m))])
     | _ \<Rightarrow> wire m = [] \<or> mu m \<noteq> Some t) \<and>
    (mu m = None \<longrightarrow> replays ledger_log w (lx_world m) (signer_res s + F) (signer_res (signer m) + F)) \<and>
    (\<forall>before t r after. finished m = before @ (t, LClose, r) # after \<longrightarrow>
       (mu m = None \<longrightarrow> signer_res (signer m) = {#}) \<and>
       (\<forall>(u, c, r') \<in> set after. c \<noteq> LClose \<longrightarrow> r' = Fail (Errorf ''tpmSigner: signer is closed'' [])))"
  using conjI [OF wire_exclusive [OF assms] concurrent_close [OF assms, of F]] unfolding conj_assoc .


section \<open>A run\<close>

text \<open>A goroutine that finds the lock free makes its call without interruption.\<close>

lemma run_sign:
  assumes "phases m t = WantLock (LSign d alg)" and "mu m = None" and "wire m = []" and c: "sg_tpm (signer m) = Some c"
  shows "\<exists>m' r. (lock_step lib)\<^sup>*\<^sup>* m m' \<and> mu m' = None \<and> wire m' = [] \<and> signer m' = signer m \<and>
    phases m' = (phases m)(t := Returned (LSign d alg) r) \<and> finished m' = finished m @ [(t, LSign d alg, r)]"
proof -
  let ?cmd = "CSign c \<lparr>nh_handle = sg_handle (signer m), nh_name = sg_name (signer m)\<rparr> d alg"
  obtain r w' where r: "respond lib ?cmd (lx_world m) = (r, w')" by fastforce
  let ?m1 = "goto t (Locked (LSign d alg)) (m\<lparr>mu := Some t\<rparr>)"
  let ?m2 = "goto t (SignWait d alg) (?m1\<lparr>wire := wire ?m1 @ [?cmd]\<rparr>)"
  let ?m3 = "goto t (Unlocking (LSign d alg) (decodeResponse lib r)) (?m2\<lparr>wire := [], lx_world := w'\<rparr>)"
  let ?m4 = "goto t (Returned (LSign d alg) (decodeResponse lib r))
    (?m3\<lparr>mu := None, finished := finished ?m3 @ [(t, LSign d alg, decodeResponse lib r)]\<rparr>)"
  have 1: "lock_step lib m ?m1" by (rule lock [OF assms(1,2)])
  have 2: "lock_step lib ?m1 ?m2" using sign_send [of ?m1 t d alg c lib] c by simp
  have 3: "lock_step lib ?m2 ?m3" by (rule sign_receive [where cmd = ?cmd]) (simp_all add: assms(3) r)
  have 4: "lock_step lib ?m3 ?m4" by (rule unlock) simp
  have "(lock_step lib)\<^sup>*\<^sup>* m ?m4"
    using 1 2 3 4 by (meson converse_rtranclp_into_rtranclp rtranclp.rtrancl_refl)
  then show ?thesis by (intro exI [of _ ?m4] exI [of _ "decodeResponse lib r"]) simp
qed

lemma run_close:
  assumes "phases m t = WantLock LClose" and "mu m = None" and "wire m = []"
    and c: "sg_tpm (signer m) = Some c" "sg_handle (signer m) \<noteq> 0"
  shows "\<exists>m' r. (lock_step lib)\<^sup>*\<^sup>* m m' \<and> mu m' = None \<and> finished m' = finished m @ [(t, LClose, r)]"
proof -
  let ?cmd = "CFlush c (sg_handle (signer m))"
  obtain r w' where r: "respond lib ?cmd (lx_world m) = (r, w')" by fastforce
  obtain e w2 where e: "tpm_close_conn lib c w' = (e, w2)" by fastforce
  let ?m1 = "goto t (Locked LClose) (m\<lparr>mu := Some t\<rparr>)"
  let ?m2 = "goto t FlushWait (?m1\<lparr>wire := wire ?m1 @ [?cmd]\<rparr>)"
  let ?m3 = "goto t (CloseConn c) (?m2\<lparr>wire := [], lx_world := w'\<rparr>)"
  let ?m4 = "goto t (CloseNil e) (?m3\<lparr>signer := (signer ?m3)\<lparr>sg_handle := 0\<rparr>, lx_world := w2\<rparr>)"
  let ?m5 = "goto t (Unlocking LClose (unit_bytes e)) (?m4\<lparr>signer := (signer ?m4)\<lparr>sg_tpm := None\<rparr>\<rparr>)"
  let ?m6 = "goto t (Returned LClose (unit_bytes e))
    (?m5\<lparr>mu := None, finished := finished ?m5 @ [(t, LClose, unit_bytes e)]\<rparr>)"
  have 1: "lock_step lib m ?m1" by (rule lock [OF assms(1,2)])
  have 2: "lock_step lib ?m1 ?m2" using close_flush [of ?m1 t c lib] c by simp
  have 3: "lock_step lib ?m2 ?m3" by (rule flush_receive [where cmd = ?cmd]) (simp_all add: assms(3) r c(1))
  have 4: "lock_step lib ?m3 ?m4" using close_conn [of ?m3 t c lib e w2] e by simp
  have 5: "lock_step lib ?m4 ?m5" by (rule close_nil) simp
  have 6: "lock_step lib ?m5 ?m6" by (rule unlock) simp
  have "(lock_step lib)\<^sup>*\<^sup>* m ?m6"
    using 1 2 3 4 5 6 by (meson converse_rtranclp_into_rtranclp rtranclp.rtrancl_refl)
  then show ?thesis by (intro exI [of _ ?m6] exI [of _ "unit_bytes e"]) simp
qed

text \<open>Goroutine 0 signs while all others wait to close; then goroutine 1 closes.\<close>

definition sample_signer :: tpm_signer where
  "sample_signer = \<lparr>sg_tpm = Some 0, sg_handle = 2, sg_name = [], sg_pub = sample_pub\<rparr>"

definition sample_calls :: "nat \<Rightarrow> phase" where
  "sample_calls t = (if t = 0 then CallSign (replicate 32 7) (HashOpts SHA256) else CallClose)"

lemma sample_calls_is_call: "is_call (sample_calls t)"
  by (simp add: sample_calls_def)

lemma sample_run:
  "\<exists>m r1 r2. (lock_step live_tpm)\<^sup>*\<^sup>* (start sample_signer live_lx sample_calls) m \<and> mu m = None \<and>
     finished m = [(0, LSign (replicate 32 7) TPMAlgSHA256, r1), (1, LClose, r2)]"
proof -
  let ?d = "replicate 32 7" and ?m0 = "start sample_signer live_lx sample_calls"
  let ?m1 = "goto 0 (WantLock (LSign ?d TPMAlgSHA256)) ?m0"
  let ?m2 = "goto 1 (WantLock LClose) ?m1"
  have p0: "phases ?m0 0 = CallSign ?d (HashOpts SHA256)" "phases ?m1 1 = CallClose"
    by (simp_all add: start_def sample_calls_def)
  have g: "signGuard ?d (HashOpts SHA256) = Inr TPMAlgSHA256" by (simp add: signGuard_def)
  have "lock_step live_tpm ?m0 ?m1" by (rule want_sign [OF p0(1) g])
  moreover have "lock_step live_tpm ?m1 ?m2" by (rule want_close [OF p0(2)])
  moreover have "\<exists>m3 r. (lock_step live_tpm)\<^sup>*\<^sup>* ?m2 m3 \<and> mu m3 = None \<and> wire m3 = [] \<and> signer m3 = signer ?m2 \<and>
      phases m3 = (phases ?m2)(0 := Returned (LSign ?d TPMAlgSHA256) r) \<and>
      finished m3 = finished ?m2 @ [(0, LSign ?d TPMAlgSHA256, r)]"
    by (rule run_sign [where c = 0]) (simp_all add: start_def sample_signer_def)
  then obtain m3 r1 where m3: "(lock_step live_tpm)\<^sup>*\<^sup>* ?m2 m3" "mu m3 = None" "wire m3 = []" "signer m3 = signer ?m2"
      "phases m3 = (phases ?m2)(0 := Returned (LSign ?d TPMAlgSHA256) r1)"
      "finished m3 = finished ?m2 @ [(0, LSign ?d TPMAlgSHA256, r1)]" by blast
  moreover have "\<exists>m4 r. (lock_step live_tpm)\<^sup>*\<^sup>* m3 m4 \<and> mu m4 = None \<and> finished m4 = finished m3 @ [(1, LClose, r)]"
    by (rule run_close [where c = 0]) (simp_all add: m3 start_def sample_signer_def)
  then obtain m4 r2 where "(lock_step live_tpm)\<^sup>*\<^sup>* m3 m4" "mu m4 = None" "finished m4 = finished m3 @ [(1, LClose, r2)]" by blast
  ultimately have "(lock_step live_tpm)\<^sup>*\<^sup>* ?m0 m4" "mu m4 = None"
    "finished m4 = [(0, LSign ?d TPMAlgSHA256, r1), (1, LClose, r2)]"
    by (auto simp: start_def intro: rtranclp_trans converse_rtranclp_into_rtranclp)
  then show ?thesis by blast
qed

lemma concurrent_calls_linearize_witness:
  "\<exists>m :: nat machine. finished m \<noteq> [] \<and> replay_calls live_tpm (finished m) (sample_signer, live_lx) = Some (signer m, lx_world m)"
proof -
  obtain m where m: "(lock_step live_tpm)\<^sup>*\<^sup>* (start sample_signer live_lx sample_calls) m" "mu m = None" "finished m \<noteq> []"
    using sample_run by (elim exE conjE) (auto intro: that)
  from concurrent_calls_linearize [OF m(1) sample_calls_is_call] m(2)
  have "replay_calls live_tpm (finished m) (sample_signer, live_lx) = Some (signer m, lx_world m)"
    by (auto split: option.splits)
  with m(3) show ?thesis by blast
qed

lemma concurrent_use_safe_witness:
  "\<exists>m :: nat machine. mu m = None \<and> length (wire m) \<le> 1 \<and> signer_res (signer m) = {#} \<and>
     replays ledger_log live_lx (lx_world m) (signer_res sample_signer + {#}) (signer_res (signer m) + {#})"
proof -
  from sample_run obtain m r1 r2 where m: "(lock_step live_tpm)\<^sup>*\<^sup>* (start sample_signer live_lx sample_calls) m" "mu m = None"
    "finished m = [(0, LSign (replicate 32 7) TPMAlgSHA256, r1), (1, LClose, r2)]" by blast
  have f: "finished m = [(0, LSign (replicate 32 7) TPMAlgSHA256, r1)] @ (1, LClose, r2) # []"
    using m(3) by simp
  note c = concurrent_use_safe [OF m(1) sample_calls_is_call, of "{#}"]
  note close = conjunct2 [OF conjunct2 [OF conjunct2 [OF c]]]
  have "signer_res (signer m) = {#}" using conjunct2 [OF close] f m(2) by blast
  moreover have "replays ledger_log live_lx (lx_world m) (signer_res sample_signer + {#}) (signer_res (signer m) + {#})"
    using conjunct1 [OF close] m(2) by (rule mp)
  moreover have "length (wire m) \<le> 1" using conjunct1 [OF c] .
  ultimately show ?thesis using m(2) by (intro exI [of _ m]) simp
qed


end
