(* ===== verification/NCryptCalls.thy ===== *)
theory NCryptCalls
  imports WindowsTable
begin

text \<open>
  The call stubs of \<^verbatim>\<open>zsyscall_windows.go\<close> and the places in \<^verbatim>\<open>key_windows.go\<close> that use them. A stub turns
  its arguments into machine words, hands them to \<^verbatim>\<open>syscall.SyscallN\<close> and cuts the result to 32 bits; what
  the system library reads and writes it reads and writes through pointers. \<open>WindowsKeys\<close> is stated over
  calls with typed arguments and results (\<open>ncrypt\<close>); here those calls are built from the stubs
  (\<open>ncrypt_of\<close>), and the last theorem shows that over a library with the documented calling convention
  (\<open>ncrypt_abi\<close>) the backend is the one \<open>WindowsKeys\<close> describes.

  Memory is a map from addresses to objects; every pointer of the source is the address of an object.
  \<open>loc i\<close> is the address of the \<open>i\<close>-th object a call passes. \<^verbatim>\<open>SyscallN\<close> is a parameter and takes the
  procedure by its name; \<^verbatim>\<open>LazyProc.Addr\<close> finds it or panics, and is taken to find it.
\<close>

section \<open>Memory\<close>

type_synonym memory = "uintptr \<rightharpoonup> bytes"

type_synonym 'd dll = "string \<Rightarrow> uintptr list \<Rightarrow> memory \<Rightarrow> 'd \<Rightarrow> (uintptr \<times> memory) \<times> 'd"

type_synonym 'd stub = "memory \<Rightarrow> 'd \<Rightarrow> (security_status \<times> memory) \<times> 'd"

text \<open>Integers in memory, lowest byte first.\<close>

fun le_put :: "nat \<Rightarrow> nat \<Rightarrow> bytes" where
  "le_put 0 v = []"
| "le_put (Suc k) v = word_of_nat (v mod 256) # le_put k (v div 256)"

fun le_get :: "bytes \<Rightarrow> nat" where
  "le_get [] = 0"
| "le_get (b # bs) = unat b + 256 * le_get bs"

lemma length_le_put [simp]: "length (le_put k v) = k"
  by (induction k arbitrary: v) simp_all

lemma le_get_put: "v < 256 ^ k \<Longrightarrow> le_get (le_put k v) = v"
proof (induction k arbitrary: v)
  case (Suc k)
  then have "v div 256 < 256 ^ k" by (simp add: less_mult_imp_div_less mult.commute)
  with Suc.IH [OF this] show ?case by simp
qed simp

definition put_word :: "nat \<Rightarrow> 'a::len word \<Rightarrow> bytes" where
  "put_word k v = le_put k (unat v)"

definition get_word :: "bytes option \<Rightarrow> 'a::len word" where
  "get_word b = (case b of Some bs \<Rightarrow> word_of_nat (le_get bs) | None \<Rightarrow> 0)"

lemma length_put_word [simp]: "length (put_word k v) = k"
  by (simp add: put_word_def)

lemma get_put_word: "LENGTH('a::len) \<le> 8 * k \<Longrightarrow> get_word (Some (put_word k (v :: 'a word))) = v"
proof -
  assume k: "LENGTH('a) \<le> 8 * k"
  have "unat v < 2 ^ LENGTH('a)" by (rule unsigned_less)
  also have "\<dots> \<le> 2 ^ (8 * k)" using k by (simp add: power_increasing)
  also have "(2 :: nat) ^ (8 * k) = 256 ^ k" by (simp add: power_mult)
  finally show ?thesis by (simp add: get_word_def put_word_def le_get_put)
qed

text \<open>What \<^verbatim>\<open>UTF16PtrFromString\<close> leaves in memory: the 16-bit units and a terminating null.\<close>

fun wide :: "utf16 \<Rightarrow> bytes" where
  "wide [] = [0, 0]"
| "wide (u # us) = put_word 2 u @ wide us"

fun read_wide :: "bytes \<Rightarrow> utf16" where
  "read_wide (b # c # bs) =
     (let u = get_word (Some [b, c]) in if u = 0 then [] else u # read_wide bs)"
| "read_wide _ = []"

lemma read_wide: "0 \<notin> set us \<Longrightarrow> read_wide (wide us) = us"
proof (induction us)
  case Nil
  show ?case by (simp add: get_word_def)
next
  case (Cons u us)
  obtain b c where p: "put_word 2 u = [b, c]"
    by (simp add: put_word_def numeral_2_eq_2)
  have "get_word (Some [b, c]) = u" using get_put_word [of 2 u] p by simp
  with Cons p show ?case by simp
qed

text \<open>The objects a call passes, the \<open>i\<close>-th at \<open>loc i\<close>.\<close>

definition objects :: "(nat \<Rightarrow> uintptr) \<Rightarrow> bytes list \<Rightarrow> memory" where
  "objects loc os = map_of (zip (map loc [0..<length os]) os)"

definition object_at :: "memory \<Rightarrow> uintptr \<Rightarrow> bytes" where
  "object_at mem p = (case mem p of Some bs \<Rightarrow> bs | None \<Rightarrow> [])"

section \<open>The stubs\<close>

text \<open>\<^verbatim>\<open>r0, _, _ := syscall.SyscallN(...); ret = uint32(r0)\<close>.\<close>

definition ret_r0 :: "(uintptr \<times> memory) \<times> 'd \<Rightarrow> (security_status \<times> memory) \<times> 'd" where
  "ret_r0 r = (case r of ((r0, mem), d) \<Rightarrow> ((ucast r0, mem), d))"

definition nCryptCreatePersistedKey_stub ::
    "'d dll \<Rightarrow> nCryptProvHandle \<Rightarrow> uintptr \<Rightarrow> uintptr \<Rightarrow> uintptr \<Rightarrow> 32 word \<Rightarrow> 32 word \<Rightarrow> 'd stub" where
  "nCryptCreatePersistedKey_stub SyscallN hProvider phKey pszAlgId pszKeyName dwLegacyKeySpec dwFlags mem d =
     ret_r0 (SyscallN ''NCryptCreatePersistedKey''
       [hProvider, phKey, pszAlgId, pszKeyName, ucast dwLegacyKeySpec, ucast dwFlags] mem d)"

definition nCryptDeleteKey_stub :: "'d dll \<Rightarrow> nCryptKeyHandle \<Rightarrow> 32 word \<Rightarrow> 'd stub" where
  "nCryptDeleteKey_stub SyscallN hKey dwFlags mem d =
     ret_r0 (SyscallN ''NCryptDeleteKey'' [hKey, ucast dwFlags] mem d)"

definition nCryptExportKey_stub ::
    "'d dll \<Rightarrow> nCryptKeyHandle \<Rightarrow> nCryptKeyHandle \<Rightarrow> uintptr \<Rightarrow> uintptr \<Rightarrow> uintptr \<Rightarrow> 32 word \<Rightarrow> uintptr
     \<Rightarrow> 32 word \<Rightarrow> 'd stub" where
  "nCryptExportKey_stub SyscallN hKey hExportKey pszBlobType pParameterList pbOutput cbOutput pcbResult dwFlags mem d =
     ret_r0 (SyscallN ''NCryptExportKey''
       [hKey, hExportKey, pszBlobType, pParameterList, pbOutput, ucast cbOutput, pcbResult, ucast dwFlags] mem d)"

definition nCryptFinalizeKey_stub :: "'d dll \<Rightarrow> nCryptKeyHandle \<Rightarrow> 32 word \<Rightarrow> 'd stub" where
  "nCryptFinalizeKey_stub SyscallN hKey dwFlags mem d =
     ret_r0 (SyscallN ''NCryptFinalizeKey'' [hKey, ucast dwFlags] mem d)"

definition nCryptFreeObject_stub :: "'d dll \<Rightarrow> uintptr \<Rightarrow> 'd stub" where
  "nCryptFreeObject_stub SyscallN hObject mem d = ret_r0 (SyscallN ''NCryptFreeObject'' [hObject] mem d)"

definition nCryptOpenKey_stub ::
    "'d dll \<Rightarrow> nCryptProvHandle \<Rightarrow> uintptr \<Rightarrow> uintptr \<Rightarrow> 32 word \<Rightarrow> 32 word \<Rightarrow> 'd stub" where
  "nCryptOpenKey_stub SyscallN hProvider phKey pszKeyName dwLegacyKeySpec dwFlags mem d =
     ret_r0 (SyscallN ''NCryptOpenKey''
       [hProvider, phKey, pszKeyName, ucast dwLegacyKeySpec, ucast dwFlags] mem d)"

definition nCryptOpenStorageProvider_stub :: "'d dll \<Rightarrow> uintptr \<Rightarrow> uintptr \<Rightarrow> 32 word \<Rightarrow> 'd stub" where
  "nCryptOpenStorageProvider_stub SyscallN phProvider pszProviderName dwFlags mem d =
     ret_r0 (SyscallN ''NCryptOpenStorageProvider'' [phProvider, pszProviderName, ucast dwFlags] mem d)"

definition nCryptSetProperty_stub ::
    "'d dll \<Rightarrow> nCryptKeyHandle \<Rightarrow> uintptr \<Rightarrow> uintptr \<Rightarrow> 32 word \<Rightarrow> 32 word \<Rightarrow> 'd stub" where
  "nCryptSetProperty_stub SyscallN hObject pszProperty pbInput cbInput dwFlags mem d =
     ret_r0 (SyscallN ''NCryptSetProperty'' [hObject, pszProperty, pbInput, ucast cbInput, ucast dwFlags] mem d)"

definition nCryptSignHash_stub ::
    "'d dll \<Rightarrow> nCryptKeyHandle \<Rightarrow> uintptr \<Rightarrow> uintptr \<Rightarrow> 32 word \<Rightarrow> uintptr \<Rightarrow> 32 word \<Rightarrow> uintptr \<Rightarrow> 32 word
     \<Rightarrow> 'd stub" where
  "nCryptSignHash_stub SyscallN hKey pPaddingInfo pbHashValue cbHashValue pbSignature cbSignature pcbResult dwFlags mem d =
     ret_r0 (SyscallN ''NCryptSignHash''
       [hKey, pPaddingInfo, pbHashValue, ucast cbHashValue, pbSignature, ucast cbSignature, pcbResult, ucast dwFlags]
       mem d)"

text \<open>
  \<^verbatim>\<open>errnoErr\<close>, which the generator adds and no stub calls; the number of \<^verbatim>\<open>syscall.EINVAL\<close> is an argument.
\<close>

definition errnoERROR_IO_PENDING :: uintptr where "errnoERROR_IO_PENDING = 997"

definition errnoErr :: "uintptr \<Rightarrow> uintptr \<Rightarrow> uintptr" where
  "errnoErr EINVAL e =
     (if e = 0 then EINVAL else if e = errnoERROR_IO_PENDING then errnoERROR_IO_PENDING else e)"

section \<open>The calls of \<^verbatim>\<open>key_windows.go\<close>\<close>

text \<open>\<^verbatim>\<open>var hProv; nCryptOpenStorageProvider(&hProv, provName, 0)\<close>.\<close>

definition call_OpenStorageProvider ::
    "'d dll \<Rightarrow> (nat \<Rightarrow> uintptr) \<Rightarrow> utf16 \<Rightarrow> 'd \<Rightarrow> (security_status \<times> nCryptProvHandle) \<times> 'd" where
  "call_OpenStorageProvider dll loc provName d =
     (case nCryptOpenStorageProvider_stub dll (loc 0) (loc 1) 0
             (objects loc [put_word 8 (0 :: nCryptProvHandle), wide provName]) d of
        ((st, mem), d') \<Rightarrow> ((st, get_word (mem (loc 0))), d'))"

text \<open>\<^verbatim>\<open>var hKey; nCryptCreatePersistedKey(hProv, &hKey, algId, keyName, 0, 0)\<close>.\<close>

definition call_CreatePersistedKey ::
    "'d dll \<Rightarrow> (nat \<Rightarrow> uintptr) \<Rightarrow> nCryptProvHandle \<Rightarrow> utf16 \<Rightarrow> utf16 \<Rightarrow> 'd
     \<Rightarrow> (security_status \<times> nCryptKeyHandle) \<times> 'd" where
  "call_CreatePersistedKey dll loc hProv algId keyName d =
     (case nCryptCreatePersistedKey_stub dll hProv (loc 0) (loc 1) (loc 2) 0 0
             (objects loc [put_word 8 (0 :: nCryptKeyHandle), wide algId, wide keyName]) d of
        ((st, mem), d') \<Rightarrow> ((st, get_word (mem (loc 0))), d'))"

text \<open>\<^verbatim>\<open>var hKey; nCryptOpenKey(hProv, &hKey, keyName, 0, 0)\<close>.\<close>

definition call_OpenKey ::
    "'d dll \<Rightarrow> (nat \<Rightarrow> uintptr) \<Rightarrow> nCryptProvHandle \<Rightarrow> utf16 \<Rightarrow> 'd
     \<Rightarrow> (security_status \<times> nCryptKeyHandle) \<times> 'd" where
  "call_OpenKey dll loc hProv keyName d =
     (case nCryptOpenKey_stub dll hProv (loc 0) (loc 1) 0 0
             (objects loc [put_word 8 (0 :: nCryptKeyHandle), wide keyName]) d of
        ((st, mem), d') \<Rightarrow> ((st, get_word (mem (loc 0))), d'))"

text \<open>\<^verbatim>\<open>nCryptDeleteKey(hKey, 0)\<close>, \<^verbatim>\<open>nCryptFinalizeKey(hKey, 0)\<close> and \<^verbatim>\<open>nCryptFreeObject(h)\<close>.\<close>

definition call_DeleteKey :: "'d dll \<Rightarrow> nCryptKeyHandle \<Rightarrow> 'd \<Rightarrow> security_status \<times> 'd" where
  "call_DeleteKey dll hKey d = (case nCryptDeleteKey_stub dll hKey 0 Map.empty d of ((st, _), d') \<Rightarrow> (st, d'))"

definition call_FinalizeKey :: "'d dll \<Rightarrow> nCryptKeyHandle \<Rightarrow> 'd \<Rightarrow> (security_status \<times> unit) \<times> 'd" where
  "call_FinalizeKey dll hKey d =
     (case nCryptFinalizeKey_stub dll hKey 0 Map.empty d of ((st, _), d') \<Rightarrow> ((st, ()), d'))"

definition call_FreeObject :: "'d dll \<Rightarrow> uintptr \<Rightarrow> 'd \<Rightarrow> security_status \<times> 'd" where
  "call_FreeObject dll h d = (case nCryptFreeObject_stub dll h Map.empty d of ((st, _), d') \<Rightarrow> (st, d'))"

text \<open>\<^verbatim>\<open>nCryptSetProperty(hKey, usageProp, (*byte)(unsafe.Pointer(&usage)), sizeof(usage), 0)\<close>.\<close>

definition call_SetProperty ::
    "'d dll \<Rightarrow> (nat \<Rightarrow> uintptr) \<Rightarrow> nCryptKeyHandle \<Rightarrow> utf16 \<Rightarrow> bytes \<Rightarrow> 'd
     \<Rightarrow> (security_status \<times> unit) \<times> 'd" where
  "call_SetProperty dll loc hKey usageProp usage d =
     (case nCryptSetProperty_stub dll hKey (loc 0) (loc 1) (word_of_nat (length usage)) 0
             (objects loc [wide usageProp, usage]) d of
        ((st, _), d') \<Rightarrow> ((st, ()), d'))"

text \<open>
  \<^verbatim>\<open>nCryptExportKey(hKey, 0, blobType, nil, nil, 0, &cb, 0)\<close> asks for the size; with a fresh buffer of
  \<^verbatim>\<open>cb\<close> bytes it is \<^verbatim>\<open>nCryptExportKey(hKey, 0, blobType, nil, &buf[0], cb, &cb, 0)\<close>.
\<close>

definition call_ExportKey ::
    "'d dll \<Rightarrow> (nat \<Rightarrow> uintptr) \<Rightarrow> nCryptKeyHandle \<Rightarrow> utf16 \<Rightarrow> nat option \<Rightarrow> 'd
     \<Rightarrow> (security_status \<times> bytes \<times> 32 word) \<times> 'd" where
  "call_ExportKey dll loc hKey blobType buf d =
     (case buf of
        None \<Rightarrow>
          (case nCryptExportKey_stub dll hKey 0 (loc 0) 0 0 0 (loc 1) 0
                  (objects loc [wide blobType, put_word 4 (0 :: 32 word)]) d of
             ((st, mem), d') \<Rightarrow> ((st, [], get_word (mem (loc 1))), d'))
      | Some n \<Rightarrow>
          (let cb = word_of_nat n :: 32 word in
           case nCryptExportKey_stub dll hKey 0 (loc 0) 0 (loc 2) cb (loc 1) 0
                  (objects loc [wide blobType, put_word 4 cb, replicate n 0]) d of
             ((st, mem), d') \<Rightarrow> ((st, object_at mem (loc 2), get_word (mem (loc 1))), d')))"

text \<open>The two calls of \<^verbatim>\<open>nCryptSignHash\<close>, for the size and for the signature.\<close>

definition call_SignHash ::
    "'d dll \<Rightarrow> (nat \<Rightarrow> uintptr) \<Rightarrow> nCryptKeyHandle \<Rightarrow> bytes \<Rightarrow> nat option \<Rightarrow> 'd
     \<Rightarrow> (security_status \<times> bytes \<times> 32 word) \<times> 'd" where
  "call_SignHash dll loc hKey digest buf d =
     (case buf of
        None \<Rightarrow>
          (case nCryptSignHash_stub dll hKey 0 (loc 0) (word_of_nat (length digest)) 0 0 (loc 1) 0
                  (objects loc [digest, put_word 4 (0 :: 32 word)]) d of
             ((st, mem), d') \<Rightarrow> ((st, [], get_word (mem (loc 1))), d'))
      | Some n \<Rightarrow>
          (let cb = word_of_nat n :: 32 word in
           case nCryptSignHash_stub dll hKey 0 (loc 0) (word_of_nat (length digest)) (loc 2) cb (loc 1) 0
                  (objects loc [digest, put_word 4 cb, replicate n 0]) d of
             ((st, mem), d') \<Rightarrow> ((st, object_at mem (loc 2), get_word (mem (loc 1))), d')))"

definition ncrypt_of :: "(string \<Rightarrow> go_err + utf16) \<Rightarrow> 'd dll \<Rightarrow> (nat \<Rightarrow> uintptr) \<Rightarrow> 'd ncrypt" where
  "ncrypt_of conv dll loc =
     \<lparr>UTF16PtrFromString = conv,
      nCryptOpenStorageProvider = call_OpenStorageProvider dll loc,
      nCryptCreatePersistedKey = call_CreatePersistedKey dll loc,
      nCryptOpenKey = call_OpenKey dll loc,
      nCryptDeleteKey = call_DeleteKey dll,
      nCryptSetProperty = call_SetProperty dll loc,
      nCryptFinalizeKey = call_FinalizeKey dll,
      nCryptExportKey = call_ExportKey dll loc,
      nCryptSignHash = call_SignHash dll loc,
      nCryptFreeObject = call_FreeObject dll\<rparr>"

section \<open>The documented calling convention\<close>

text \<open>
  What the system library answers, in terms of typed calls \<open>nc\<close>: the low half of the returned word is the
  status, and when it is zero the results are in memory. The upper half of the word, and memory after a
  failure, may hold anything. Flags and reserved arguments are zero in every call the code makes.
\<close>

definition answers ::
    "(security_status \<times> 'a) \<times> 'd \<Rightarrow> (uintptr \<times> memory) \<times> 'd \<Rightarrow> ('a \<Rightarrow> memory \<Rightarrow> bool) \<Rightarrow> bool" where
  "answers a r wrote \<longleftrightarrow>
     (case a of ((st, x), d) \<Rightarrow> case r of ((r0, mem), d') \<Rightarrow> ucast r0 = st \<and> d' = d \<and> (st = 0 \<longrightarrow> wrote x mem))"

definition wide_at :: "memory \<Rightarrow> uintptr \<Rightarrow> utf16 \<Rightarrow> bool" where
  "wide_at mem p us \<longleftrightarrow> p \<noteq> 0 \<and> mem p = Some (wide us) \<and> 0 \<notin> set us"

definition cell_at :: "memory \<Rightarrow> uintptr \<Rightarrow> nat \<Rightarrow> bool" where
  "cell_at mem p k \<longleftrightarrow> p \<noteq> 0 \<and> (\<exists>bs. mem p = Some bs \<and> length bs = k)"

text \<open>A buffer after \<open>bs\<close> was written to its start, as far as it fits.\<close>

definition poke :: "bytes \<Rightarrow> bytes \<Rightarrow> bytes" where
  "poke old bs = take (length old) bs @ drop (length bs) old"

definition handle_abi :: "'d ncrypt \<Rightarrow> 'd dll \<Rightarrow> bool" where
  "handle_abi nc dll \<longleftrightarrow>
     (\<forall>mem ph pn name d. cell_at mem ph 8 \<and> wide_at mem pn name \<and> ph \<noteq> pn \<longrightarrow>
        answers (nCryptOpenStorageProvider nc name d) (dll ''NCryptOpenStorageProvider'' [ph, pn, 0] mem d)
          (\<lambda>h mem'. mem' ph = Some (put_word 8 h))) \<and>
     (\<forall>mem p ph pa alg pn name d.
        cell_at mem ph 8 \<and> wide_at mem pa alg \<and> wide_at mem pn name \<and> distinct [ph, pa, pn] \<longrightarrow>
        answers (nCryptCreatePersistedKey nc p alg name d)
          (dll ''NCryptCreatePersistedKey'' [p, ph, pa, pn, 0, 0] mem d) (\<lambda>h mem'. mem' ph = Some (put_word 8 h))) \<and>
     (\<forall>mem p ph pn name d. cell_at mem ph 8 \<and> wide_at mem pn name \<and> ph \<noteq> pn \<longrightarrow>
        answers (nCryptOpenKey nc p name d) (dll ''NCryptOpenKey'' [p, ph, pn, 0, 0] mem d)
          (\<lambda>h mem'. mem' ph = Some (put_word 8 h)))"

definition key_abi :: "'d ncrypt \<Rightarrow> 'd dll \<Rightarrow> bool" where
  "key_abi nc dll \<longleftrightarrow>
     (\<forall>mem h d. case nCryptDeleteKey nc h d of (st, d') \<Rightarrow>
        answers ((st, ()), d') (dll ''NCryptDeleteKey'' [h, 0] mem d) (\<lambda>_ _. True)) \<and>
     (\<forall>mem h d. answers (nCryptFinalizeKey nc h d) (dll ''NCryptFinalizeKey'' [h, 0] mem d) (\<lambda>_ _. True)) \<and>
     (\<forall>mem h d. case nCryptFreeObject nc h d of (st, d') \<Rightarrow>
        answers ((st, ()), d') (dll ''NCryptFreeObject'' [h] mem d) (\<lambda>_ _. True)) \<and>
     (\<forall>mem h pn name pb bs n d. wide_at mem pn name \<and> pb \<noteq> 0 \<and> mem pb = Some bs \<and> unat n = length bs \<longrightarrow>
        answers (nCryptSetProperty nc h name bs d) (dll ''NCryptSetProperty'' [h, pn, pb, n, 0] mem d) (\<lambda>_ _. True))"

text \<open>A size query passes no buffer; otherwise the buffer is filled and the size written beside it.\<close>

definition output_abi ::
    "('i \<Rightarrow> nat option \<Rightarrow> 'd \<Rightarrow> (security_status \<times> bytes \<times> 32 word) \<times> 'd) \<Rightarrow> (memory \<Rightarrow> 'i \<Rightarrow> bool)
     \<Rightarrow> (uintptr \<Rightarrow> uintptr \<Rightarrow> uintptr \<Rightarrow> memory \<Rightarrow> 'd \<Rightarrow> (uintptr \<times> memory) \<times> 'd) \<Rightarrow> bool" where
  "output_abi f input call \<longleftrightarrow>
     (\<forall>mem i pc d. input mem i \<and> cell_at mem pc 4 \<longrightarrow>
        answers (f i None d) (call 0 0 pc mem d) (\<lambda>(_, cb) mem'. mem' pc = Some (put_word 4 cb))) \<and>
     (\<forall>mem i pb old n pc d.
        input mem i \<and> cell_at mem pc 4 \<and> pb \<noteq> 0 \<and> mem pb = Some old \<and> unat n = length old \<and> pb \<noteq> pc \<longrightarrow>
        answers (f i (Some (unat n)) d) (call pb n pc mem d)
          (\<lambda>(bs, cb) mem'. mem' pb = Some (poke old bs) \<and> mem' pc = Some (put_word 4 cb)))"

definition ncrypt_abi :: "'d ncrypt \<Rightarrow> 'd dll \<Rightarrow> bool" where
  "ncrypt_abi nc dll \<longleftrightarrow> handle_abi nc dll \<and> key_abi nc dll \<and>
     (\<forall>h pn. output_abi (nCryptExportKey nc h) (\<lambda>mem name. wide_at mem pn name)
        (\<lambda>pb n pc. dll ''NCryptExportKey'' [h, 0, pn, 0, pb, n, pc, 0])) \<and>
     (\<forall>h pd m. output_abi (nCryptSignHash nc h)
        (\<lambda>mem digest. pd \<noteq> 0 \<and> mem pd = Some digest \<and> unat m = length digest)
        (\<lambda>pb n pc. dll ''NCryptSignHash'' [h, 0, pd, m, pb, n, pc, 0]))"

text \<open>The objects of a call lie at different addresses, none of them null.\<close>

definition good_loc :: "(nat \<Rightarrow> uintptr) \<Rightarrow> bool" where
  "good_loc loc \<longleftrightarrow> distinct [0, loc 0, loc 1, loc 2]"

section \<open>The calls agree\<close>

definition agree ::
    "('a \<Rightarrow> 'a \<Rightarrow> bool) \<Rightarrow> ('d \<Rightarrow> (security_status \<times> 'a) \<times> 'd) \<Rightarrow> ('d \<Rightarrow> (security_status \<times> 'a) \<times> 'd) \<Rightarrow> bool" where
  "agree R f g \<longleftrightarrow>
     (\<forall>d. case f d of ((st, x), d1) \<Rightarrow> case g d of ((st', x'), d2) \<Rightarrow> st = st' \<and> d1 = d2 \<and> (st = 0 \<longrightarrow> R x x'))"

text \<open>A call built from a stub agrees with the typed call that the library answers for.\<close>

lemma agreeI:
  assumes "\<And>d. answers (g d) (s d) wrote"
    and "\<And>d. f d = (case ret_r0 (s d) of ((st, mem), d') \<Rightarrow> ((st, out mem), d'))"
    and "\<And>x mem. wrote x mem \<Longrightarrow> R (out mem) x"
  shows "agree R f g"
  unfolding agree_def
proof
  fix d
  from assms(1) [of d] assms(3)
  show "case f d of ((st, x), d1) \<Rightarrow> case g d of ((st', x'), d2) \<Rightarrow> st = st' \<and> d1 = d2 \<and> (st = 0 \<longrightarrow> R x x')"
    by (auto simp: assms(2) answers_def ret_r0_def split: prod.splits)
qed

lemma objects2: "good_loc loc \<Longrightarrow> objects loc [a, b] (loc 0) = Some a \<and> objects loc [a, b] (loc 1) = Some b"
  by (auto simp: objects_def good_loc_def numeral_2_eq_2)

lemma objects3:
  "good_loc loc \<Longrightarrow> objects loc [a, b, c] (loc 0) = Some a \<and> objects loc [a, b, c] (loc 1) = Some b \<and>
    objects loc [a, b, c] (loc 2) = Some c"
  by (auto simp: objects_def good_loc_def eval_nat_numeral)

lemma good_locD:
  "good_loc loc \<Longrightarrow> loc 0 \<noteq> 0 \<and> loc 1 \<noteq> 0 \<and> loc 2 \<noteq> 0 \<and> loc 0 \<noteq> loc 1 \<and> loc 0 \<noteq> loc 2 \<and> loc 1 \<noteq> loc 2 \<and> loc 2 \<noteq> loc 1"
  by (auto simp: good_loc_def)

lemma agree_OpenStorageProvider:
  assumes "ncrypt_abi nc dll" and l: "good_loc loc" and "0 \<notin> set name"
  shows "agree (=) (call_OpenStorageProvider dll loc name) (nCryptOpenStorageProvider nc name)"
proof (rule agreeI [where out = "\<lambda>mem. get_word (mem (loc 0))"])
  let ?m = "objects loc [put_word 8 (0 :: nCryptProvHandle), wide name]"
  have "cell_at ?m (loc 0) 8 \<and> wide_at ?m (loc 1) name \<and> loc 0 \<noteq> loc 1"
    using objects2 [OF l] good_locD [OF l] assms(3) by (simp add: cell_at_def wide_at_def)
  with assms(1) show "answers (nCryptOpenStorageProvider nc name d)
      (dll ''NCryptOpenStorageProvider'' [loc 0, loc 1, 0] ?m d) (\<lambda>h mem'. mem' (loc 0) = Some (put_word 8 h))" for d
    by (simp add: ncrypt_abi_def handle_abi_def)
qed (simp_all add: call_OpenStorageProvider_def nCryptOpenStorageProvider_stub_def get_put_word)

lemma agree_CreatePersistedKey:
  assumes "ncrypt_abi nc dll" and l: "good_loc loc" and "0 \<notin> set alg" and "0 \<notin> set name"
  shows "agree (=) (call_CreatePersistedKey dll loc p alg name) (nCryptCreatePersistedKey nc p alg name)"
proof (rule agreeI [where out = "\<lambda>mem. get_word (mem (loc 0))"])
  let ?m = "objects loc [put_word 8 (0 :: nCryptKeyHandle), wide alg, wide name]"
  have "cell_at ?m (loc 0) 8 \<and> wide_at ?m (loc 1) alg \<and> wide_at ?m (loc 2) name \<and> distinct [loc 0, loc 1, loc 2]"
    using objects3 [OF l] good_locD [OF l] assms(3,4) by (simp add: cell_at_def wide_at_def)
  with assms(1) show "answers (nCryptCreatePersistedKey nc p alg name d)
      (dll ''NCryptCreatePersistedKey'' [p, loc 0, loc 1, loc 2, 0, 0] ?m d)
      (\<lambda>h mem'. mem' (loc 0) = Some (put_word 8 h))" for d
    by (simp add: ncrypt_abi_def handle_abi_def)
qed (simp_all add: call_CreatePersistedKey_def nCryptCreatePersistedKey_stub_def get_put_word)

lemma agree_OpenKey:
  assumes "ncrypt_abi nc dll" and l: "good_loc loc" and "0 \<notin> set name"
  shows "agree (=) (call_OpenKey dll loc p name) (nCryptOpenKey nc p name)"
proof (rule agreeI [where out = "\<lambda>mem. get_word (mem (loc 0))"])
  let ?m = "objects loc [put_word 8 (0 :: nCryptKeyHandle), wide name]"
  have "cell_at ?m (loc 0) 8 \<and> wide_at ?m (loc 1) name \<and> loc 0 \<noteq> loc 1"
    using objects2 [OF l] good_locD [OF l] assms(3) by (simp add: cell_at_def wide_at_def)
  with assms(1) show "answers (nCryptOpenKey nc p name d)
      (dll ''NCryptOpenKey'' [p, loc 0, loc 1, 0, 0] ?m d) (\<lambda>h mem'. mem' (loc 0) = Some (put_word 8 h))" for d
    by (simp add: ncrypt_abi_def handle_abi_def)
qed (simp_all add: call_OpenKey_def nCryptOpenKey_stub_def get_put_word)

lemma agree_FinalizeKey:
  assumes "ncrypt_abi nc dll"
  shows "agree (=) (call_FinalizeKey dll h) (nCryptFinalizeKey nc h)"
proof (rule agreeI)
  from assms show "answers (nCryptFinalizeKey nc h d) (dll ''NCryptFinalizeKey'' [h, 0] Map.empty d) (\<lambda>_ _. True)" for d
    by (simp add: ncrypt_abi_def key_abi_def)
qed (simp_all add: call_FinalizeKey_def nCryptFinalizeKey_stub_def)

lemma agree_SetProperty:
  assumes "ncrypt_abi nc dll" and l: "good_loc loc" and "0 \<notin> set name" and "length bs < 2 ^ 32"
  shows "agree (=) (call_SetProperty dll loc h name bs) (nCryptSetProperty nc h name bs)"
proof (rule agreeI)
  let ?m = "objects loc [wide name, bs]"
  have "wide_at ?m (loc 0) name \<and> loc 1 \<noteq> 0 \<and> ?m (loc 1) = Some bs \<and>
      unat (ucast (word_of_nat (length bs) :: 32 word) :: uintptr) = length bs"
    using objects2 [OF l] good_locD [OF l] assms(3,4) by (simp add: wide_at_def unsigned_ucast_eq unat_of_nat take_bit_nat_eq_self)
  with assms(1) show "answers (nCryptSetProperty nc h name bs d)
      (dll ''NCryptSetProperty'' [h, loc 0, loc 1, ucast (word_of_nat (length bs) :: 32 word), 0] ?m d) (\<lambda>_ _. True)" for d
    by (simp add: ncrypt_abi_def key_abi_def)
qed (simp_all add: call_SetProperty_def nCryptSetProperty_stub_def)

text \<open>The calls whose handle goes away return a status only.\<close>

lemma call_DeleteKey_eq: "ncrypt_abi nc dll \<Longrightarrow> call_DeleteKey dll h d = nCryptDeleteKey nc h d"
proof -
  assume "ncrypt_abi nc dll"
  then have "case nCryptDeleteKey nc h d of (st, d') \<Rightarrow>
      answers ((st, ()), d') (dll ''NCryptDeleteKey'' [h, 0] Map.empty d) (\<lambda>_ _. True)"
    by (simp add: ncrypt_abi_def key_abi_def)
  then show ?thesis
    by (auto simp: call_DeleteKey_def nCryptDeleteKey_stub_def answers_def ret_r0_def split: prod.splits)
qed

lemma call_FreeObject_eq: "ncrypt_abi nc dll \<Longrightarrow> call_FreeObject dll h d = nCryptFreeObject nc h d"
proof -
  assume "ncrypt_abi nc dll"
  then have "case nCryptFreeObject nc h d of (st, d') \<Rightarrow>
      answers ((st, ()), d') (dll ''NCryptFreeObject'' [h] Map.empty d) (\<lambda>_ _. True)"
    by (simp add: ncrypt_abi_def key_abi_def)
  then show ?thesis
    by (auto simp: call_FreeObject_def nCryptFreeObject_stub_def answers_def ret_r0_def split: prod.splits)
qed

text \<open>The two calls that fill a buffer agree on what the code reads of it.\<close>

definition same_output :: "nat option \<Rightarrow> bytes \<times> 32 word \<Rightarrow> bytes \<times> 32 word \<Rightarrow> bool" where
  "same_output buf o1 o2 \<longleftrightarrow>
     snd o1 = snd o2 \<and> (case buf of None \<Rightarrow> True | Some n \<Rightarrow> filled n (fst o1) = filled n (fst o2))"

lemma filled_poke: "filled n (poke (replicate n 0) bs) = filled n bs"
  by (simp add: filled_def poke_def)

lemma output_size:
  assumes "output_abi f input call" and "input mem i" and "cell_at mem pc 4"
    and "\<And>d. g d = (case ret_r0 (call 0 0 pc mem d) of ((st, mem), d') \<Rightarrow> ((st, [], get_word (mem pc)), d'))"
  shows "agree (same_output None) g (f i None)"
proof (rule agreeI [where out = "\<lambda>mem. ([], get_word (mem pc))"])
  show "answers (f i None d) (call 0 0 pc mem d) (\<lambda>(_, cb) mem'. mem' pc = Some (put_word 4 cb))" for d
    using assms(1-3) unfolding output_abi_def by blast
qed (auto simp: assms(4) same_output_def get_put_word)

lemma output_filled:
  assumes "output_abi f input call" and "input mem i" and "cell_at mem pc 4" and "pb \<noteq> 0" and "pb \<noteq> pc"
    and "mem pb = Some (replicate n 0)" and "unat m = n"
    and "\<And>d. g d = (case ret_r0 (call pb m pc mem d) of
      ((st, mem), d') \<Rightarrow> ((st, object_at mem pb, get_word (mem pc)), d'))"
  shows "agree (same_output (Some n)) g (f i (Some n))"
proof (rule agreeI [where out = "\<lambda>mem. (object_at mem pb, get_word (mem pc))"])
  have "unat m = length (replicate n (0 :: byte))" using assms(7) by simp
  with assms(1-6) have "answers (f i (Some (unat m)) d) (call pb m pc mem d)
      (\<lambda>(bs, cb) mem'. mem' pb = Some (poke (replicate n 0) bs) \<and> mem' pc = Some (put_word 4 cb))" for d
    unfolding output_abi_def by blast
  with assms(7) show "answers (f i (Some n) d) (call pb m pc mem d)
      (\<lambda>(bs, cb) mem'. mem' pb = Some (poke (replicate n 0) bs) \<and> mem' pc = Some (put_word 4 cb))" for d
    by simp
qed (auto simp: assms(8) same_output_def get_put_word object_at_def filled_poke)

lemma agree_ExportKey:
  assumes abi: "ncrypt_abi nc dll" and l: "good_loc loc" and "0 \<notin> set name"
    and "case buf of None \<Rightarrow> True | Some n \<Rightarrow> n < 2 ^ 32"
  shows "agree (same_output buf) (call_ExportKey dll loc h name buf) (nCryptExportKey nc h name buf)"
proof -
  have o: "output_abi (nCryptExportKey nc h) (\<lambda>mem name. wide_at mem pn name)
      (\<lambda>pb n pc. dll ''NCryptExportKey'' [h, 0, pn, 0, pb, n, pc, 0])" for pn
    using abi unfolding ncrypt_abi_def by blast
  note obj = objects2 [OF l] objects3 [OF l] good_locD [OF l]
  show ?thesis
  proof (cases buf)
    case None
    show ?thesis unfolding None
      by (rule output_size [OF o, where mem = "objects loc [wide name, put_word 4 (0 :: 32 word)]" and pc = "loc 1"])
        (use obj assms(3) in \<open>simp_all add: wide_at_def cell_at_def call_ExportKey_def nCryptExportKey_stub_def\<close>)
  next
    case (Some n)
    let ?c = "word_of_nat n :: 32 word"
    have u: "unat (ucast ?c :: uintptr) = n" using assms(4) Some by (simp add: unsigned_ucast_eq unat_of_nat take_bit_nat_eq_self)
    show ?thesis unfolding Some
      by (rule output_filled [OF o, where mem = "objects loc [wide name, put_word 4 ?c, replicate n 0]"
            and pc = "loc 1" and pb = "loc 2", OF _ _ _ _ _ u])
        (use obj assms(3) in \<open>simp_all add: wide_at_def cell_at_def call_ExportKey_def nCryptExportKey_stub_def Let_def\<close>)
  qed
qed

lemma agree_SignHash:
  assumes abi: "ncrypt_abi nc dll" and l: "good_loc loc" and "length digest < 2 ^ 32"
    and "case buf of None \<Rightarrow> True | Some n \<Rightarrow> n < 2 ^ 32"
  shows "agree (same_output buf) (call_SignHash dll loc h digest buf) (nCryptSignHash nc h digest buf)"
proof -
  let ?m = "ucast (word_of_nat (length digest) :: 32 word) :: uintptr"
  have o: "output_abi (nCryptSignHash nc h) (\<lambda>mem digest. pd \<noteq> 0 \<and> mem pd = Some digest \<and> unat m = length digest)
      (\<lambda>pb n pc. dll ''NCryptSignHash'' [h, 0, pd, m, pb, n, pc, 0])" for pd m
    using abi unfolding ncrypt_abi_def by blast
  note obj = objects2 [OF l] objects3 [OF l] good_locD [OF l]
  have lm: "unat ?m = length digest" using assms(3) by (simp add: unsigned_ucast_eq unat_of_nat take_bit_nat_eq_self)
  show ?thesis
  proof (cases buf)
    case None
    show ?thesis unfolding None
      by (rule output_size [OF o [of "loc 0" ?m], where mem = "objects loc [digest, put_word 4 (0 :: 32 word)]" and pc = "loc 1"])
        (use obj lm in \<open>simp_all add: cell_at_def call_SignHash_def nCryptSignHash_stub_def\<close>)
  next
    case (Some n)
    let ?c = "word_of_nat n :: 32 word"
    have u: "unat (ucast ?c :: uintptr) = n" using assms(4) Some by (simp add: unsigned_ucast_eq unat_of_nat take_bit_nat_eq_self)
    show ?thesis unfolding Some
      by (rule output_filled [OF o [of "loc 0" ?m], where mem = "objects loc [digest, put_word 4 ?c, replicate n 0]"
            and pc = "loc 1" and pb = "loc 2", OF _ _ _ _ _ u])
        (use obj lm in \<open>simp_all add: cell_at_def call_SignHash_def nCryptSignHash_stub_def Let_def\<close>)
  qed
qed

section \<open>The backend over the stubs\<close>

text \<open>The library, the addresses and the converted strings are as documented.\<close>

definition stubs_ok :: "'d ncrypt \<Rightarrow> 'd dll \<Rightarrow> (nat \<Rightarrow> uintptr) \<Rightarrow> bool" where
  "stubs_ok nc dll loc \<longleftrightarrow> ncrypt_abi nc dll \<and> good_loc loc \<and>
     (\<forall>s us. UTF16PtrFromString nc s = Inr us \<longrightarrow> 0 \<notin> set us)"

abbreviation via :: "'d ncrypt \<Rightarrow> 'd dll \<Rightarrow> (nat \<Rightarrow> uintptr) \<Rightarrow> 'd ncrypt" where
  "via nc dll loc \<equiv> ncrypt_of (UTF16PtrFromString nc) dll loc"

lemma gbind_status_cong:
  fixes msg :: string and f :: "'a \<Rightarrow> (security_status \<times> 'b) \<times> 'a"
  assumes "agree R f g" and "\<And>x y. R x y \<Longrightarrow> k x = k' y"
  shows "gbind (status_call msg f) k = gbind (status_call msg g) k'"
proof
  fix w :: "'a win"
  obtain st x d st' x' d' where f: "f (win_dev w) = ((st, x), d)" and g: "g (win_dev w) = ((st', x'), d')"
    by (metis surj_pair)
  with assms(1) [unfolded agree_def, rule_format, of "win_dev w"]
  have "st = st' \<and> d = d' \<and> (st = 0 \<longrightarrow> k x = k' x')" using assms(2) by simp
  then show "gbind (status_call msg f) k w = gbind (status_call msg g) k' w"
    by (simp add: gbind_def status_call_def f g)
qed

lemma gbind_key_cong:
  assumes "agree R f g" and "\<And>x y. R x y \<Longrightarrow> k x = k' y"
  shows "gbind (key_call h msg f) k = gbind (key_call h msg g) k'"
proof
  fix w
  have "gbind (status_call msg f) k = gbind (status_call msg g) k'" by (rule gbind_status_cong [OF assms])
  from fun_cong [OF this, of "win_ev (Use (WinKey h)) w"]
  show "gbind (key_call h msg f) k w = gbind (key_call h msg g) k' w"
    by (simp add: gbind_def key_call_def)
qed

lemma gbind_utf16_cong:
  assumes "stubs_ok nc dll loc" and "\<And>us. 0 \<notin> set us \<Longrightarrow> k us = k' us"
  shows "gbind (utf16ptr (via nc dll loc) msg s) k = gbind (utf16ptr nc msg s) k'"
proof
  fix w
  show "gbind (utf16ptr (via nc dll loc) msg s) k w = gbind (utf16ptr nc msg s) k' w"
    using assms
    by (cases "UTF16PtrFromString nc s")
      (auto simp: gbind_def utf16ptr_def ncrypt_of_def on_err_def of_sum_def ret_def fail_def stubs_ok_def)
qed

lemma via_sel [simp]:
  "nCryptOpenStorageProvider (ncrypt_of conv dll loc) = call_OpenStorageProvider dll loc"
  "nCryptCreatePersistedKey (ncrypt_of conv dll loc) = call_CreatePersistedKey dll loc"
  "nCryptOpenKey (ncrypt_of conv dll loc) = call_OpenKey dll loc"
  "nCryptDeleteKey (ncrypt_of conv dll loc) = call_DeleteKey dll"
  "nCryptSetProperty (ncrypt_of conv dll loc) = call_SetProperty dll loc"
  "nCryptFinalizeKey (ncrypt_of conv dll loc) = call_FinalizeKey dll"
  "nCryptExportKey (ncrypt_of conv dll loc) = call_ExportKey dll loc"
  "nCryptSignHash (ncrypt_of conv dll loc) = call_SignHash dll loc"
  "nCryptFreeObject (ncrypt_of conv dll loc) = call_FreeObject dll"
  by (simp_all add: ncrypt_of_def)

lemma via_free:
  "stubs_ok nc dll loc \<Longrightarrow> freeProv (via nc dll loc) h = freeProv nc h"
  "stubs_ok nc dll loc \<Longrightarrow> freeKey (via nc dll loc) h = freeKey nc h"
  by (auto simp: freeProv_def freeKey_def stubs_ok_def call_FreeObject_eq intro!: ext)

lemma via_openProvider:
  assumes "stubs_ok nc dll loc"
  shows "openProvider (via nc dll loc) = openProvider nc"
  unfolding openProvider_def
  by (intro gbind_utf16_cong [OF assms] gbind_status_cong [where R = "(=)"])
    (use assms in \<open>simp_all add: stubs_ok_def agree_OpenStorageProvider\<close>)

lemma via_export:
  assumes ok: "stubs_ok nc dll loc"
  shows "exportECCPublicKey (via nc dll loc) h = exportECCPublicKey nc h"
proof -
  have a: "agree (same_output buf) (call_ExportKey dll loc h us buf) (nCryptExportKey nc h us buf)"
    if "0 \<notin> set us" "case buf of None \<Rightarrow> True | Some n \<Rightarrow> n < 2 ^ 32" for us buf
    using ok that by (simp add: stubs_ok_def agree_ExportKey)
  have filled: "gbind (key_call h m (call_ExportKey dll loc h us (Some (unat cb))))
      (\<lambda>(bs, _). k (filled (unat cb) bs)) =
    gbind (key_call h m (nCryptExportKey nc h us (Some (unat cb)))) (\<lambda>(bs, _). k (filled (unat cb) bs))"
    if "0 \<notin> set us" for us m and cb :: "32 word" and k :: "bytes \<Rightarrow> ('a win, ecdsa_pub) go"
    by (rule gbind_key_cong [OF a [OF that]])
      (use unsigned_less [of cb] in \<open>auto simp: same_output_def\<close>)
  show ?thesis
    unfolding exportECCPublicKey_def via_sel
  proof (rule gbind_utf16_cong [OF ok])
    fix us :: utf16 assume us: "0 \<notin> set us"
    show "gbind (key_call h ''export key (size): 0x%08x'' (call_ExportKey dll loc h us None))
        (\<lambda>(_, cb). if cb = 0 then panic ''index out of range [0] with length 0''
          else gbind (key_call h ''export key: 0x%08x'' (call_ExportKey dll loc h us (Some (unat cb))))
            (\<lambda>(bs, _). on_err (Wrapf ''parse ECC public blob: %w'' [])
              (of_sum (parseECCPublicBlob (filled (unat cb) bs))))) =
      gbind (key_call h ''export key (size): 0x%08x'' (nCryptExportKey nc h us None))
        (\<lambda>(_, cb). if cb = 0 then panic ''index out of range [0] with length 0''
          else gbind (key_call h ''export key: 0x%08x'' (nCryptExportKey nc h us (Some (unat cb))))
            (\<lambda>(bs, _). on_err (Wrapf ''parse ECC public blob: %w'' [])
              (of_sum (parseECCPublicBlob (filled (unat cb) bs)))))"
      by (rule gbind_key_cong [OF a [OF us]])
        (auto simp: same_output_def intro!: filled [OF us, where
          k = "\<lambda>bs. on_err (Wrapf ''parse ECC public blob: %w'' []) (of_sum (parseECCPublicBlob bs))"])
  qed
qed

lemma via_signHash:
  assumes ok: "stubs_ok nc dll loc" and "length digest < 2 ^ 32"
  shows "signHash (via nc dll loc) h digest = signHash nc h digest"
proof -
  have a: "agree (same_output buf) (call_SignHash dll loc h digest buf) (nCryptSignHash nc h digest buf)"
    if "case buf of None \<Rightarrow> True | Some n \<Rightarrow> n < 2 ^ 32" for buf
    using ok that assms(2) by (simp add: stubs_ok_def agree_SignHash)
  have filled: "gbind (key_call h m (call_SignHash dll loc h digest (Some (unat cb))))
      (\<lambda>(bs, cb2). k (filled (unat cb) bs) cb2) =
    gbind (key_call h m (nCryptSignHash nc h digest (Some (unat cb)))) (\<lambda>(bs, cb2). k (filled (unat cb) bs) cb2)"
    for m and cb :: "32 word" and k :: "bytes \<Rightarrow> 32 word \<Rightarrow> ('a win, bytes) go"
    by (rule gbind_key_cong [OF a])
      (use unsigned_less [of cb] in \<open>auto simp: same_output_def\<close>)
  show ?thesis
    unfolding signHash_def via_sel
    by (rule gbind_key_cong [OF a])
      (auto simp: same_output_def intro!: filled
        [where k = "\<lambda>bs cb2. if unat cb < unat cb2 then panic p else ret (take (unat cb2) bs)" for cb p])
qed

lemma via_deleteHandle:
  assumes ok: "stubs_ok nc dll loc"
  shows "deleteHandle (via nc dll loc) h = deleteHandle nc h"
proof
  fix w
  have "call_DeleteKey dll h d = nCryptDeleteKey nc h d" for d
    using ok by (simp add: stubs_ok_def call_DeleteKey_eq)
  then show "deleteHandle (via nc dll loc) h w = deleteHandle nc h w"
    by (simp add: deleteHandle_def via_free [OF ok] Let_def split: prod.split)
qed

lemma via_createKey:
  assumes ok: "stubs_ok nc dll loc"
  shows "createKey_windows (via nc dll loc) name = createKey_windows nc name"
proof -
  have inner: "gbind (utf16ptr (via nc dll loc) m s) (\<lambda>us.
      gbind (key_call h m1 (call_SetProperty dll loc h us (put_le32 2))) (\<lambda>_.
      gbind (key_call h m2 (call_FinalizeKey dll h)) (\<lambda>_. gbind (exportECCPublicKey nc h) k))) =
    gbind (utf16ptr nc m s) (\<lambda>us.
      gbind (key_call h m1 (nCryptSetProperty nc h us (put_le32 2))) (\<lambda>_.
      gbind (key_call h m2 (nCryptFinalizeKey nc h)) (\<lambda>_. gbind (exportECCPublicKey nc h) k)))"
    for m s m1 m2 h and k :: "ecdsa_pub \<Rightarrow> ('a win, tpm_signer_windows) go"
    by (intro gbind_utf16_cong [OF ok] gbind_key_cong [where R = "(=)"] refl)
      (use ok in \<open>simp_all add: stubs_ok_def agree_SetProperty agree_FinalizeKey\<close>)
  show ?thesis
    unfolding createKey_windows_def via_openProvider [OF ok] via_free [OF ok] via_export [OF ok] via_sel inner
    by (intro arg_cong2 [where f = gbind] refl ext arg_cong2 [where f = unless_success]
        fun_cong [OF gbind_utf16_cong [OF ok]] gbind_utf16_cong [OF ok] gbind_status_cong [where R = "(=)"])
      (use ok in \<open>simp_all add: stubs_ok_def agree_CreatePersistedKey\<close>)
qed

lemma via_loadKey:
  assumes ok: "stubs_ok nc dll loc"
  shows "loadKey_windows (via nc dll loc) name = loadKey_windows nc name"
  unfolding loadKey_windows_def via_openProvider [OF ok] via_free [OF ok] via_export [OF ok] via_sel
  by (intro arg_cong2 [where f = gbind] refl ext arg_cong2 [where f = unless_success]
      fun_cong [OF gbind_utf16_cong [OF ok]] gbind_status_cong [where R = "(=)"])
    (use ok in \<open>simp_all add: stubs_ok_def agree_OpenKey\<close>)

lemma via_deleteKey:
  assumes ok: "stubs_ok nc dll loc"
  shows "deleteKey_windows (via nc dll loc) name = deleteKey_windows nc name"
  unfolding deleteKey_windows_def via_openProvider [OF ok] via_free [OF ok] via_deleteHandle [OF ok] via_sel
  by (intro arg_cong2 [where f = gbind] refl ext arg_cong2 [where f = deferred]
      fun_cong [OF gbind_utf16_cong [OF ok]] gbind_status_cong [where R = "(=)"])
    (use ok in \<open>simp_all add: stubs_ok_def agree_OpenKey\<close>)

lemma via_Sign:
  assumes ok: "stubs_ok nc dll loc"
  shows "tpmSigner_Sign_windows (via nc dll loc) s digest opts = tpmSigner_Sign_windows nc s digest opts"
proof -
  have "hash_size h < 2 ^ 32" for h by (cases h) simp_all
  then have "signHash (via nc dll loc) k digest = signHash nc k digest" if "length digest = hash_size h" for h k
    using via_signHash [OF ok] that by metis
  then show ?thesis by (auto simp: tpmSigner_Sign_windows_def split: signer_opts.split)
qed

lemma via_Close:
  "stubs_ok nc dll loc \<Longrightarrow> tpmSigner_Close_windows (via nc dll loc) = tpmSigner_Close_windows nc"
  by (rule ext) (simp add: tpmSigner_Close_windows_def via_free split: prod.split)

text \<open>
  C21: the Windows backend over the generated stubs is the backend over the typed provider calls: with
  a library that follows the documented calling convention, objects at different addresses, and strings that
  \<^verbatim>\<open>UTF16PtrFromString\<close> converts to units without a null, every operation passes the right arguments in the
  right order and reads its results back whole.
\<close>

theorem windows_stubs_refine:
  assumes "stubs_ok nc dll loc"
  shows "windows_backend (ncrypt_of (UTF16PtrFromString nc) dll loc) = windows_backend nc"
  using via_createKey [OF assms] via_loadKey [OF assms] via_deleteKey [OF assms] via_Sign [OF assms]
    via_Close [OF assms]
  by (auto simp: windows_backend_def intro!: ext)

section \<open>A library that follows the convention\<close>

text \<open>It decodes its arguments and refuses flags; the high half of the word it returns is not zero.\<close>

definition reply ::
    "(security_status \<times> 'a) \<times> 'd \<Rightarrow> ('a \<Rightarrow> memory) \<Rightarrow> (uintptr \<times> memory) \<times> 'd" where
  "reply a out = (case a of ((st, x), d) \<Rightarrow> ((push_bit 32 1 OR ucast st, out x), d))"

definition wide_in :: "memory \<Rightarrow> uintptr \<Rightarrow> utf16" where
  "wide_in mem p = read_wide (object_at mem p)"

definition buffer_size :: "uintptr \<Rightarrow> uintptr \<Rightarrow> nat option" where
  "buffer_size pb n = (if pb = 0 then None else Some (unat n))"

definition write_out :: "memory \<Rightarrow> uintptr \<Rightarrow> uintptr \<Rightarrow> bytes \<times> 32 word \<Rightarrow> memory" where
  "write_out mem pb pc x =
     (if pb = 0 then mem else mem(pb \<mapsto> poke (object_at mem pb) (fst x)))(pc \<mapsto> put_word 4 (snd x))"

fun dll_of :: "'d ncrypt \<Rightarrow> 'd dll" where
  "dll_of nc f [h] mem d =
     (if f = ''NCryptFreeObject'' then (case nCryptFreeObject nc h d of (st, d') \<Rightarrow> reply ((st, ()), d') (\<lambda>_. mem))
      else ((0x80090009, mem), d))"
| "dll_of nc f [h, fl] mem d =
     (if fl \<noteq> 0 then ((0x80090009, mem), d)
      else if f = ''NCryptDeleteKey'' then (case nCryptDeleteKey nc h d of (st, d') \<Rightarrow> reply ((st, ()), d') (\<lambda>_. mem))
      else if f = ''NCryptFinalizeKey'' then reply (nCryptFinalizeKey nc h d) (\<lambda>_. mem)
      else ((0x80090009, mem), d))"
| "dll_of nc f [ph, pn, fl] mem d =
     (if f = ''NCryptOpenStorageProvider'' \<and> fl = 0
      then reply (nCryptOpenStorageProvider nc (wide_in mem pn) d) (\<lambda>h. mem(ph \<mapsto> put_word 8 h))
      else ((0x80090009, mem), d))"
| "dll_of nc f [a, b, c, e, fl] mem d =
     (if fl \<noteq> 0 then ((0x80090009, mem), d)
      else if f = ''NCryptOpenKey'' \<and> e = 0
      then reply (nCryptOpenKey nc a (wide_in mem c) d) (\<lambda>h. mem(b \<mapsto> put_word 8 h))
      else if f = ''NCryptSetProperty''
      then reply (nCryptSetProperty nc a (wide_in mem b) (take (unat e) (object_at mem c)) d) (\<lambda>_. mem)
      else ((0x80090009, mem), d))"
| "dll_of nc f [p, ph, pa, pn, spec, fl] mem d =
     (if f = ''NCryptCreatePersistedKey'' \<and> spec = 0 \<and> fl = 0
      then reply (nCryptCreatePersistedKey nc p (wide_in mem pa) (wide_in mem pn) d) (\<lambda>h. mem(ph \<mapsto> put_word 8 h))
      else ((0x80090009, mem), d))"
| "dll_of nc f [h, a, b, c, pb, n, pc, fl] mem d =
     (if fl \<noteq> 0 then ((0x80090009, mem), d)
      else if f = ''NCryptExportKey'' \<and> a = 0 \<and> c = 0
      then reply (nCryptExportKey nc h (wide_in mem b) (buffer_size pb n) d) (write_out mem pb pc)
      else if f = ''NCryptSignHash'' \<and> a = 0
      then reply (nCryptSignHash nc h (take (unat c) (object_at mem b)) (buffer_size pb n) d) (write_out mem pb pc)
      else ((0x80090009, mem), d))"
| "dll_of nc f _ mem d = ((0x80090009, mem), d)"

lemma answers_reply: "(\<And>x. wrote x (out x)) \<Longrightarrow> answers a (reply a out) wrote"
proof -
  have "ucast (push_bit 32 v OR ucast st :: uintptr) = st" for v :: uintptr and st :: security_status
    by (rule bit_word_eqI) (auto simp: bit_simps)
  from this [of 1] show "(\<And>x. wrote x (out x)) \<Longrightarrow> ?thesis" by (auto simp: answers_def reply_def split: prod.split)
qed

lemma wide_in: "wide_at mem p us \<Longrightarrow> wide_in mem p = us"
  by (simp add: wide_at_def wide_in_def object_at_def read_wide)

lemma dll_of_abi: "ncrypt_abi nc (dll_of nc)"
proof -
  have "handle_abi nc (dll_of nc)"
    by (auto simp: handle_abi_def wide_in intro!: answers_reply)
  moreover have "key_abi nc (dll_of nc)"
    by (auto simp: key_abi_def wide_in object_at_def split: prod.split intro!: answers_reply)
  moreover have "output_abi (nCryptExportKey nc h) (\<lambda>mem name. wide_at mem pn name)
      (\<lambda>pb n pc. dll_of nc ''NCryptExportKey'' [h, 0, pn, 0, pb, n, pc, 0])" for h pn
    by (auto simp: output_abi_def wide_in buffer_size_def write_out_def object_at_def intro!: answers_reply)
  moreover have "output_abi (nCryptSignHash nc h) (\<lambda>mem digest. pd \<noteq> 0 \<and> mem pd = Some digest \<and> unat m = length digest)
      (\<lambda>pb n pc. dll_of nc ''NCryptSignHash'' [h, 0, pd, m, pb, n, pc, 0])" for h pd m
    by (auto simp: output_abi_def buffer_size_def write_out_def object_at_def intro!: answers_reply)
  ultimately show ?thesis by (simp add: ncrypt_abi_def)
qed

definition page :: "nat \<Rightarrow> uintptr" where "page i = word_of_nat (0x1000 * (i + 1))"

theorem windows_stubs_refine_witness:
  "windows_backend (ncrypt_of (UTF16PtrFromString soft_provider) (dll_of soft_provider) page) = windows_backend soft_provider"
proof (rule windows_stubs_refine)
  have "good_loc page" by (simp add: good_loc_def page_def)
  moreover have "0 \<notin> set us" if "UTF16PtrFromString soft_provider s = Inr us" for s us
  proof
    assume "0 \<in> set us"
    with that obtain c where c: "c \<in> set s" "(word_of_nat (of_char c) :: 16 word) = 0" "CHR 0x00 \<notin> set s"
      by (auto simp: soft_provider_def split: if_splits)
    from c(2) have "2 ^ 16 dvd (of_char c :: nat)" by (simp add: word_of_nat_eq_0_iff)
    with of_char_less [of c] have z: "(of_char c :: nat) = 0"
      using nat_dvd_not_less [of "of_char c" "2 ^ 16"] by fastforce
    have "c = char_of (of_char c :: nat)" by simp
    then have "c = CHR 0x00" unfolding z by (simp add: char_of_def)
    with c show False by simp
  qed
  ultimately show "stubs_ok soft_provider (dll_of soft_provider) page"
    using dll_of_abi by (simp add: stubs_ok_def)
qed

end
