(* ===== verification/Interleave.thy ===== *)
theory Interleave
  imports KeyTable "HOL-Library.Sublist"
begin

text \<open>
  Calls as interruptible programs: a program is an outcome, or an atomic step on the world followed by a
  program that depends on what the step saw. \<open>run\<close> executes one without interruption and gives back a call
  as the rest of the development has them, so that a program is faithful to the code when \<open>run\<close> of it is the
  code's call. A pool holds any number of operations, each started at any time and advanced one atomic step at
  a time, in any order.

  The locale \<open>ownership\<close> is the contract under which interleaved operations on a shared table of keys behave as
  if they ran one after another: what each operation owns, what it relies on the others for and what it
  guarantees them. Its main lemma takes operations proved one at a time (\<open>safe\<close>) and gives every history a
  sequence of table operations that explains it.
\<close>

section \<open>Programs\<close>

datatype ('w, 'a) prog = Finish "'a outcome" | Atom "'w \<Rightarrow> 'w" "'w \<Rightarrow> ('w, 'a) prog"

primrec run :: "('w, 'a) prog \<Rightarrow> ('w, 'a) go" where
  "run (Finish r) = (\<lambda>w. (r, w))"
| "run (Atom f k) = (\<lambda>w. run (k w) (f w))"

text \<open>One call that is a single step.\<close>

definition atomic :: "('w, 'a) go \<Rightarrow> ('w, 'a) prog" where
  "atomic f = Atom (\<lambda>w. snd (f w)) (\<lambda>w. Finish (fst (f w)))"

primrec pthen :: "('w, 'a) prog \<Rightarrow> ('a outcome \<Rightarrow> ('w, 'b) prog) \<Rightarrow> ('w, 'b) prog" where
  "pthen (Finish r) h = h r"
| "pthen (Atom f k) h = Atom f (\<lambda>w. pthen (k w) h)"

text \<open>The connectives of \<open>Prelude\<close> on programs.\<close>

definition pbind :: "('w, 'a) prog \<Rightarrow> ('a \<Rightarrow> ('w, 'b) prog) \<Rightarrow> ('w, 'b) prog" where
  "pbind p g = pthen p (\<lambda>r. case r of Ret x \<Rightarrow> g x | Fail e \<Rightarrow> Finish (Fail e) | Panic s \<Rightarrow> Finish (Panic s))"

definition pon_err :: "(go_err \<Rightarrow> go_err) \<Rightarrow> ('w, 'a) prog \<Rightarrow> ('w, 'a) prog" where
  "pon_err h p = pthen p (\<lambda>r. Finish (case r of Ret x \<Rightarrow> Ret x | Fail e \<Rightarrow> Fail (h e) | Panic s \<Rightarrow> Panic s))"

definition pignore :: "('w, 'a) prog \<Rightarrow> ('w, unit) prog" where
  "pignore p = pthen p (\<lambda>_. Finish (Ret ()))"

definition pof_sum :: "go_err + 'a \<Rightarrow> ('w, 'a) prog" where
  "pof_sum x = Finish (case x of Inl e \<Rightarrow> Fail e | Inr v \<Rightarrow> Ret v)"

text \<open>\<^verbatim>\<open>defer\<close>: the deferred program runs on every outcome, its own outcome is dropped.\<close>

definition pdefer :: "('a outcome \<Rightarrow> ('w, unit) prog) \<Rightarrow> ('w, 'a) prog \<Rightarrow> ('w, 'a) prog" where
  "pdefer d p = pthen p (\<lambda>r. pthen (d r) (\<lambda>_. Finish r))"

lemma run_atomic [simp]: "run (atomic f) = f"
  by (simp add: atomic_def)

lemma run_pthen [simp]: "run (pthen p h) = (\<lambda>w. case run p w of (r, w1) \<Rightarrow> run (h r) w1)"
  by (induction p) (simp_all add: fun_eq_iff)

lemma run_pbind [simp]: "run (pbind p g) = gbind (run p) (\<lambda>x. run (g x))"
  by (auto simp: pbind_def gbind_def fun_eq_iff split: prod.split outcome.split)

lemma run_pon_err [simp]: "run (pon_err h p) = on_err h (run p)"
  by (auto simp: pon_err_def on_err_def fun_eq_iff split: prod.split outcome.split)

lemma run_pignore [simp]: "run (pignore p) = ignore (run p)"
  by (auto simp: pignore_def ignore_def fun_eq_iff split: prod.split)

lemma run_pof_sum [simp]: "run (pof_sum x) = of_sum x"
  by (auto simp: pof_sum_def of_sum_def ret_def fail_def fun_eq_iff split: sum.split)

lemma run_pdefer [simp]: "run (pdefer d p) = deferred (\<lambda>r w. snd (run (d r) w)) (run p)"
  by (auto simp: pdefer_def deferred_def fun_eq_iff split: prod.split)

section \<open>Pools\<close>

type_synonym ('o, 'w, 'a) pool = "nat \<Rightarrow> ('o \<times> ('w, 'a) prog) option"

inductive pool_step ::
    "('o \<Rightarrow> ('w, 'a) prog) \<Rightarrow> 'w \<times> ('o, 'w, 'a) pool \<Rightarrow> 'w \<times> ('o, 'w, 'a) pool \<Rightarrow> bool"
  for prog_of :: "'o \<Rightarrow> ('w, 'a) prog" where
  spawn: "T i = None \<Longrightarrow> pool_step prog_of (w, T) (w, T(i \<mapsto> (op, prog_of op)))"
| advance: "T i = Some (op, Atom f k) \<Longrightarrow> pool_step prog_of (w, T) (f w, T(i \<mapsto> (op, k w)))"

inductive_cases pool_stepE: "pool_step prog_of (w, T) c"

text \<open>A history: the states a pool goes through, which may pause for any time.\<close>

definition history :: "('o \<Rightarrow> ('w, 'a) prog) \<Rightarrow> 'w \<Rightarrow> (nat \<Rightarrow> 'w \<times> ('o, 'w, 'a) pool) \<Rightarrow> bool" where
  "history prog_of w0 c \<longleftrightarrow>
     c 0 = (w0, Map.empty) \<and> (\<forall>k. c (Suc k) = c k \<or> pool_step prog_of (c k) (c (Suc k)))"

lemma history_step: "history P w0 c \<Longrightarrow> c (Suc k) = c k \<or> pool_step P (c k) (c (Suc k))"
  by (simp add: history_def)

section \<open>Schedules\<close>

text \<open>Whose turn it is, with the operation a thread starts with when it has not started.\<close>

fun turn ::
    "('o \<Rightarrow> ('w, 'a) prog) \<Rightarrow> nat \<times> 'o \<Rightarrow> 'w \<times> ('o, 'w, 'a) pool \<Rightarrow> 'w \<times> ('o, 'w, 'a) pool" where
  "turn P (i, op) (w, T) =
     (case T i of
        None \<Rightarrow> (w, T(i \<mapsto> (op, P op)))
      | Some (op', Finish r) \<Rightarrow> (w, T)
      | Some (op', Atom f k) \<Rightarrow> (f w, T(i \<mapsto> (op', k w))))"

primrec played ::
    "('o \<Rightarrow> ('w, 'a) prog) \<Rightarrow> 'w \<Rightarrow> (nat \<Rightarrow> nat \<times> 'o) \<Rightarrow> nat \<Rightarrow> 'w \<times> ('o, 'w, 'a) pool" where
  "played P w0 s 0 = (w0, Map.empty)"
| "played P w0 s (Suc n) = turn P (s n) (played P w0 s n)"

lemma turn_step: "turn P t c = c \<or> pool_step P c (turn P t c)"
  by (cases t; cases c) (auto intro: pool_step.intros split: option.split prod.split prog.split)

lemma history_played: "history P w0 (played P w0 s)"
  by (simp add: history_def turn_step)

text \<open>A state that some history goes through, and a thread that runs alone from it to its end.\<close>

definition reached :: "('o \<Rightarrow> ('w, 'a) prog) \<Rightarrow> 'w \<Rightarrow> 'w \<times> ('o, 'w, 'a) pool \<Rightarrow> bool" where
  "reached P w0 x \<longleftrightarrow> (\<exists>c n. history P w0 c \<and> c n = x)"

lemma reached_start: "reached P w0 (w0, Map.empty)"
  by (auto simp: reached_def history_def intro: exI [of _ "\<lambda>_. (w0, Map.empty)"])

lemma reached_step:
  assumes "reached P w0 x" and "pool_step P x y"
  shows "reached P w0 y"
proof -
  from assms(1) obtain c n where c: "history P w0 c" "c n = x" by (auto simp: reached_def)
  let ?c = "\<lambda>k. if k \<le> n then c k else y"
  have "history P w0 ?c"
    using c assms(2) by (auto simp: history_def not_less_eq_eq le_Suc_eq)
  then show ?thesis unfolding reached_def by (intro exI [of _ ?c] exI [of _ "Suc n"]) simp
qed

lemma reached_advance:
  "reached P w0 (w, T(i \<mapsto> (op, p))) \<Longrightarrow> reached P w0 (snd (run p w), T(i \<mapsto> (op, Finish (fst (run p w)))))"
proof (induction p arbitrary: w)
  case (Finish r)
  then show ?case by simp
next
  case (Atom f k)
  have "pool_step P (w, T(i \<mapsto> (op, Atom f k))) (f w, (T(i \<mapsto> (op, Atom f k)))(i \<mapsto> (op, k w)))"
    by (rule advance) simp
  from reached_step [OF Atom.prems this] have "reached P w0 (f w, T(i \<mapsto> (op, k w)))" by simp
  from Atom.IH [OF rangeI this] show ?case by simp
qed

lemma reached_run:
  assumes "reached P w0 (w, T)" and "T i = None" and "run (P op) w = (r, w')"
  shows "reached P w0 (w', T(i \<mapsto> (op, Finish r)))"
proof -
  have "pool_step P (w, T) (w, T(i \<mapsto> (op, P op)))" using assms(2) by (rule spawn)
  from reached_advance [OF reached_step [OF assms(1) this]] assms(3) show ?thesis by simp
qed

section \<open>Bounded programs\<close>

text \<open>At most so many steps, whatever they see.\<close>

primrec within :: "('w, 'a) prog \<Rightarrow> nat \<Rightarrow> bool" where
  "within (Finish r) n = True"
| "within (Atom f k) n = (\<exists>m. n = Suc m \<and> (\<forall>w. within (k w) m))"

lemma within_mono: "within p n \<Longrightarrow> n \<le> m \<Longrightarrow> within p m"
proof (induction p arbitrary: n m)
  case (Atom f k)
  from Atom.prems(1) obtain n' where n: "n = Suc n'" "\<And>w. within (k w) n'" by auto
  from Atom.prems(2) n(1) obtain m' where m: "m = Suc m'" "n' \<le> m'" by (cases m) simp_all
  have "within (k w) m'" for w by (rule Atom.IH [OF rangeI n(2) m(2)])
  with m(1) show ?case by simp
qed simp

lemma within_pthen: "within p n \<Longrightarrow> (\<And>r. within (h r) m) \<Longrightarrow> within (pthen p h) (n + m)"
proof (induction p arbitrary: n)
  case (Finish r)
  then show ?case by (simp add: within_mono [OF Finish.prems(2)])
qed auto

lemma within_eq: "within p n \<Longrightarrow> n = m \<Longrightarrow> within p m"
  by simp

lemma within_pthen_last: "within p n \<Longrightarrow> (\<And>r. within (h r) 0) \<Longrightarrow> within (pthen p h) n"
  using within_pthen [of p n h 0] by simp

lemma within_atomic: "within (atomic f) 1"
  by (simp add: atomic_def)

lemma within_pbind: "within p n \<Longrightarrow> (\<And>x. within (g x) m) \<Longrightarrow> within (pbind p g) (n + m)"
  unfolding pbind_def by (rule within_pthen) (auto split: outcome.split)

lemma within_pon_err: "within p n \<Longrightarrow> within (pon_err h p) n"
  unfolding pon_err_def by (rule within_pthen_last) simp_all

lemma within_pignore: "within p n \<Longrightarrow> within (pignore p) n"
  unfolding pignore_def by (rule within_pthen_last) simp_all

lemma within_pdefer: "within p n \<Longrightarrow> (\<And>r. within (d r) m) \<Longrightarrow> within (pdefer d p) (n + m)"
  unfolding pdefer_def by (intro within_pthen within_pthen_last) simp_all

text \<open>A step of one thread.\<close>

definition moved :: "nat \<Rightarrow> 'w \<times> ('o, 'w, 'a) pool \<Rightarrow> 'w \<times> ('o, 'w, 'a) pool \<Rightarrow> bool" where
  "moved i x y \<longleftrightarrow> (\<exists>op f k. snd x i = Some (op, Atom f k) \<and> y = (f (fst x), (snd x)(i \<mapsto> (op, k (fst x)))))"

definition turns :: "nat \<Rightarrow> (nat \<Rightarrow> 'w \<times> ('o, 'w, 'a) pool) \<Rightarrow> nat \<Rightarrow> nat" where
  "turns i c n = length (filter (\<lambda>k. moved i (c k) (c (Suc k))) [0..<n])"

lemma turns_simps [simp]:
  "turns i c 0 = 0" "turns i c (Suc n) = turns i c n + of_bool (moved i (c n) (c (Suc n)))"
  by (simp_all add: turns_def)

lemma unmoved:
  assumes "c (Suc k) = c k \<or> pool_step P (c k) (c (Suc k))" and "\<not> moved i (c k) (c (Suc k))"
  shows "snd (c (Suc k)) i = snd (c k) i \<or> snd (c k) i = None \<and> (\<exists>op. snd (c (Suc k)) i = Some (op, P op))"
proof (cases "c (Suc k) = c k")
  case False
  obtain w T where c: "c k = (w, T)" by fastforce
  from assms(1) False have "pool_step P (w, T) (c (Suc k))" by (simp add: c)
  then show ?thesis
  proof cases
    case (spawn j op)
    then show ?thesis by (simp add: c)
  next
    case (advance j op f k)
    with assms(2) show ?thesis by (auto simp: c moved_def)
  qed
qed simp

lemma bounded_turns:
  assumes h: "history P w0 c" and B: "\<And>op. within (P op) (B op)"
  shows "case snd (c n) i of None \<Rightarrow> turns i c n = 0
    | Some (op, p) \<Rightarrow> \<exists>m. within p m \<and> turns i c n + m \<le> B op"
proof (induction n)
  case 0
  show ?case using h by (simp add: history_def)
next
  case (Suc n)
  show ?case
  proof (cases "moved i (c n) (c (Suc n))")
    case True
    then obtain op f k where k: "snd (c n) i = Some (op, Atom f k)" "snd (c (Suc n)) i = Some (op, k (fst (c n)))"
      by (auto simp: moved_def)
    with Suc obtain m where "\<forall>w. within (k w) m" "turns i c n + Suc m \<le> B op" by auto
    with k True show ?thesis by (auto intro!: exI [of _ m])
  next
    case False
    then have t: "turns i c (Suc n) = turns i c n" by simp
    from unmoved [OF history_step [OF h] False] show ?thesis
    proof
      assume "snd (c (Suc n)) i = snd (c n) i"
      with Suc show ?thesis by (simp only: t)
    next
      assume "snd (c n) i = None \<and> (\<exists>op. snd (c (Suc n)) i = Some (op, P op))"
      then obtain op where "snd (c n) i = None" "snd (c (Suc n)) i = Some (op, P op)" by blast
      with Suc show ?thesis by (auto simp only: t option.case prod.case intro!: exI [of _ "B op"] B)
    qed
  qed
qed

lemma ended_or_moves:
  assumes "snd x i = Some (op, p)"
  shows "(\<exists>r. p = Finish r) \<or> (\<exists>y. pool_step P x y \<and> moved i x y)"
proof (cases p)
  case (Atom f k)
  let ?y = "(f (fst x), (snd x)(i \<mapsto> (op, k (fst x))))"
  have "pool_step P (fst x, snd x) ?y" using assms Atom by (intro advance) simp
  moreover have "moved i x ?y" using assms Atom by (auto simp: moved_def)
  ultimately show ?thesis by auto
qed simp

section \<open>Linearisation\<close>

text \<open>Operations end with a value of the table; insertions and deletions with any.\<close>

type_synonym ('k, 'v, 'w) table_pool = "(('k, 'v) table_op, 'w, 'v) pool"

type_synonym ('k, 'v) entries = "(nat \<times> ('k, 'v) table_op \<times> 'v table_result) list"

definition answered :: "('k, 'v) table_op \<Rightarrow> 'v outcome \<Rightarrow> 'v table_result set \<Rightarrow> bool" where
  "answered op r R \<longleftrightarrow>
     (case op of Lookup k \<Rightarrow> (\<forall>v. r = Ret v \<longrightarrow> Found v \<in> R) | _ \<Rightarrow> returned r \<longleftrightarrow> Done \<in> R)"

text \<open>
  \<open>L\<close> explains a state: running its operations one after another from the first table, with the results it
  gives, leads to the present table; it has at most one entry for each operation, none for one that has not
  started; an insertion or deletion that has ended has an entry exactly when it succeeded, and a lookup that
  found a value has the entry with that value.
\<close>

definition linearizes ::
    "('w \<Rightarrow> 'k \<Rightarrow> 'v option) \<Rightarrow> 'w \<Rightarrow> 'w \<times> ('k, 'v, 'w) table_pool \<Rightarrow> ('k, 'v) entries \<Rightarrow> bool" where
  "linearizes view w0 c L \<longleftrightarrow>
     table_run (view w0) (map (\<lambda>(i, op, res). op) L) (map (\<lambda>(i, op, res). res) L) = Some (view (fst c)) \<and>
     distinct (map fst L) \<and>
     (\<forall>(i, op, res) \<in> set L. res \<noteq> Refused \<and> (\<exists>p. snd c i = Some (op, p))) \<and>
     (\<forall>i op r. snd c i = Some (op, Finish r) \<longrightarrow> answered op r {res. (i, op, res) \<in> set L})"

text \<open>
  As long as nobody deletes the key, one insertion of it succeeds at most, the table keeps what it put there
  and lookups find nothing else.
\<close>

lemma table_run_kept:
  assumes "table_run m (map (\<lambda>(i, op, res). op) L) (map (\<lambda>(i, op, res). res) L) = Some m'"
    and "\<forall>(i, op, res) \<in> set L. op \<noteq> Delete k" and "m k = Some v"
  shows "m' k = Some v \<and> (\<forall>j v'. (j, Insert k v', Done) \<notin> set L) \<and>
    (\<forall>j v'. (j, Lookup k, Found v') \<in> set L \<longrightarrow> v' = v)"
  using assms
proof (induction L arbitrary: m)
  case (Cons x L)
  obtain i op res where x: "x = (i, op, res)" by (cases x)
  from Cons.prems(1) x obtain m1 where s: "table_step m op res = Some m1"
    and r: "table_run m1 (map (\<lambda>(i, op, res). op) L) (map (\<lambda>(i, op, res). res) L) = Some m'"
    by (auto split: option.splits)
  have k: "m1 k = Some v" "\<nexists>v'. op = Insert k v' \<and> res = Done" "\<And>v'. op = Lookup k \<Longrightarrow> res = Found v' \<Longrightarrow> v' = v"
    using s Cons.prems(2,3) x by (cases op; cases res; auto split: if_splits)+
  from Cons.IH [OF r _ k(1)] Cons.prems(2) k(2,3) x show ?case by auto
qed simp

lemma table_run_inserted:
  assumes "table_run m (map (\<lambda>(i, op, res). op) L) (map (\<lambda>(i, op, res). res) L) = Some m'"
    and "\<forall>(i, op, res) \<in> set L. op \<noteq> Delete k" and "(i, Insert k v, Done) \<in> set L"
  shows "m' k = Some v \<and> (\<forall>j v'. (j, Insert k v', Done) \<in> set L \<longrightarrow> j = i) \<and>
    (\<forall>j v'. (j, Lookup k, Found v') \<in> set L \<longrightarrow> v' = v)"
  using assms
proof (induction L arbitrary: m)
  case (Cons x L)
  obtain j op res where x: "x = (j, op, res)" by (cases x)
  from Cons.prems(1) x obtain m1 where s: "table_step m op res = Some m1"
    and r: "table_run m1 (map (\<lambda>(i, op, res). op) L) (map (\<lambda>(i, op, res). res) L) = Some m'"
    by (auto split: option.splits)
  have d: "\<forall>(i, op, res) \<in> set L. op \<noteq> Delete k" using Cons.prems(2) by simp
  show ?case
  proof (cases "x = (i, Insert k v, Done)")
    case True
    with s x have "m1 k = Some v" by (auto split: if_splits)
    from table_run_kept [OF r d this] True show ?thesis by auto
  next
    case False
    with Cons.prems(3) have i: "(i, Insert k v, Done) \<in> set L" by auto
    have "m1 k = None"
    proof (cases "m1 k")
      case (Some u)
      from table_run_kept [OF r d this] i show ?thesis by blast
    qed
    have "x \<noteq> (j', Insert k v', Done)" "x \<noteq> (j', Lookup k, Found v')" for j' v'
      using s x \<open>m1 k = None\<close> by (auto split: if_splits)
    then have n: "(j', Insert k v', Done) \<in> set (x # L) \<longleftrightarrow> (j', Insert k v', Done) \<in> set L"
      "(j', Lookup k, Found v') \<in> set (x # L) \<longleftrightarrow> (j', Lookup k, Found v') \<in> set L" for j' v' by auto
    from Cons.IH [OF r d i] show ?thesis unfolding n .
  qed
qed simp

lemma linearizes_sole_insert:
  assumes L: "linearizes view w0 c L" and i: "snd c i = Some (Insert k v, Finish r)" "returned r"
    and d: "\<forall>j p. snd c j \<noteq> Some (Delete k, p)"
  shows "view (fst c) k = Some v \<and>
    (\<forall>j v' r'. snd c j = Some (Insert k v', Finish r') \<and> returned r' \<longrightarrow> j = i) \<and>
    (\<forall>j v'. snd c j = Some (Lookup k, Finish (Ret v')) \<longrightarrow> v' = v)"
proof -
  have a: "answered op r' {res. (j, op, res) \<in> set L}" if "snd c j = Some (op, Finish r')" for j op r'
    using L that by (simp add: linearizes_def)
  have n: "\<forall>(i, op, res) \<in> set L. op \<noteq> Delete k" using L d by (fastforce simp: linearizes_def)
  have i': "(i, Insert k v, Done) \<in> set L" using a [OF i(1)] i(2) by (simp add: answered_def)
  have "table_run (view w0) (map (\<lambda>(i, op, res). op) L) (map (\<lambda>(i, op, res). res) L) = Some (view (fst c))"
    using L by (simp add: linearizes_def)
  from table_run_inserted [OF this n i'] have t: "view (fst c) k = Some v" "\<forall>j v'. (j, Insert k v', Done) \<in> set L \<longrightarrow> j = i"
    "\<forall>j v'. (j, Lookup k, Found v') \<in> set L \<longrightarrow> v' = v"
    by blast+
  have "(j, Insert k v', Done) \<in> set L" if "snd c j = Some (Insert k v', Finish r') \<and> returned r'" for j v' r'
    using a [OF conjunct1 [OF that]] that by (simp add: answered_def)
  with t(2) have "\<forall>j v' r'. snd c j = Some (Insert k v', Finish r') \<and> returned r' \<longrightarrow> j = i" by blast
  moreover have "(j, Lookup k, Found v') \<in> set L" if "snd c j = Some (Lookup k, Finish (Ret v'))" for j v'
    using a [OF that] by (simp add: answered_def)
  with t(3) have "\<forall>j v'. snd c j = Some (Lookup k, Finish (Ret v')) \<longrightarrow> v' = v" by blast
  ultimately show ?thesis using t(1) by (intro conjI)
qed

section \<open>Ownership\<close>

record ('w, 'x) discipline =
  valid :: "'x \<Rightarrow> 'w \<Rightarrow> bool"
  rely :: "'x \<Rightarrow> 'w \<Rightarrow> 'w \<Rightarrow> bool"
  guar :: "'x \<Rightarrow> 'x \<Rightarrow> 'w \<Rightarrow> 'w \<Rightarrow> bool"
  apart :: "'x \<Rightarrow> 'x \<Rightarrow> bool"
  nothing :: 'x

text \<open>A step may be the one moment at which the operation takes effect on the table.\<close>

definition effect ::
    "('w \<Rightarrow> 'k \<Rightarrow> 'v option) \<Rightarrow> ('k, 'v) table_op \<Rightarrow> 'v table_result option \<Rightarrow> 'v table_result option \<Rightarrow> 'w \<Rightarrow> 'w \<Rightarrow> bool" where
  "effect view op e e' w w' \<longleftrightarrow>
     e' = e \<and> view w' = view w \<or>
     e = None \<and> (\<exists>res. res \<noteq> Refused \<and> e' = Some res \<and> table_step (view w) op res = Some (view w'))"

text \<open>
  From \<open>w\<close>, owning \<open>X\<close>, the program keeps the discipline at each of its steps, whatever the others did in
  between, and ends in \<open>\<Phi>\<close>.
\<close>

primrec safe ::
    "('w, 'x) discipline \<Rightarrow> ('w \<Rightarrow> 'k \<Rightarrow> 'v option) \<Rightarrow> ('k, 'v) table_op
     \<Rightarrow> ('a outcome \<Rightarrow> 'x \<Rightarrow> 'v table_result option \<Rightarrow> 'w \<Rightarrow> bool)
     \<Rightarrow> ('w, 'a) prog \<Rightarrow> 'x \<Rightarrow> 'v table_result option \<Rightarrow> 'w \<Rightarrow> bool" where
  "safe D view op \<Phi> (Finish r) = (\<lambda>X e w. valid D X w \<and> \<Phi> r X e w)"
| "safe D view op \<Phi> (Atom f k) = (\<lambda>X e w. \<forall>w'. rely D X w w' \<and> valid D X w' \<longrightarrow>
     (\<exists>X' e'. guar D X X' w' (f w') \<and> valid D X' (f w') \<and> effect view op e e' w' (f w') \<and>
        safe D view op \<Phi> (k w') X' e' (f w')))"

lemma safe_then:
  "safe D view op \<Phi> p X e w \<Longrightarrow>
    (\<And>r X e w. valid D X w \<Longrightarrow> \<Phi> r X e w \<Longrightarrow> safe D view op \<Psi> (h r) X e w) \<Longrightarrow>
    safe D view op \<Psi> (pthen p h) X e w"
proof (induction p arbitrary: X e w)
  case (Finish r)
  then show ?case by simp
next
  case (Atom f k)
  show ?case unfolding pthen.simps safe.simps
  proof (intro allI impI)
    fix w' assume "rely D X w w' \<and> valid D X w'"
    with Atom.prems(1) obtain X' e' where "guar D X X' w' (f w')" "valid D X' (f w')"
      "effect view op e e' w' (f w')" "safe D view op \<Phi> (k w') X' e' (f w')" by auto
    with Atom.IH [OF rangeI this(4) Atom.prems(2)]
    show "\<exists>X' e'. guar D X X' w' (f w') \<and> valid D X' (f w') \<and> effect view op e e' w' (f w') \<and>
        safe D view op \<Psi> (pthen (k w') h) X' e' (f w')" by blast
  qed
qed

lemma safe_conseq:
  assumes "safe D view op \<Phi> p X e w" and "\<And>r X e w. valid D X w \<Longrightarrow> \<Phi> r X e w \<Longrightarrow> \<Psi> r X e w"
  shows "safe D view op \<Psi> p X e w"
proof -
  have p: "pthen p Finish = p" by (induction p) (auto intro: ext)
  from safe_then [OF assms(1), where h = Finish and \<Psi> = \<Psi>] assms(2) show ?thesis by (simp add: p)
qed

text \<open>The judgement in the form of a triple, for any state and ownership the precondition admits.\<close>

definition holds ::
    "('w, 'x) discipline \<Rightarrow> ('w \<Rightarrow> 'k \<Rightarrow> 'v option) \<Rightarrow> ('k, 'v) table_op
     \<Rightarrow> ('x \<Rightarrow> 'v table_result option \<Rightarrow> 'w \<Rightarrow> bool) \<Rightarrow> ('w, 'a) prog
     \<Rightarrow> ('a outcome \<Rightarrow> 'x \<Rightarrow> 'v table_result option \<Rightarrow> 'w \<Rightarrow> bool) \<Rightarrow> bool" where
  "holds D view op Pre p \<Phi> \<longleftrightarrow> (\<forall>X e w. valid D X w \<longrightarrow> Pre X e w \<longrightarrow> safe D view op \<Phi> p X e w)"

lemma holds_Finish: "(\<And>X e w. valid D X w \<Longrightarrow> Pre X e w \<Longrightarrow> \<Phi> r X e w) \<Longrightarrow> holds D view op Pre (Finish r) \<Phi>"
  by (simp add: holds_def)

lemma holds_then:
  "holds D view op Pre p R \<Longrightarrow> (\<And>r. holds D view op (R r) (h r) \<Phi>) \<Longrightarrow> holds D view op Pre (pthen p h) \<Phi>"
  unfolding holds_def by (blast intro: safe_then)

lemma holds_conseq:
  "holds D view op Pre p R \<Longrightarrow> (\<And>X e w. valid D X w \<Longrightarrow> Pre' X e w \<Longrightarrow> Pre X e w) \<Longrightarrow>
    (\<And>r X e w. valid D X w \<Longrightarrow> R r X e w \<Longrightarrow> \<Phi> r X e w) \<Longrightarrow> holds D view op Pre' p \<Phi>"
  unfolding holds_def by (blast intro: safe_conseq)

lemma holds_bind:
  assumes "holds D view op Pre p R" and "\<And>x. holds D view op (R (Ret x)) (g x) \<Phi>"
    and "\<And>er X e w. valid D X w \<Longrightarrow> R (Fail er) X e w \<Longrightarrow> \<Phi> (Fail er) X e w"
    and "\<And>s X e w. valid D X w \<Longrightarrow> R (Panic s) X e w \<Longrightarrow> \<Phi> (Panic s) X e w"
  shows "holds D view op Pre (pbind p g) \<Phi>"
  unfolding pbind_def
proof (rule holds_then [OF assms(1)])
  show "holds D view op (R r) (case r of Ret x \<Rightarrow> g x | Fail e \<Rightarrow> Finish (Fail e) | Panic s \<Rightarrow> Finish (Panic s)) \<Phi>" for r
    by (cases r) (simp_all add: assms(2-4) holds_Finish)
qed

lemma holds_on_err:
  assumes "holds D view op Pre p R" and "\<And>x X e w. R (Ret x) X e w \<Longrightarrow> \<Phi> (Ret x) X e w"
    and "\<And>er X e w. R (Fail er) X e w \<Longrightarrow> \<Phi> (Fail (h er)) X e w"
    and "\<And>s X e w. R (Panic s) X e w \<Longrightarrow> \<Phi> (Panic s) X e w"
  shows "holds D view op Pre (pon_err h p) \<Phi>"
  unfolding pon_err_def
proof (rule holds_then [OF assms(1)])
  show "holds D view op (R r)
      (Finish (case r of Ret x \<Rightarrow> Ret x | Fail e \<Rightarrow> Fail (h e) | Panic s \<Rightarrow> Panic s)) \<Phi>" for r
    by (rule holds_Finish) (cases r; simp add: assms(2-4))
qed

text \<open>One step, from a precondition that the others cannot break.\<close>

lemma holds_atomic:
  assumes "\<And>X e w w'. Pre X e w \<Longrightarrow> rely D X w w' \<Longrightarrow> valid D X w' \<Longrightarrow> Pre X e w'"
    and "\<And>X e w r w'. valid D X w \<Longrightarrow> Pre X e w \<Longrightarrow> f w = (r, w') \<Longrightarrow>
      \<exists>X' e'. guar D X X' w w' \<and> valid D X' w' \<and> effect view op e e' w w' \<and> \<Phi> r X' e' w'"
  shows "holds D view op Pre (atomic f) \<Phi>"
  unfolding holds_def atomic_def safe.simps
proof (intro allI impI)
  fix X e w w'
  assume "valid D X w" "Pre X e w" and w': "rely D X w w' \<and> valid D X w'"
  with assms(1) have "Pre X e w'" by blast
  from assms(2) [OF conjunct2 [OF w'] this surjective_pairing]
  show "\<exists>X' e'. guar D X X' w' (snd (f w')) \<and> valid D X' (snd (f w')) \<and> effect view op e e' w' (snd (f w')) \<and>
      (valid D X' (snd (f w')) \<and> \<Phi> (fst (f w')) X' e' (snd (f w')))" by blast
qed

text \<open>What the outcome of an operation says of its effect.\<close>

definition agrees :: "('k, 'v) table_op \<Rightarrow> 'v outcome \<Rightarrow> 'x \<Rightarrow> 'v table_result option \<Rightarrow> 'w \<Rightarrow> bool" where
  "agrees op r X e w \<longleftrightarrow> answered op r (set_option e)"

definition op_safe ::
    "('w, 'x) discipline \<Rightarrow> ('w \<Rightarrow> 'k \<Rightarrow> 'v option) \<Rightarrow> (('k, 'v) table_op \<Rightarrow> ('w, 'v) prog) \<Rightarrow> bool" where
  "op_safe D view P \<longleftrightarrow>
     (\<forall>op w. valid D (nothing D) w \<longrightarrow> safe D view op (agrees op) (P op) (nothing D) None w)"

definition thread_ok ::
    "('w, 'x) discipline \<Rightarrow> ('w \<Rightarrow> 'k \<Rightarrow> 'v option) \<Rightarrow> 'w \<Rightarrow> (('k, 'v) table_op \<times> ('w, 'v) prog) option \<Rightarrow> 'x
     \<Rightarrow> 'v table_result option \<Rightarrow> bool" where
  "thread_ok D view w th X e \<longleftrightarrow> valid D X w \<and>
     (case th of None \<Rightarrow> X = nothing D \<and> e = None | Some (op, p) \<Rightarrow> safe D view op (agrees op) p X e w)"

definition pool_inv ::
    "('w, 'x) discipline \<Rightarrow> ('w \<Rightarrow> 'k \<Rightarrow> 'v option) \<Rightarrow> 'w \<Rightarrow> 'w \<times> ('k, 'v, 'w) table_pool \<Rightarrow> (nat \<Rightarrow> 'x)
     \<Rightarrow> (nat \<Rightarrow> 'v table_result option) \<Rightarrow> ('k, 'v) entries \<Rightarrow> bool" where
  "pool_inv D view w0 c own eff L \<longleftrightarrow>
     (\<forall>i. thread_ok D view (fst c) (snd c i) (own i) (eff i)) \<and>
     (\<forall>i j. i \<noteq> j \<longrightarrow> apart D (own i) (own j)) \<and>
     (\<forall>i op res. (i, op, res) \<in> set L \<longleftrightarrow> (\<exists>p. snd c i = Some (op, p)) \<and> eff i = Some res) \<and>
     (\<forall>i. eff i \<noteq> Some Refused) \<and> distinct (map fst L) \<and>
     table_run (view w0) (map (\<lambda>(i, op, res). op) L) (map (\<lambda>(i, op, res). res) L) = Some (view (fst c))"

lemma table_run_snoc:
  "length ops = length rs \<Longrightarrow>
    table_run m (ops @ [op]) (rs @ [res]) = (case table_run m ops rs of None \<Rightarrow> None | Some m' \<Rightarrow> table_step m' op res)"
  by (induction ops rs arbitrary: m rule: list_induct2) (auto split: option.split)

lemma pool_inv_linearizes:
  assumes "pool_inv D view w0 c own eff L"
  shows "linearizes view w0 c L"
proof -
  have "answered op r {res. (i, op, res) \<in> set L}" if "snd c i = Some (op, Finish r)" for i op r
  proof -
    have "thread_ok D view (fst c) (snd c i) (own i) (eff i)" using assms by (simp add: pool_inv_def)
    with that have "answered op r (set_option (eff i))" by (simp add: thread_ok_def agrees_def)
    moreover have "{res. (i, op, res) \<in> set L} = set_option (eff i)"
      using assms that by (cases "eff i") (auto simp: pool_inv_def)
    ultimately show ?thesis by simp
  qed
  with assms show ?thesis by (auto simp: pool_inv_def linearizes_def)
qed

locale ownership =
  fixes D :: "('w, 'x) discipline" and view :: "'w \<Rightarrow> 'k \<Rightarrow> 'v option"
  assumes rely_refl: "rely D X w w"
    and rely_trans: "rely D X w1 w2 \<Longrightarrow> rely D X w2 w3 \<Longrightarrow> rely D X w1 w3"
    and apart_sym: "apart D X Y \<Longrightarrow> apart D Y X"
    and apart_nothing: "apart D (nothing D) Y"
    and valid_nothing: "valid D X w \<Longrightarrow> valid D (nothing D) w"
    and guar_rely: "guar D X X' w w' \<Longrightarrow> valid D X w \<Longrightarrow> valid D X' w' \<Longrightarrow> valid D Y w \<Longrightarrow> apart D X Y \<Longrightarrow>
      rely D Y w w' \<and> valid D Y w' \<and> apart D X' Y"
begin

text \<open>What the others do does not disturb a thread.\<close>

lemma safe_rely:
  assumes "safe D view op (agrees op) p X e w" and "rely D X w w'" and "valid D X w'"
  shows "safe D view op (agrees op) p X e w'"
proof (cases p)
  case (Finish r)
  with assms(1,3) show ?thesis by (simp add: agrees_def)
next
  case (Atom f k)
  with assms(1) rely_trans [OF assms(2)] show ?thesis by auto
qed

lemma thread_rely:
  "thread_ok D view w th X e \<Longrightarrow> rely D X w w' \<Longrightarrow> valid D X w' \<Longrightarrow> thread_ok D view w' th X e"
  by (auto simp: thread_ok_def split: option.splits intro: safe_rely)

lemma inv_spawn:
  assumes P: "op_safe D view P" and inv: "pool_inv D view w0 (w, T) own eff L" and T: "T i = None"
  shows "pool_inv D view w0 (w, T(i \<mapsto> (op, P op))) own eff L"
proof -
  have th: "thread_ok D view w (T j) (own j) (eff j)" for j using inv by (simp add: pool_inv_def)
  from th [of i] T have i: "own i = nothing D" "eff i = None" and "valid D (nothing D) w"
    by (auto simp: thread_ok_def)
  with P i have "thread_ok D view w (Some (op, P op)) (own i) (eff i)"
    by (simp add: thread_ok_def op_safe_def)
  with inv T i(2) show ?thesis by (auto simp: pool_inv_def)
qed

lemma inv_advance:
  assumes inv: "pool_inv D view w0 (w, T) own eff L" and T: "T i = Some (op, Atom f k)"
  shows "\<exists>own' eff' L'. prefix L L' \<and> pool_inv D view w0 (f w, T(i \<mapsto> (op, k w))) own' eff' L'"
proof -
  have th: "thread_ok D view w (T j) (own j) (eff j)" for j using inv by (simp add: pool_inv_def)
  from th [of i] T have v: "valid D (own i) w" and "safe D view op (agrees op) (Atom f k) (own i) (eff i) w"
    by (simp_all add: thread_ok_def)
  with rely_refl [of "own i" w] v obtain X' e' where a: "guar D (own i) X' w (f w)" "valid D X' (f w)"
    and eff: "effect view op (eff i) e' w (f w)" and s: "safe D view op (agrees op) (k w) X' e' (f w)"
    unfolding safe.simps by blast
  have ap: "apart D (own i) (own j)" if "j \<noteq> i" for j using inv that by (auto simp: pool_inv_def)
  have vj: "valid D (own j) w" for j using th [of j] by (simp add: thread_ok_def)
  have others: "rely D (own j) w (f w) \<and> valid D (own j) (f w) \<and> apart D X' (own j)" if "j \<noteq> i" for j
    by (rule guar_rely [OF a(1) v a(2) vj ap [OF that]])
  let ?own = "own(i := X')" and ?eff = "eff(i := e')" and ?T = "T(i \<mapsto> (op, k w))"
  have threads: "thread_ok D view (f w) (?T j) (?own j) (?eff j)" for j
    using others [of j] thread_rely [OF th [of j], of "f w"] a(2) s by (cases "j = i") (simp_all add: thread_ok_def)
  have aparts: "apart D (?own j) (?own l)" if "j \<noteq> l" for j l
    using that others apart_sym inv by (auto simp: pool_inv_def)
  have L: "(j, op', res) \<in> set L \<longleftrightarrow> (\<exists>p. T j = Some (op', p)) \<and> eff j = Some res" for j op' res
    using inv by (simp add: pool_inv_def)
  from eff consider (same) "e' = eff i" "view (f w) = view w"
    | (effective) res where "eff i = None" "res \<noteq> Refused" "e' = Some res" "table_step (view w) op res = Some (view (f w))"
    by (auto simp: effect_def)
  then show ?thesis
  proof cases
    case same
    with inv T threads aparts have "pool_inv D view w0 (f w, ?T) ?own ?eff L"
      by (auto simp: pool_inv_def)
    then show ?thesis by blast
  next
    case effective
    let ?L = "L @ [(i, op, res)]"
    have "i \<notin> set (map fst L)" using L [of i] effective(1) by auto
    moreover have "(j, op', r) \<in> set ?L \<longleftrightarrow> (\<exists>p. ?T j = Some (op', p)) \<and> ?eff j = Some r" for j op' r
      using L [of j op' r] L [of i op' r] effective(1,3) T by auto
    moreover have "table_run (view w0) (map (\<lambda>(i, op, res). op) ?L) (map (\<lambda>(i, op, res). res) ?L) = Some (view (f w))"
      using inv effective(4) by (simp add: pool_inv_def table_run_snoc)
    ultimately have "pool_inv D view w0 (f w, ?T) ?own ?eff ?L"
      using inv threads aparts effective(2,3) unfolding pool_inv_def by auto
    then show ?thesis by (intro exI [of _ ?own] exI [of _ ?eff] exI [of _ ?L]) simp
  qed
qed

lemma inv_step:
  assumes P: "op_safe D view P" and inv: "pool_inv D view w0 c own eff L" and s: "c' = c \<or> pool_step P c c'"
  shows "\<exists>own' eff' L'. prefix L L' \<and> pool_inv D view w0 c' own' eff' L'"
proof (cases "c' = c")
  case True
  with inv show ?thesis by blast
next
  case False
  obtain w T where c: "c = (w, T)" by fastforce
  from s False have "pool_step P (w, T) c'" by (simp add: c)
  then show ?thesis
    by (rule pool_stepE) (use inv_spawn [OF P inv [unfolded c]] inv_advance [OF inv [unfolded c]] in blast)+
qed

lemma histories_inv:
  assumes P: "op_safe D view P" and h: "history P w0 c" and w0: "valid D (nothing D) w0"
  shows "\<exists>own eff L. L 0 = [] \<and> (\<forall>n. prefix (L n) (L (Suc n)) \<and> pool_inv D view w0 (c n) (own n) (eff n) (L n))"
proof -
  let ?I = "\<lambda>n x. pool_inv D view w0 (c n) (fst x) (fst (snd x)) (snd (snd x)) \<and> (n = 0 \<longrightarrow> snd (snd x) = [])"
  let ?R = "\<lambda>n x y. prefix (snd (snd x)) (snd (snd y))"
  have "\<exists>f. \<forall>n. ?I n (f n) \<and> ?R n (f n) (f (Suc n))"
  proof (rule dependent_nat_choice [where P = ?I and Q = ?R])
    have "pool_inv D view w0 (c 0) (\<lambda>_. nothing D) (\<lambda>_. None) []"
      using h w0 apart_nothing by (simp add: history_def pool_inv_def thread_ok_def)
    then show "\<exists>x. ?I 0 x" by auto
  next
    fix x n assume "?I n x"
    moreover have "c (Suc n) = c n \<or> pool_step P (c n) (c (Suc n))" using h by (simp add: history_def)
    ultimately obtain own' eff' L' where "prefix (snd (snd x)) L'" "pool_inv D view w0 (c (Suc n)) own' eff' L'"
      using inv_step [OF P] by blast
    then have "?I (Suc n) (own', eff', L') \<and> ?R n x (own', eff', L')" by simp
    then show "\<exists>y. ?I (Suc n) y \<and> ?R n x y" by blast
  qed
  then obtain f where f: "\<And>n. ?I n (f n)" "\<And>n. ?R n (f n) (f (Suc n))" by blast
  show ?thesis
    by (intro exI [of _ "\<lambda>n. fst (f n)"] exI [of _ "\<lambda>n. fst (snd (f n))"] exI [of _ "\<lambda>n. snd (snd (f n))"])
      (use f in blast)
qed

lemma histories_linearize:
  assumes "op_safe D view P" and "history P w0 c" and "valid D (nothing D) w0"
  shows "\<exists>L. L 0 = [] \<and> (\<forall>n. prefix (L n) (L (Suc n)) \<and> linearizes view w0 (c n) (L n))"
  using histories_inv [OF assms] by (metis pool_inv_linearizes)

lemma histories_valid:
  assumes "op_safe D view P" and "history P w0 c" and "valid D (nothing D) w0"
  shows "valid D (nothing D) (fst (c n))"
proof -
  from histories_inv [OF assms] obtain own eff L where "pool_inv D view w0 (c n) (own n) (eff n) (L n)" by blast
  then have "valid D (own n 0) (fst (c n))" by (simp add: pool_inv_def thread_ok_def)
  then show ?thesis by (rule valid_nothing)
qed

end

end
