(* ===== verification/LinuxRace.thy ===== *)
theory LinuxRace
  imports LinuxKeys Interleave
begin

text \<open>
  The key store under several processes at once. Each operation of \<open>LinuxStore\<close> is a program whose atomic
  steps are the system calls; \<open>store_ops_sequential\<close> says that a program left undisturbed is the call it was
  made from. The steps of any number of them interleave on one file system, in which any call may fail.
\<close>

section \<open>The programs\<close>

function mkdir_all_p :: "string \<Rightarrow> nat \<Rightarrow> ('x os_scheme, unit) prog" where
  "mkdir_all_p p perm =
     pthen (atomic (os_stat p)) (\<lambda>r. case r of
       Ret (DirNode _) \<Rightarrow> Finish (Ret ())
     | Ret (FileNode _) \<Rightarrow> Finish (Fail (Sys ENOTDIR))
     | _ \<Rightarrow>
         pthen (case mkdir_parent p of None \<Rightarrow> Finish (Ret ()) | Some q \<Rightarrow> mkdir_all_p q perm) (\<lambda>r2. case r2 of
           Ret _ \<Rightarrow>
             pthen (atomic (os_mkdir p perm)) (\<lambda>r3. case r3 of
               Ret _ \<Rightarrow> Finish (Ret ())
             | _ \<Rightarrow> pthen (atomic (os_stat p)) (\<lambda>r4. case r4 of
                      Ret (DirNode _) \<Rightarrow> Finish (Ret ())
                    | _ \<Rightarrow> Finish r3))
         | _ \<Rightarrow> Finish r2))"
  by pat_completeness auto
termination
  by (relation "measure (\<lambda>(p, _). length p)") (auto dest: mkdir_parent_shorter)

declare mkdir_all_p.simps [simp del]

fun create_temp_p :: "nat \<Rightarrow> string \<Rightarrow> string \<Rightarrow> ('x os_scheme, os_file) prog" where
  "create_temp_p 0 dir pre = Finish (Fail (Sys EEXIST))"
| "create_temp_p (Suc k) dir pre =
     pthen (atomic (\<lambda>w. os_open_excl (temp_name dir pre (rands w (tick w))) 384 w)) (\<lambda>r. case r of
       Fail (Sys EEXIST) \<Rightarrow> create_temp_p k dir pre
     | _ \<Rightarrow> Finish r)"

definition remove_p :: "string \<Rightarrow> ('x os_scheme, unit) prog" where
  "remove_p p =
     pthen (atomic (sys_unlink p)) (\<lambda>r. case r of
       Ret u \<Rightarrow> Finish (Ret u)
     | _ \<Rightarrow> pthen (atomic (sys_rmdir p)) (\<lambda>r2. case r2 of
              Ret u \<Rightarrow> Finish (Ret u)
            | Fail (Sys ENOTDIR) \<Rightarrow> Finish r
            | _ \<Rightarrow> Finish r2))"

definition syncDir_p :: "string \<Rightarrow> ('x os_scheme, unit) prog" where
  "syncDir_p dir =
     pthen (atomic (os_open dir)) (\<lambda>r. case r of
       Ret d \<Rightarrow> pthen (atomic (file_sync d)) (\<lambda>_. pthen (atomic (file_close d)) (\<lambda>_. Finish (Ret ())))
     | _ \<Rightarrow> Finish (Ret ()))"

text \<open>\<^verbatim>\<open>writeBlob\<close> from \<^verbatim>\<open>Chmod\<close> to \<^verbatim>\<open>Link\<close>, and what follows a success and a failure.\<close>

definition commit_p :: "string \<Rightarrow> bytes \<Rightarrow> os_file \<Rightarrow> ('x os_scheme, unit) prog" where
  "commit_p path buf tmp =
     pbind (pon_err (Wrapf ''set permissions: %w'' []) (atomic (file_chmod tmp 384))) (\<lambda>_.
     pbind (pon_err (Wrapf ''write key file: %w'' []) (atomic (file_write tmp buf))) (\<lambda>_.
     pbind (pon_err (Wrapf ''sync key file: %w'' []) (atomic (file_sync tmp))) (\<lambda>_.
     pbind (pon_err (Wrapf ''close key file: %w'' []) (atomic (file_close tmp))) (\<lambda>_.
     pon_err (Wrapf ''commit key file: %w'' []) (atomic (os_link (file_name tmp) path))))))"

definition cleanup_p :: "os_file \<Rightarrow> unit outcome \<Rightarrow> ('x os_scheme, unit) prog" where
  "cleanup_p tmp r =
     (if file_name tmp \<noteq> []
      then pthen (atomic (file_close tmp)) (\<lambda>_. pthen (remove_p (file_name tmp)) (\<lambda>_. Finish r))
      else Finish r)"

declare cleanup_p_def [simp]

definition settle_p :: "string \<Rightarrow> os_file \<Rightarrow> unit outcome \<Rightarrow> ('x os_scheme, unit) prog" where
  "settle_p dir tmp r =
     (case r of
        Ret _ \<Rightarrow> pthen (remove_p (file_name tmp)) (\<lambda>_. syncDir_p dir)
      | _ \<Rightarrow> cleanup_p tmp r)"

definition publish_p :: "string \<Rightarrow> bytes \<Rightarrow> ('x os_scheme, unit) prog" where
  "publish_p path buf =
     (let dir = path_dir path in
      pbind (pon_err (Wrapf ''create key store: %w'' []) (mkdir_all_p dir 448)) (\<lambda>_.
      pbind (pon_err (Wrapf ''create temp file: %w'' []) (create_temp_p 10000 dir ''.tpmkey-'')) (\<lambda>tmp.
      pthen (commit_p path buf tmp) (settle_p dir tmp))))"

definition read_open :: "os_file \<Rightarrow> ('x os_scheme, bytes) go" where
  "read_open f w =
     (case fds w (file_fd f) of
        Some (FileNode i) \<Rightarrow>
          syscall (case inodes w i of None \<Rightarrow> fail (Sys (EOther 5)) | Some n \<Rightarrow> ret (content n)) w
      | _ \<Rightarrow> syscall (fail (Sys EISDIR)) w)"

definition read_p :: "string \<Rightarrow> ('x os_scheme, bytes) prog" where
  "read_p path =
     pbind (atomic (os_open path)) (\<lambda>f. pdefer (\<lambda>_. pignore (atomic (file_close f))) (atomic (read_open f)))"

text \<open>
  What the operations do to the store: \<^verbatim>\<open>createKey\<close> looks whether the name is free and publishes (the TPM
  commands between the two do not touch the store), \<^verbatim>\<open>loadKey\<close> reads the file, \<^verbatim>\<open>deleteKey\<close> removes it.
\<close>

definition insert_p :: "environment \<Rightarrow> string \<Rightarrow> bytes \<Rightarrow> ('x os_scheme, bytes) prog" where
  "insert_p env name buf =
     pbind (pof_sum (blobPath env name)) (\<lambda>path.
     pbind (atomic (statGuard path name)) (\<lambda>_.
     pbind (pon_err (\<lambda>err. if errors_is_exist err then keyExists name
                          else Wrapf ''create persisted key: %w'' [] err) (publish_p path buf)) (\<lambda>_.
     Finish (Ret []))))"

definition delete_p :: "environment \<Rightarrow> string \<Rightarrow> ('x os_scheme, bytes) prog" where
  "delete_p env name =
     pbind (pof_sum (blobPath env name)) (\<lambda>path.
     pbind (pon_err (\<lambda>err. if os_is_not_exist err then Errorf ''delete key: key %q not found'' [FStr name]
                          else Wrapf ''delete key: %w'' [] err) (remove_p path)) (\<lambda>_.
     Finish (Ret [])))"

fun store_op :: "environment \<Rightarrow> (string, bytes) table_op \<Rightarrow> ('x os_scheme, bytes) prog" where
  "store_op env (Insert name buf) = insert_p env name buf"
| "store_op env (Lookup name) = pbind (pof_sum (blobPath env name)) read_p"
| "store_op env (Delete name) = delete_p env name"

declare insert_p_def [simp] delete_p_def [simp]

section \<open>A program left undisturbed\<close>

lemma run_mkdir_all: "run (mkdir_all_p p perm) = os_mkdir_all p perm"
proof (induction p perm rule: mkdir_all_p.induct)
  case (1 p perm)
  show ?case
  proof
    fix w :: "'a os_scheme"
    have q: "run (case mkdir_parent p of None \<Rightarrow> Finish (Ret ()) | Some q \<Rightarrow> mkdir_all_p q perm) w1 =
        (case mkdir_parent p of None \<Rightarrow> (Ret (), w1) | Some q \<Rightarrow> os_mkdir_all q perm w1)" for w1 :: "'a os_scheme"
      using 1 by (cases "mkdir_parent p") auto
    show "run (mkdir_all_p p perm) w = os_mkdir_all p perm w"
      by (subst mkdir_all_p.simps, subst os_mkdir_all.simps)
        (auto simp: q split: prod.split outcome.split node.split)
  qed
qed

lemma run_create_temp: "run (create_temp_p k dir pre) = create_temp_loop k dir pre"
proof (induction k)
  case 0
  show ?case by (simp add: fun_eq_iff)
next
  case (Suc k)
  then show ?case by (auto simp: fun_eq_iff split: prod.split outcome.split go_err.split errno.split)
qed

lemma run_remove: "run (remove_p p) = os_remove p"
  by (auto simp: remove_p_def os_remove_def fun_eq_iff split: prod.split outcome.split go_err.split errno.split)

lemma run_syncDir: "run (syncDir_p dir) = syncDir dir"
  by (auto simp: syncDir_p_def syncDir_def fun_eq_iff split: prod.split outcome.split)

lemma run_read: "run (read_p path) = os_read_file path"
  by (simp add: read_p_def os_read_file_def ignore_def read_open_def [abs_def])

text \<open>A step of the body of \<^verbatim>\<open>writeBlob\<close>, seen from outside the scope of \<^verbatim>\<open>tmpName\<close>.\<close>

lemma local_var_step:
  "local_var v d (gbind (lift_go f) g) w =
     (case f w of
        (Ret x, w1) \<Rightarrow> local_var v d (g x) w1
      | (Fail e, w1) \<Rightarrow> (Fail e, d v (Fail e) w1)
      | (Panic s, w1) \<Rightarrow> (Panic s, d v (Panic s) w1))"
  by (simp add: local_var_def gbind_def lift_go_def split: prod.split outcome.split)

lemma run_settle:
  "run (settle_p dir tmp r) w =
     (case r of Ret _ \<Rightarrow> syncDir dir (snd (os_remove (file_name tmp) w)) | _ \<Rightarrow> (r, cleanupTemp tmp (file_name tmp) w))"
  by (auto simp: settle_p_def run_remove run_syncDir cleanupTemp_def split: outcome.split prod.split)

lemma run_commit:
  "run (pthen (commit_p path buf tmp) (settle_p dir tmp)) =
     local_var (file_name tmp) (\<lambda>tmpName _. cleanupTemp tmp tmpName) (commitTemp path dir buf tmp)"
proof
  fix w
  have e: "local_var (file_name tmp) (\<lambda>tmpName _. cleanupTemp tmp tmpName)
      (\<lambda>vw. gbind (set_var []) (\<lambda>_. lift_go (syncDir dir)) vw) w1 = syncDir dir w1" for w1
    by (simp add: local_var_def gbind_def set_var_def lift_go_def cleanupTemp_def split: prod.split)
  show "run (pthen (commit_p path buf tmp) (settle_p dir tmp)) w =
      local_var (file_name tmp) (\<lambda>tmpName _. cleanupTemp tmp tmpName) (commitTemp path dir buf tmp) w"
    unfolding commitTemp_def local_var_step
    by (auto simp: commit_p_def run_settle gbind_def on_err_def ignore_def e split: prod.splits outcome.splits)
qed

lemma run_publish: "run (publish_p path buf) = publish path buf"
  by (simp add: publish_p_def publish_def Let_def run_mkdir_all run_create_temp run_commit os_create_temp_def
      del: run_pthen)


section \<open>What an operation owns\<close>

text \<open>
  The names of its temporary files, the inodes it may write, its descriptors, and the inodes it reads that
  nobody may write any more.
\<close>

record owned =
  temps :: "string set"
  inos :: "nat set"
  ofds :: "nat set"
  pinned :: "nat set"

definition is_temp :: "string \<Rightarrow> bool" where
  "is_temp p \<longleftrightarrow> (\<exists>dir pre n. p = temp_name dir pre n)"

text \<open>The part of the file system the programs depend on.\<close>

definition core :: "'x os_scheme \<Rightarrow> (string \<Rightarrow> node option) \<times> (nat \<Rightarrow> inode option) \<times> nat \<times> (nat \<Rightarrow> node option) \<times> nat" where
  "core w = (node_at w, inodes w, next_ino w, fds w, next_fd w)"

lemma core_eq:
  "core w' = (a, b, c, d, e) \<longleftrightarrow> node_at w' = a \<and> inodes w' = b \<and> next_ino w' = c \<and> fds w' = d \<and> next_fd w' = e"
  by (auto simp: core_def)

lemma next_fd_simps [simp]: "next_fd (log_ev e w) = next_fd w" "next_fd (record_view w) = next_fd w"
  by (simp_all add: log_ev_def record_view_def)

lemma core_simps [simp]: "core (record_view w) = core w" "core (w\<lparr>tick := t\<rparr>) = core w"
  by (simp_all add: core_def)

definition files :: "('x os_scheme, owned) discipline" where
  "files =
     \<lparr>valid = (\<lambda>X w. os_wf w \<and>
        (\<forall>t \<in> temps X. is_temp t \<and> node_at w t \<noteq> None) \<and>
        (\<forall>j \<in> inos X. j < next_ino w \<and> (\<forall>p. node_at w p = Some (FileNode j) \<longrightarrow> p \<in> temps X)) \<and>
        (\<forall>j \<in> pinned X. j < next_ino w) \<and> (\<forall>d \<in> ofds X. d < next_fd w)),
      rely = (\<lambda>X w w'. (\<forall>t \<in> temps X. node_at w' t = node_at w t) \<and>
        (\<forall>j \<in> inos X \<union> pinned X. inodes w' j = inodes w j) \<and> (\<forall>d \<in> ofds X. fds w' d = fds w d)),
      guar = (\<lambda>X X' w w'.
        (\<forall>p. node_at w' p \<noteq> node_at w p \<longrightarrow> p \<in> temps X \<or> node_at w p = None \<or> \<not> is_temp p) \<and>
        (\<forall>p j. node_at w' p = Some (FileNode j) \<longrightarrow> node_at w p = Some (FileNode j) \<or> j \<in> inos X \<or> next_ino w \<le> j) \<and>
        (\<forall>j. inodes w' j \<noteq> inodes w j \<longrightarrow> j \<in> inos X \<or> next_ino w \<le> j) \<and>
        (\<forall>d. fds w' d \<noteq> fds w d \<longrightarrow> d \<in> ofds X \<or> next_fd w \<le> d) \<and>
        next_ino w \<le> next_ino w' \<and> next_fd w \<le> next_fd w' \<and>
        (\<forall>t \<in> temps X'. t \<in> temps X \<or> node_at w t = None) \<and>
        (\<forall>j \<in> inos X'. j \<in> inos X \<or> next_ino w \<le> j) \<and>
        (\<forall>d \<in> ofds X'. d \<in> ofds X \<or> next_fd w \<le> d) \<and>
        (\<forall>j \<in> pinned X'. j \<in> pinned X \<or> (\<exists>p. \<not> is_temp p \<and> node_at w p = Some (FileNode j)))),
      apart = (\<lambda>X Y. temps X \<inter> temps Y = {} \<and> inos X \<inter> (inos Y \<union> pinned Y) = {} \<and> inos Y \<inter> pinned X = {} \<and>
        ofds X \<inter> ofds Y = {}),
      nothing = \<lparr>temps = {}, inos = {}, ofds = {}, pinned = {}\<rparr>\<rparr>"

lemma files_sel:
  "valid files X w \<longleftrightarrow> os_wf w \<and>
     (\<forall>t \<in> temps X. is_temp t \<and> node_at w t \<noteq> None) \<and>
     (\<forall>j \<in> inos X. j < next_ino w \<and> (\<forall>p. node_at w p = Some (FileNode j) \<longrightarrow> p \<in> temps X)) \<and>
     (\<forall>j \<in> pinned X. j < next_ino w) \<and> (\<forall>d \<in> ofds X. d < next_fd w)"
  "rely files X w w' \<longleftrightarrow> (\<forall>t \<in> temps X. node_at w' t = node_at w t) \<and>
     (\<forall>j \<in> inos X \<union> pinned X. inodes w' j = inodes w j) \<and> (\<forall>d \<in> ofds X. fds w' d = fds w d)"
  "nothing files = \<lparr>temps = {}, inos = {}, ofds = {}, pinned = {}\<rparr>"
  by (simp_all add: files_def)

lemma guar_files:
  "guar files X X' w w' \<longleftrightarrow>
     (\<forall>p. node_at w' p \<noteq> node_at w p \<longrightarrow> p \<in> temps X \<or> node_at w p = None \<or> \<not> is_temp p) \<and>
     (\<forall>p j. node_at w' p = Some (FileNode j) \<longrightarrow> node_at w p = Some (FileNode j) \<or> j \<in> inos X \<or> next_ino w \<le> j) \<and>
     (\<forall>j. inodes w' j \<noteq> inodes w j \<longrightarrow> j \<in> inos X \<or> next_ino w \<le> j) \<and>
     (\<forall>d. fds w' d \<noteq> fds w d \<longrightarrow> d \<in> ofds X \<or> next_fd w \<le> d) \<and>
     next_ino w \<le> next_ino w' \<and> next_fd w \<le> next_fd w' \<and>
     (\<forall>t \<in> temps X'. t \<in> temps X \<or> node_at w t = None) \<and>
     (\<forall>j \<in> inos X'. j \<in> inos X \<or> next_ino w \<le> j) \<and>
     (\<forall>d \<in> ofds X'. d \<in> ofds X \<or> next_fd w \<le> d) \<and>
     (\<forall>j \<in> pinned X'. j \<in> pinned X \<or> (\<exists>p. \<not> is_temp p \<and> node_at w p = Some (FileNode j)))"
  by (simp add: files_def)

lemma apart_files:
  "apart files X Y \<longleftrightarrow> temps X \<inter> temps Y = {} \<and> inos X \<inter> (inos Y \<union> pinned Y) = {} \<and> inos Y \<inter> pinned X = {} \<and>
     ofds X \<inter> ofds Y = {}"
  by (simp add: files_def)

text \<open>What one operation may do leaves what another owns and relies on alone.\<close>

lemma files_guar_rely:
  assumes g: "guar files X X' w w'" and wf: "os_wf w'" and v: "valid files Y w" and a: "apart files X Y"
  shows "rely files Y w w' \<and> valid files Y w' \<and> apart files X' Y"
proof (intro conjI)
  have own: "t \<notin> temps X" "is_temp t" "node_at w t \<noteq> None" if "t \<in> temps Y" for t
    using that v a by (auto simp: files_sel apart_files)
  have ino: "j \<notin> inos X" "j < next_ino w" if "j \<in> inos Y \<union> pinned Y" for j
    using that v a by (auto simp: files_sel apart_files)
  have fd: "d \<notin> ofds X" "d < next_fd w" if "d \<in> ofds Y" for d
    using that v a by (auto simp: files_sel apart_files)
  have t: "node_at w' t = node_at w t" if "t \<in> temps Y" for t
    using g own [OF that] by (auto simp: guar_files)
  have i: "inodes w' j = inodes w j" if "j \<in> inos Y \<union> pinned Y" for j
    using g ino [OF that] by (auto simp: guar_files)
  have d: "fds w' d = fds w d" if "d \<in> ofds Y" for d
    using g fd [OF that] by (auto simp: guar_files)
  show "rely files Y w w'" unfolding files_sel using t i d by blast
  have mono: "next_ino w \<le> next_ino w'" "next_fd w \<le> next_fd w'" using g by (simp_all add: guar_files)
  have nm: "p \<in> temps Y" if "j \<in> inos Y" "node_at w' p = Some (FileNode j)" for j p
  proof -
    have "\<not> next_ino w \<le> j" "j \<notin> inos X" using ino [of j] that by auto
    with g that(2) have "node_at w p = Some (FileNode j)" unfolding guar_files by blast
    then show ?thesis using v that(1) by (auto simp: files_sel)
  qed
  have lt: "j < next_ino w'" if "j \<in> inos Y \<union> pinned Y" for j
    using less_le_trans [OF ino(2) [OF that] mono(1)] .
  have lf: "d < next_fd w'" if "d \<in> ofds Y" for d
    using less_le_trans [OF fd(2) [OF that] mono(2)] .
  show "valid files Y w'" unfolding files_sel
    using wf own t lt lf nm by simp
  have pin: "j \<notin> inos Y" if "j \<in> pinned X'" for j
  proof
    assume j: "j \<in> inos Y"
    have "j \<notin> pinned X" using a j by (auto simp: apart_files)
    with g that obtain p where p: "\<not> is_temp p" "node_at w p = Some (FileNode j)" by (auto simp: guar_files)
    with v j have "p \<in> temps Y" by (auto simp: files_sel)
    with own(2) p(1) show False by blast
  qed
  show "apart files X' Y" unfolding apart_files
    using g own ino fd pin by (fastforce simp: guar_files)
qed

interpretation store: ownership files "storedKeys env :: 'x os_scheme \<Rightarrow> _"
  for env
proof unfold_locales
  show "rely files Y w w' \<and> valid files Y w' \<and> apart files X' Y"
    if "guar files X X' w w'" "valid files X w" "valid files X' w'" "valid files Y w" "apart files X Y"
    for X X' Y w w'
    by (rule files_guar_rely [OF that(1) _ that(4,5)]) (use that(3) in \<open>simp add: files_sel\<close>)
qed (auto simp: files_sel apart_files)

section \<open>The system calls\<close>

text \<open>How each call changes the part of the file system that matters.\<close>

lemma syscall_core:
  assumes "syscall f w = (r, w')"
  obtains (fault) e where "r = Fail (Sys e)" "core w' = core w"
  | (run) w2 where "f (w\<lparr>tick := Suc (tick w)\<rparr>) = (r, w2)" "core w' = core w2"
proof (cases rule: syscall_part_cases [of "\<lambda>_ w. w" f w])
  case (fault e k)
  with assms that(1) show thesis by (auto simp: syscall_def)
next
  case (run r2 w2)
  with assms that(2) show thesis by (auto simp: syscall_def)
qed

lemma core_stat: "os_stat p w = (r, w') \<Longrightarrow> core w' = core w"
  unfolding os_stat_def by (erule syscall_core) (auto simp: fail_def ret_def split: option.splits)

lemma core_statGuard: "statGuard p name w = (r, w') \<Longrightarrow> core w' = core w"
  by (cases "os_stat p w") (auto simp: statGuard_def fail_def ret_def panic_def dest: core_stat split: outcome.splits if_splits)

lemma core_mkdir:
  assumes "os_mkdir p m w = (r, w')"
  shows "core w' = core w \<or>
    node_at w p = None \<and> core w' = ((node_at w)(p \<mapsto> DirNode m), inodes w, next_ino w, fds w, next_fd w)"
  using assms unfolding os_mkdir_def
  by (rule syscall_core) (auto simp: fail_def ret_def core_eq core_def split: option.splits if_splits)

lemma core_open:
  assumes "os_open p w = (r, w')"
  shows "case r of
      Ret f \<Rightarrow> (\<exists>n. node_at w p = Some n \<and> file_fd f = next_fd w \<and>
        core w' = (node_at w, inodes w, next_ino w, (fds w)(next_fd w \<mapsto> n), Suc (next_fd w)))
    | _ \<Rightarrow> core w' = core w"
  using assms unfolding os_open_def
proof (rule syscall_core)
  fix w2
  assume "(case node_at (w\<lparr>tick := Suc (tick w)\<rparr>) p of None \<Rightarrow> fail (Sys ENOENT) (w\<lparr>tick := Suc (tick w)\<rparr>)
      | Some n \<Rightarrow> open_node n p (w\<lparr>tick := Suc (tick w)\<rparr>)) = (r, w2)" and "core w' = core w2"
  then show ?thesis
    by (auto simp: fail_def open_node_def core_eq core_def split: option.splits)
qed auto

lemma core_open_excl:
  assumes "os_open_excl t m w = (r, w')"
  shows "case r of
      Ret f \<Rightarrow> node_at w t = None \<and> file_fd f = next_fd w \<and> file_name f = t \<and>
        core w' = ((node_at w)(t \<mapsto> FileNode (next_ino w)), (inodes w)(next_ino w \<mapsto> \<lparr>content = [], mode = m\<rparr>),
          Suc (next_ino w), (fds w)(next_fd w \<mapsto> FileNode (next_ino w)), Suc (next_fd w))
    | _ \<Rightarrow> core w' = core w"
  using assms unfolding os_open_excl_def
proof (rule syscall_core)
  fix w2
  assume "(if node_at (w\<lparr>tick := Suc (tick w)\<rparr>) t \<noteq> None then fail (Sys EEXIST) (w\<lparr>tick := Suc (tick w)\<rparr>)
     else case dir_error (w\<lparr>tick := Suc (tick w)\<rparr>) t of
            Some e \<Rightarrow> fail (Sys e) (w\<lparr>tick := Suc (tick w)\<rparr>)
          | None \<Rightarrow>
              open_node (FileNode (next_ino (w\<lparr>tick := Suc (tick w)\<rparr>))) t
                (set_node t (FileNode (next_ino (w\<lparr>tick := Suc (tick w)\<rparr>)))
                  ((w\<lparr>tick := Suc (tick w)\<rparr>)\<lparr>inodes := (inodes (w\<lparr>tick := Suc (tick w)\<rparr>))
                      (next_ino (w\<lparr>tick := Suc (tick w)\<rparr>) \<mapsto> \<lparr>content = [], mode = m\<rparr>),
                     next_ino := Suc (next_ino (w\<lparr>tick := Suc (tick w)\<rparr>))\<rparr>))) = (r, w2)"
    and "core w' = core w2"
  then show ?thesis
    by (auto simp: fail_def open_node_def core_eq core_def split: option.splits if_splits)
qed auto

lemma core_on_inode:
  assumes "on_inode f part upd w = (r, w')"
  shows "case fds w (file_fd f) of
      Some (FileNode i) \<Rightarrow> \<exists>g. (r = Ret () \<and> g = upd \<or> (\<exists>e k. r = Fail e \<and> g = part k)) \<and>
        core w' = (node_at w, (inodes w)(i := map_option g (inodes w i)), next_ino w, fds w, next_fd w)
    | _ \<Rightarrow> core w' = core w"
proof (cases "fds w (file_fd f)")
  case None
  with assms show ?thesis by (auto simp: on_inode_def fail_def)
next
  case (Some n)
  show ?thesis
  proof (cases n)
    case (DirNode m)
    with Some assms show ?thesis by (auto simp: on_inode_def ret_def elim: syscall_core)
  next
    case (FileNode i)
    let ?p = "\<lambda>k w. w\<lparr>inodes := (inodes w)(i := map_option (part k) (inodes w i))\<rparr>"
    let ?f = "\<lambda>w. ret () (w\<lparr>inodes := (inodes w)(i := map_option upd (inodes w i))\<rparr>)"
    have s: "syscall_part ?p ?f w = (r, w')" using assms Some FileNode by (simp add: on_inode_def)
    show ?thesis
    proof (cases rule: syscall_part_cases [of ?p ?f w])
      case (fault e k)
      with s Some FileNode show ?thesis by (auto simp: core_eq core_def intro!: exI [of _ "part k"])
    next
      case (run r2 w2)
      with s Some FileNode show ?thesis by (auto simp: ret_def core_eq core_def intro!: exI [of _ upd])
    qed
  qed
qed

lemma core_file_close:
  assumes "file_close f w = (r, w')"
  shows "core w' = (node_at w, inodes w, next_ino w, (fds w)(file_fd f := None), next_fd w)"
proof (cases "fds w (file_fd f)")
  case None
  with assms show ?thesis by (auto simp: file_close_def fail_def core_def fun_upd_idem)
next
  case (Some n)
  with assms have "syscall (ret ()) (log_ev (Rel (OpenFile (file_fd f))) (w\<lparr>fds := (fds w)(file_fd f := None)\<rparr>)) = (r, w')"
    by (simp add: file_close_def Let_def)
  then show ?thesis
    by (rule syscall_core) (auto simp: ret_def core_eq core_def)
qed

lemma core_link:
  assumes "os_link old new w = (r, w')"
  shows "if returned r then \<exists>i. node_at w old = Some (FileNode i) \<and> node_at w new = None \<and>
      core w' = ((node_at w)(new \<mapsto> FileNode i), inodes w, next_ino w, fds w, next_fd w)
    else core w' = core w"
  using assms unfolding os_link_def
  by (rule syscall_core)
    (auto simp: fail_def ret_def core_eq core_def split: option.splits node.splits if_splits)

lemma core_unlink:
  assumes "sys_unlink p w = (r, w')"
  shows "if returned r then \<exists>i. node_at w p = Some (FileNode i) \<and>
      core w' = ((node_at w)(p := None), inodes w, next_ino w, fds w, next_fd w)
    else core w' = core w"
  using assms unfolding sys_unlink_def
  by (rule syscall_core) (auto simp: fail_def ret_def core_eq core_def split: option.splits node.splits)

lemma core_rmdir:
  assumes "sys_rmdir p w = (r, w')"
  shows "if returned r then \<exists>m. node_at w p = Some (DirNode m) \<and>
      core w' = ((node_at w)(p := None), inodes w, next_ino w, fds w, next_fd w)
    else core w' = core w"
  using assms unfolding sys_rmdir_def
  by (rule syscall_core) (auto simp: fail_def ret_def core_eq core_def split: option.splits node.splits if_splits)

lemma core_read:
  assumes "read_open f w = (r, w')"
  shows "core w' = core w \<and> (\<forall>v. r = Ret v \<longrightarrow>
    (\<exists>i n. fds w (file_fd f) = Some (FileNode i) \<and> inodes w i = Some n \<and> content n = v))"
  using assms
  by (auto simp: read_open_def fail_def ret_def elim!: syscall_core split: option.splits node.splits)

section \<open>Steps that do not touch the keys\<close>

lemma coreD:
  assumes "core w' = core w"
  shows "node_at w' = node_at w" "inodes w' = inodes w" "next_ino w' = next_ino w" "fds w' = fds w"
    "next_fd w' = next_fd w" "file_at w' = file_at w" "os_wf w' = os_wf w"
  using assms by (auto simp: core_def os_wf_def intro: file_at_cong)

lemma blobPath_no_temp: "blobPath env name = Inr p \<Longrightarrow> \<not> is_temp p"
  using blobPath_not_temp by (auto simp: is_temp_def)

lemma table_same:
  assumes "\<And>p. \<not> is_temp p \<Longrightarrow> file_at w' p = file_at w p"
  shows "storedKeys env w' = storedKeys env w"
  by (rule ext) (auto simp: storedKeys_def assms [OF blobPath_no_temp] split: sum.split)

abbreviation keeps ::
    "environment \<Rightarrow> (string, bytes) table_op \<Rightarrow> (owned \<Rightarrow> bytes table_result option \<Rightarrow> 'x os_scheme \<Rightarrow> bool)
     \<Rightarrow> ('x os_scheme, 'a) prog \<Rightarrow> ('a outcome \<Rightarrow> owned \<Rightarrow> bytes table_result option \<Rightarrow> 'x os_scheme \<Rightarrow> bool) \<Rightarrow> bool" where
  "keeps env op Pre p \<Phi> \<equiv> holds files (storedKeys env) op Pre p \<Phi>"

text \<open>An assertion about nothing but what is owned.\<close>

definition steady :: "(owned \<Rightarrow> bytes table_result option \<Rightarrow> 'x os_scheme \<Rightarrow> bool) \<Rightarrow> bool" where
  "steady Pre \<longleftrightarrow> (\<forall>X e w w'. Pre X e w \<longrightarrow> rely files X w w' \<longrightarrow> Pre X e w')"

lemma steadyD: "steady Pre \<Longrightarrow> Pre X e w \<Longrightarrow> rely files X w w' \<Longrightarrow> Pre X e w'"
  by (auto simp: steady_def)

lemma steady_const: "steady (\<lambda>X e w. Q X e)"
  by (simp add: steady_def)

lemma steady_ex: "(\<And>x. steady (P x)) \<Longrightarrow> steady (\<lambda>X e w. \<exists>x. P x X e w)"
  unfolding steady_def by blast

lemma step_core:
  assumes "valid files X w" and "core w' = core w"
  shows "guar files X X w w' \<and> valid files X w' \<and> effect (storedKeys env) op e e w w' \<and> rely files X w w'"
  using assms(1) coreD [OF assms(2)]
  by (auto simp: guar_files files_sel effect_def intro!: table_same)

lemma keeps_core:
  assumes "steady Pre" and "\<And>w r w'. f w = (r, w') \<Longrightarrow> core w' = core w"
  shows "keeps env op Pre (atomic f) (\<lambda>_. Pre)"
proof (rule holds_atomic)
  fix X e w r w'
  assume v: "valid files X w" and P: "Pre X e w" and f: "f w = (r, w')"
  note s = step_core [OF v assms(2) [OF f], of env op e]
  with steadyD [OF assms(1) P] show "\<exists>X' e'. guar files X X' w w' \<and> valid files X' w' \<and>
      effect (storedKeys env) op e e' w w' \<and> Pre X' e' w'" by blast
qed (rule steadyD [OF assms(1)])

lemma keeps_mkdir:
  assumes "steady Pre"
  shows "keeps env op Pre (atomic (os_mkdir p m)) (\<lambda>_. Pre)"
proof (rule holds_atomic)
  fix X e w r w'
  assume v: "valid files X w" and P: "Pre X e w" and f: "os_mkdir p m w = (r, w')"
  show "\<exists>X' e'. guar files X X' w w' \<and> valid files X' w' \<and>
      effect (storedKeys env) op e e' w w' \<and> Pre X' e' w'"
  proof (cases "core w' = core w")
    case True
    with step_core [OF v True, of env op e] steadyD [OF assms P] show ?thesis by blast
  next
    case False
    with core_mkdir [OF f] have n: "node_at w p = None" and c: "node_at w' = (node_at w)(p \<mapsto> DirNode m)"
      "inodes w' = inodes w" "next_ino w' = next_ino w" "fds w' = fds w" "next_fd w' = next_fd w"
      by (simp_all add: core_eq)
    have "file_at w' q = file_at w q" for q using n by (simp add: file_at_def c split: option.split node.split)
    then have "storedKeys env w' = storedKeys env w" by (rule table_same)
    then have "effect (storedKeys env) op e e w w'" by (simp add: effect_def)
    moreover have "guar files X X w w'" using n by (auto simp: guar_files c)
    moreover have "valid files X w'" using v n by (auto simp: files_sel c os_wf_def)
    moreover have "rely files X w w'" using v n by (auto simp: files_sel c)
    ultimately show ?thesis using steadyD [OF assms P] by blast
  qed
qed (rule steadyD [OF assms])

lemma keeps_mkdir_all:
  assumes "steady Pre"
  shows "keeps env op Pre (mkdir_all_p p m) (\<lambda>_. Pre)"
proof (induction p m rule: mkdir_all_p.induct)
  case (1 p m)
  have fin: "keeps env op Pre (Finish r) (\<lambda>_. Pre)" for r :: "unit outcome"
    by (rule holds_Finish)
  have stat: "keeps env op Pre (atomic (os_stat p)) (\<lambda>_. Pre)"
    by (rule keeps_core [OF assms core_stat])
  have up: "keeps env op Pre (case mkdir_parent p of None \<Rightarrow> Finish (Ret ()) | Some q \<Rightarrow> mkdir_all_p q m) (\<lambda>_. Pre)"
    using 1 fin by (auto split: option.split)
  show ?case
    by (subst mkdir_all_p.simps)
      (intro holds_then [OF stat], auto intro!: fin holds_then [OF up] holds_then [OF keeps_mkdir [OF assms]]
        holds_then [OF stat] split: outcome.split node.split)
qed

section \<open>The temporary file\<close>

definition idle :: "owned \<Rightarrow> bytes table_result option \<Rightarrow> 'x os_scheme \<Rightarrow> bool" where
  "idle X e w \<longleftrightarrow> X = \<lparr>temps = {}, inos = {}, ofds = {}, pinned = {}\<rparr> \<and> e = None"

definition ended :: "bytes table_result option \<Rightarrow> owned \<Rightarrow> bytes table_result option \<Rightarrow> 'x os_scheme \<Rightarrow> bool" where
  "ended e0 X e w \<longleftrightarrow> e = e0"

text \<open>The temporary file with content and mode \<open>c\<close>; its descriptor is \<open>fd\<close>.\<close>

definition temp_file ::
    "os_file \<Rightarrow> nat \<Rightarrow> node option \<Rightarrow> inode \<Rightarrow> owned \<Rightarrow> bytes table_result option \<Rightarrow> 'x os_scheme \<Rightarrow> bool" where
  "temp_file f j fd c X e w \<longleftrightarrow>
     X = \<lparr>temps = {file_name f}, inos = {j}, ofds = {file_fd f}, pinned = {}\<rparr> \<and> e = None \<and>
     node_at w (file_name f) = Some (FileNode j) \<and> fds w (file_fd f) = fd \<and> inodes w j = Some c"

text \<open>Only its name matters.\<close>

definition temp_name_held :: "os_file \<Rightarrow> bytes table_result option \<Rightarrow> owned \<Rightarrow> bytes table_result option \<Rightarrow> 'x os_scheme \<Rightarrow> bool" where
  "temp_name_held f e0 X e w \<longleftrightarrow> e = e0 \<and> file_name f \<in> temps X \<and> file_fd f \<in> ofds X \<and>
     (\<exists>j. node_at w (file_name f) = Some (FileNode j))"

lemma steady_phases [intro]:
  "steady idle" "steady (ended e0)" "steady (temp_file f j fd c)" "steady (temp_name_held f e0)"
  by (auto simp: steady_def idle_def ended_def temp_file_def temp_name_held_def files_sel)

lemma temp_file_held: "temp_file f j fd c X e w \<Longrightarrow> temp_name_held f None X e w"
  by (simp add: temp_file_def temp_name_held_def)

text \<open>A step on an owned inode, descriptor or temporary name is no effect.\<close>

lemma own_table_same:
  assumes v: "valid files X w" and "\<And>p. \<not> is_temp p \<Longrightarrow> node_at w' p = node_at w p"
    and "\<And>j. j \<notin> inos X \<Longrightarrow> j < next_ino w \<Longrightarrow> inodes w' j = inodes w j"
  shows "storedKeys env w' = storedKeys env w"
proof (rule table_same)
  fix p assume p: "\<not> is_temp p"
  have "inodes w' j = inodes w j" if "node_at w p = Some (FileNode j)" for j
  proof (rule assms(3))
    show "j \<notin> inos X" using v p that by (auto simp: files_sel)
    show "j < next_ino w" using v that by (auto simp: files_sel os_wf_def)
  qed
  with assms(2) [OF p] show "file_at w' p = file_at w p"
    by (auto simp: file_at_def split: option.split node.split)
qed

definition temp_created :: "os_file outcome \<Rightarrow> owned \<Rightarrow> bytes table_result option \<Rightarrow> 'x os_scheme \<Rightarrow> bool" where
  "temp_created r X e w \<longleftrightarrow>
     (case r of
        Ret f \<Rightarrow> (\<exists>j. temp_file f j (Some (FileNode j)) \<lparr>content = [], mode = 384\<rparr> X e w)
      | _ \<Rightarrow> idle X e w)"

lemma temp_created_simps [simp]: "temp_created (Fail er) = idle" "temp_created (Panic m) = idle"
  by (simp_all add: temp_created_def fun_eq_iff)

lemma keeps_create_temp: "keeps env op idle (create_temp_p k dir pre) temp_created"
proof (induction k)
  case 0
  show ?case by (auto intro: holds_Finish simp: temp_created_def)
next
  case (Suc k)
  let ?Q = temp_created
  have "keeps env op idle (atomic (\<lambda>w :: 'a os_scheme. os_open_excl (temp_name dir pre (rands w (tick w))) 384 w)) ?Q"
  proof (rule holds_atomic)
    fix X e and w w' :: "'a os_scheme" and r
    assume v: "valid files X w" and "idle X e w"
      and f: "os_open_excl (temp_name dir pre (rands w (tick w))) 384 w = (r, w')"
    then have X: "X = \<lparr>temps = {}, inos = {}, ofds = {}, pinned = {}\<rparr>" "e = None" by (simp_all add: idle_def)
    show "\<exists>X' e'. guar files X X' w w' \<and> valid files X' w' \<and> effect (storedKeys env) op e e' w w' \<and> ?Q r X' e' w'"
    proof (cases r)
      case (Ret tmp)
      let ?t = "file_name tmp" and ?j = "next_ino w"
      let ?X = "\<lparr>temps = {?t}, inos = {?j}, ofds = {file_fd tmp}, pinned = {}\<rparr>"
      from core_open_excl [OF f] Ret have n: "node_at w ?t = None" and d: "file_fd tmp = next_fd w"
        and t: "?t = temp_name dir pre (rands w (tick w))"
        and c: "node_at w' = (node_at w)(?t \<mapsto> FileNode ?j)" "inodes w' = (inodes w)(?j \<mapsto> \<lparr>content = [], mode = 384\<rparr>)"
          "next_ino w' = Suc ?j" "fds w' = (fds w)(next_fd w \<mapsto> FileNode ?j)" "next_fd w' = Suc (next_fd w)"
        by (auto simp: core_eq)
      have tt: "is_temp ?t" using t by (auto simp: is_temp_def)
      have wf: "os_wf w" using v by (simp add: files_sel)
      have fresh: "node_at w p \<noteq> Some (FileNode ?j)" for p using os_wfD [OF wf] by blast
      have "storedKeys env w' = storedKeys env w"
        by (rule own_table_same [OF v]) (use tt in \<open>auto simp: c\<close>)
      moreover have "guar files X ?X w w'" using n d by (auto simp: guar_files X files_sel c)
      moreover have "os_wf w'" using wf by (auto simp: os_wf_def c less_Suc_eq)
      then have "valid files ?X w'" using tt d fresh by (auto simp: files_sel c split: if_splits)
      moreover have "?Q r ?X None w'" using Ret d by (auto simp: temp_created_def temp_file_def c)
      ultimately show ?thesis using X(2) by (auto simp: effect_def)
    next
      case (Fail er)
      with core_open_excl [OF f] have "core w' = core w" by simp
      from step_core [OF v this, of env op e] X Fail show ?thesis by (auto simp: temp_created_def idle_def)
    next
      case (Panic m)
      with core_open_excl [OF f] have "core w' = core w" by simp
      from step_core [OF v this, of env op e] X Panic show ?thesis by (auto simp: temp_created_def idle_def)
    qed
  qed (rule steadyD [OF steady_phases(1)])
  then show ?case unfolding create_temp_p.simps
  proof (rule holds_then)
    show "keeps env op (?Q r) (case r of Fail (Sys EEXIST) \<Rightarrow> create_temp_p k dir pre | _ \<Rightarrow> (Finish r :: ('a os_scheme, os_file) prog)) ?Q" for r
    proof (cases "r = Fail (Sys EEXIST)")
      case True
      with Suc.IH show ?thesis by simp
    next
      case False
      then have "(case r of Fail (Sys EEXIST) \<Rightarrow> create_temp_p k dir pre | _ \<Rightarrow> Finish r)
          = (Finish r :: ('a os_scheme, os_file) prog)"
        by (simp split: outcome.split go_err.split errno.split)
      then show ?thesis by (simp add: holds_Finish)
    qed
  qed
qed

text \<open>\<^verbatim>\<open>Chmod\<close>, \<^verbatim>\<open>Write\<close> and \<^verbatim>\<open>Sync\<close> on the temporary file.\<close>

lemma keeps_on_inode:
  "keeps env op (temp_file f j (Some (FileNode j)) c) (atomic (on_inode f part upd))
     (\<lambda>r. if returned r then temp_file f j (Some (FileNode j)) (upd c) else temp_name_held f None)"
proof (rule holds_atomic)
  fix X e and w w' :: "'a os_scheme" and r
  assume v: "valid files X w" and P: "temp_file f j (Some (FileNode j)) c X e w" and o: "on_inode f part upd w = (r, w')"
  then have X: "inos X = {j}" "fds w (file_fd f) = Some (FileNode j)" "inodes w j = Some c" by (auto simp: temp_file_def)
  from core_on_inode [OF o] X obtain g where g: "r = Ret () \<and> g = upd \<or> (\<exists>e k. r = Fail e \<and> g = part k)"
    and c: "node_at w' = node_at w" "inodes w' = (inodes w)(j := Some (g c))" "next_ino w' = next_ino w"
      "fds w' = fds w" "next_fd w' = next_fd w"
    by (auto simp: core_eq)
  have "storedKeys env w' = storedKeys env w"
    by (rule own_table_same [OF v]) (auto simp: c X)
  moreover have "guar files X X w w'" by (auto simp: guar_files X c)
  moreover have "valid files X w'" using v by (auto simp: files_sel c os_wf_def)
  moreover have "temp_file f j (Some (FileNode j)) (g c) X e w'" using P by (simp add: temp_file_def c)
  ultimately show "\<exists>X' e'. guar files X X' w w' \<and> valid files X' w' \<and> effect (storedKeys env) op e e' w w' \<and>
      (if returned r then temp_file f j (Some (FileNode j)) (upd c) else temp_name_held f None) X' e' w'"
    using g temp_file_held by (intro exI [of _ X] exI [of _ e]) (auto simp: effect_def)
qed (rule steadyD [OF steady_phases(3)])

text \<open>Closing it, in whatever state it is.\<close>

lemma step_close:
  assumes v: "valid files X w" and d: "file_fd f \<in> ofds X" and c: "file_close f w = (r, w')"
  shows "guar files X X w w' \<and> valid files X w' \<and> effect (storedKeys env) op e e w w' \<and>
    node_at w' = node_at w \<and> inodes w' = inodes w \<and> fds w' = (fds w)(file_fd f := None)"
proof -
  from core_file_close [OF c] have e: "node_at w' = node_at w" "inodes w' = inodes w" "next_ino w' = next_ino w"
    "fds w' = (fds w)(file_fd f := None)" "next_fd w' = next_fd w" by (simp_all add: core_eq)
  have "storedKeys env w' = storedKeys env w" by (rule own_table_same [OF v]) (simp_all add: e)
  with v d show ?thesis by (auto simp: guar_files files_sel e effect_def os_wf_def)
qed

lemma keeps_close:
  "keeps env op (temp_file f j fd c) (atomic (file_close f)) (\<lambda>_. temp_file f j None c)"
proof (rule holds_atomic)
  fix X e and w w' :: "'a os_scheme" and r
  assume v: "valid files X w" and P: "temp_file f j fd c X e w" and o: "file_close f w = (r, w')"
  have d: "file_fd f \<in> ofds X" using P by (simp add: temp_file_def)
  show "\<exists>X' e'. guar files X X' w w' \<and> valid files X' w' \<and> effect (storedKeys env) op e e' w w' \<and>
      temp_file f j None c X' e' w'"
    using step_close [OF v d o, of env op e] P
    by (intro exI [of _ X] exI [of _ e]) (simp add: temp_file_def)
qed (rule steadyD [OF steady_phases(3)])

lemma keeps_close_held:
  "keeps env op (temp_name_held f e0) (atomic (file_close f)) (\<lambda>_. temp_name_held f e0)"
proof (rule holds_atomic)
  fix X e and w w' :: "'a os_scheme" and r
  assume v: "valid files X w" and P: "temp_name_held f e0 X e w" and o: "file_close f w = (r, w')"
  have d: "file_fd f \<in> ofds X" using P by (simp add: temp_name_held_def)
  show "\<exists>X' e'. guar files X X' w w' \<and> valid files X' w' \<and> effect (storedKeys env) op e e' w w' \<and>
      temp_name_held f e0 X' e' w'"
    using step_close [OF v d o, of env op e] P
    by (intro exI [of _ X] exI [of _ e]) (simp add: temp_name_held_def)
qed (rule steadyD [OF steady_phases(4)])

text \<open>Removing the temporary name: nobody else can have removed it or made it a directory.\<close>

lemma keeps_remove_temp:
  "keeps env op (temp_name_held f e0) (remove_p (file_name f)) (\<lambda>_. ended e0)"
proof -
  let ?t = "file_name f" and ?none = "\<lparr>temps = {}, inos = {}, ofds = {}, pinned = {}\<rparr>"
  have unlink: "keeps env op (temp_name_held f e0) (atomic (sys_unlink ?t) :: ('a os_scheme, unit) prog)
      (\<lambda>r. if returned r then ended e0 else temp_name_held f e0)"
  proof (rule holds_atomic)
    fix X e and w w' :: "'a os_scheme" and r
    assume v: "valid files X w" and P: "temp_name_held f e0 X e w" and u: "sys_unlink ?t w = (r, w')"
    have t: "?t \<in> temps X" "is_temp ?t" using P v by (auto simp: temp_name_held_def files_sel)
    show "\<exists>X' e'. guar files X X' w w' \<and> valid files X' w' \<and> effect (storedKeys env) op e e' w w' \<and>
        (if returned r then ended e0 else temp_name_held f e0) X' e' w'"
    proof (cases "returned r")
      case True
      with core_unlink [OF u] have c: "node_at w' = (node_at w)(?t := None)" "inodes w' = inodes w"
        "next_ino w' = next_ino w" "fds w' = fds w" "next_fd w' = next_fd w" by (auto simp: core_eq)
      have "storedKeys env w' = storedKeys env w"
        by (rule own_table_same [OF v]) (use t in \<open>auto simp: c\<close>)
      moreover have "guar files X ?none w w'" using t by (auto simp: guar_files c)
      moreover have "valid files ?none w'" using v by (auto simp: files_sel os_wf_def c)
      ultimately show ?thesis using True P
        by (intro exI [of _ ?none] exI [of _ e]) (simp add: effect_def ended_def temp_name_held_def)
    next
      case False
      with core_unlink [OF u] have "core w' = core w" by simp
      from step_core [OF v this, of env op e] steadyD [OF steady_phases(4) P] False show ?thesis by auto
    qed
  qed (rule steadyD [OF steady_phases(4)])
  have rmdir: "keeps env op (temp_name_held f e0) (atomic (sys_rmdir ?t) :: ('a os_scheme, unit) prog) (\<lambda>_. ended e0)"
  proof (rule holds_atomic)
    fix X e and w w' :: "'a os_scheme" and r
    assume v: "valid files X w" and P: "temp_name_held f e0 X e w" and u: "sys_rmdir ?t w = (r, w')"
    from core_rmdir [OF u] P have "core w' = core w" by (auto simp: temp_name_held_def split: if_splits)
    from step_core [OF v this, of env op e] P
    show "\<exists>X' e'. guar files X X' w w' \<and> valid files X' w' \<and> effect (storedKeys env) op e e' w w' \<and> ended e0 X' e' w'"
      by (auto simp: ended_def temp_name_held_def)
  qed (rule steadyD [OF steady_phases(4)])
  have fin: "keeps env op (ended e0) (Finish r :: ('a os_scheme, unit) prog) (\<lambda>_. ended e0)" for r
    by (rule holds_Finish)
  show ?thesis unfolding remove_p_def
  proof (rule holds_then [OF unlink])
    fix r :: "unit outcome"
    show "keeps env op (if returned r then ended e0 else temp_name_held f e0)
        (case r of Ret u \<Rightarrow> Finish (Ret u) | _ \<Rightarrow> pthen (atomic (sys_rmdir ?t) :: ('a os_scheme, unit) prog)
          (\<lambda>r2. case r2 of Ret u \<Rightarrow> Finish (Ret u) | Fail (Sys ENOTDIR) \<Rightarrow> Finish r | _ \<Rightarrow> Finish r2)) (\<lambda>_. ended e0)"
      by (cases r) (auto intro!: fin holds_then [OF rmdir] split: outcome.split go_err.split errno.split)
  qed
qed

section \<open>Publishing\<close>

text \<open>Linking is the moment the key appears: the name was free, and the finished file gets it.\<close>

lemma stored_upd:
  assumes "blobPath env name = Inr path" and "\<And>p. \<not> is_temp p \<Longrightarrow> p \<noteq> path \<Longrightarrow> file_at w' p = file_at w p"
  shows "storedKeys env w' = (storedKeys env w)(name := map_option fst (file_at w' path))"
proof
  fix n
  show "storedKeys env w' n = ((storedKeys env w)(name := map_option fst (file_at w' path))) n"
  proof (cases "blobPath env n")
    case (Inr q)
    have "q = path \<longleftrightarrow> n = name" using Inr assms(1) blobPath_inject by auto
    then show ?thesis using Inr assms(1) assms(2) [OF blobPath_no_temp [OF Inr]]
      by (cases "n = name") (simp_all add: storedKeys_def)
  qed (use assms(1) in \<open>auto simp: storedKeys_def\<close>)
qed

lemma stored_at: "blobPath env name = Inr path \<Longrightarrow> storedKeys env w name = map_option fst (file_at w path)"
  by (simp add: storedKeys_def)

definition published_st :: "os_file \<Rightarrow> unit outcome \<Rightarrow> owned \<Rightarrow> bytes table_result option \<Rightarrow> 'x os_scheme \<Rightarrow> bool" where
  "published_st f r X e w \<longleftrightarrow> temp_name_held f (if returned r then Some Done else None) X e w"

lemma keeps_link:
  assumes path: "blobPath env name = Inr path" and c: "content c = buf"
  shows "keeps env (Insert name buf) (temp_file f j None c) (atomic (os_link (file_name f) path)) (published_st f)"
proof (rule holds_atomic)
  fix X e and w w' :: "'a os_scheme" and r
  let ?t = "file_name f" and ?X = "\<lparr>temps = {file_name f}, inos = {}, ofds = {file_fd f}, pinned = {}\<rparr>"
  assume v: "valid files X w" and P: "temp_file f j None c X e w" and l: "os_link ?t path w = (r, w')"
  have X: "X = \<lparr>temps = {?t}, inos = {j}, ofds = {file_fd f}, pinned = {}\<rparr>" "e = None"
    "node_at w ?t = Some (FileNode j)" "inodes w j = Some c" using P by (auto simp: temp_file_def)
  have nt: "\<not> is_temp path" by (rule blobPath_no_temp [OF path])
  have tt: "is_temp ?t" using v X(1) by (simp add: files_sel)
  then have pt: "path \<noteq> ?t" using nt by auto
  show "\<exists>X' e'. guar files X X' w w' \<and> valid files X' w' \<and> effect (storedKeys env) (Insert name buf) e e' w w' \<and>
      published_st f r X' e' w'"
  proof (cases "returned r")
    case True
    with core_link [OF l] X(3) have n: "node_at w path = None"
      and k: "node_at w' = (node_at w)(path \<mapsto> FileNode j)" "inodes w' = inodes w" "next_ino w' = next_ino w"
        "fds w' = fds w" "next_fd w' = next_fd w" by (auto simp: core_eq)
    have "file_at w' p = file_at w p" if "p \<noteq> path" for p
      using that by (simp add: file_at_def k split: option.split node.split)
    then have "storedKeys env w' = (storedKeys env w)(name := map_option fst (file_at w' path))"
      by (intro stored_upd [OF path])
    moreover have "file_at w' path = Some (buf, mode c)" using X(4) by (simp add: file_at_def k c)
    moreover have "storedKeys env w name = None" by (simp add: stored_at [OF path] file_at_None_node [OF n])
    ultimately have effect: "effect (storedKeys env) (Insert name buf) e (Some Done) w w'" using X(2) by (simp add: effect_def)
    have guar: "guar files X ?X w w'" using n by (auto simp: guar_files k X(1))
    have wf: "os_wf w" using v by (simp add: files_sel)
    have "os_wf w'" unfolding os_wf_def k
    proof (intro allI impI)
      fix p i assume "((node_at w)(path \<mapsto> FileNode j)) p = Some (FileNode i)"
      then show "i < next_ino w \<and> inodes w i \<noteq> None"
        using os_wfD [OF wf, of p i] os_wfD [OF wf X(3)] by (cases "p = path") auto
    qed
    moreover have "file_fd f < next_fd w" using v X(1) by (simp add: files_sel)
    ultimately have "valid files ?X w'" using tt X(3) pt by (simp add: files_sel k(1,5))
    moreover have "published_st f r ?X (Some Done) w'"
      using True X(3) pt by (simp add: published_st_def temp_name_held_def k(1))
    ultimately show ?thesis using effect guar by blast
  next
    case False
    with core_link [OF l] have "core w' = core w" by simp
    from step_core [OF v this, of env "Insert name buf" e] False P steadyD [OF steady_phases(3) P] show ?thesis
      by (auto simp: published_st_def intro: temp_file_held)
  qed
qed (rule steadyD [OF steady_phases(3)])

lemma keeps_commit:
  assumes path: "blobPath env name = Inr path"
  shows "keeps env (Insert name buf) (\<lambda>X e w. \<exists>j. temp_file f j (Some (FileNode j)) \<lparr>content = [], mode = 384\<rparr> X e w)
    (commit_p path buf f) (published_st f)"
proof -
  let ?op = "Insert name buf" and ?new = "\<lparr>content = [], mode = 384\<rparr>" and ?c = "\<lparr>content = buf, mode = 384\<rparr>"
  let ?R = "\<lambda>j c r. if returned r then temp_file f j (Some (FileNode j)) c else temp_name_held f None"
  have stage: "keeps env ?op (temp_file f j (Some (FileNode j)) c) (pbind (pon_err h (atomic (on_inode f part upd))) g) (published_st f)"
    if "\<And>x. keeps env ?op (temp_file f j (Some (FileNode j)) (upd c)) (g x) (published_st f)"
    for j c h part upd and g :: "unit \<Rightarrow> ('a os_scheme, unit) prog"
  proof (rule holds_bind [where R = "\<lambda>r. ?R j (upd c) r"])
    show "keeps env ?op (temp_file f j (Some (FileNode j)) c) (pon_err h (atomic (on_inode f part upd))) (\<lambda>r. ?R j (upd c) r)"
      by (rule holds_on_err [OF keeps_on_inode]) simp_all
  qed (simp_all add: that published_st_def)
  have close: "keeps env ?op (temp_file f j (Some (FileNode j)) ?c) (pbind (pon_err h (atomic (file_close f))) g) (published_st f)"
    if "\<And>x. keeps env ?op (temp_file f j None ?c) (g x) (published_st f)"
    for j h and g :: "unit \<Rightarrow> ('a os_scheme, unit) prog"
  proof (rule holds_bind [where R = "\<lambda>_. temp_file f j None ?c"])
    show "keeps env ?op (temp_file f j (Some (FileNode j)) ?c) (pon_err h (atomic (file_close f))) (\<lambda>_. temp_file f j None ?c)"
      by (rule holds_on_err [OF keeps_close]) simp_all
  qed (auto simp: that published_st_def intro: temp_file_held)
  have link: "keeps env ?op (temp_file f j None ?c) (pon_err h (atomic (os_link (file_name f) path))) (published_st f)" for j h
    by (rule holds_on_err [OF keeps_link [OF path]]) (simp_all add: published_st_def)
  have "keeps env ?op (temp_file f j (Some (FileNode j)) ?new) (commit_p path buf f :: ('a os_scheme, unit) prog) (published_st f)" for j
    unfolding commit_p_def file_chmod_def file_write_def file_sync_def
    by (intro stage) (simp, intro close link)
  then show ?thesis unfolding holds_def by blast
qed

text \<open>Opening a path for reading takes a descriptor, whatever else is owned.\<close>

lemma step_open:
  assumes v: "valid files X w" and o: "os_open p w = (Ret f, w')"
  shows "\<exists>n. guar files X (X\<lparr>ofds := insert (file_fd f) (ofds X)\<rparr>) w w' \<and>
    valid files (X\<lparr>ofds := insert (file_fd f) (ofds X)\<rparr>) w' \<and> storedKeys env w' = storedKeys env w \<and>
    node_at w p = Some n \<and> fds w' (file_fd f) = Some n \<and> node_at w' = node_at w \<and> inodes w' = inodes w"
proof -
  from core_open [OF o] obtain n where n: "node_at w p = Some n" and d: "file_fd f = next_fd w"
    and c: "node_at w' = node_at w" "inodes w' = inodes w" "next_ino w' = next_ino w"
      "fds w' = (fds w)(next_fd w \<mapsto> n)" "next_fd w' = Suc (next_fd w)"
    by (auto simp: core_eq)
  have "storedKeys env w' = storedKeys env w" by (rule own_table_same [OF v]) (simp_all add: c)
  moreover have "valid files (X\<lparr>ofds := insert (file_fd f) (ofds X)\<rparr>) w'"
    using v by (auto simp: files_sel c d os_wf_def less_Suc_eq)
  ultimately show ?thesis using n by (auto simp: guar_files c d)
qed

definition holds_fd :: "bytes table_result option \<Rightarrow> os_file \<Rightarrow> owned \<Rightarrow> bytes table_result option \<Rightarrow> 'x os_scheme \<Rightarrow> bool" where
  "holds_fd e0 f X e w \<longleftrightarrow> e = e0 \<and> file_fd f \<in> ofds X"

lemma steady_holds_fd: "steady (holds_fd e0 f)"
  by (simp add: steady_def holds_fd_def)

lemma core_sync: "file_sync f w = (r, w') \<Longrightarrow> core w' = core w"
  unfolding file_sync_def
  by (drule core_on_inode) (auto simp: core_eq core_def option.map_ident fun_upd_idem split: option.splits node.splits)

lemma keeps_close_fd: "keeps env op (holds_fd e0 f) (atomic (file_close f)) (\<lambda>_. ended e0)"
proof (rule holds_atomic)
  fix X e and w w' :: "'a os_scheme" and r
  assume v: "valid files X w" and P: "holds_fd e0 f X e w" and o: "file_close f w = (r, w')"
  show "\<exists>X' e'. guar files X X' w w' \<and> valid files X' w' \<and> effect (storedKeys env) op e e' w w' \<and> ended e0 X' e' w'"
    using step_close [OF v _ o, of env op e] P by (auto simp: holds_fd_def ended_def)
qed (rule steadyD [OF steady_holds_fd])

lemma keeps_syncDir: "keeps env op (ended e0) (syncDir_p dir) (\<lambda>r X e w. r = Ret () \<and> ended e0 X e w)"
proof -
  let ?Q = "\<lambda>r X e w. r = Ret () \<and> ended e0 X e w"
  have "keeps env op (ended e0) (atomic (os_open dir) :: ('a os_scheme, os_file) prog)
      (\<lambda>r. case r of Ret f \<Rightarrow> holds_fd e0 f | _ \<Rightarrow> ended e0)"
  proof (rule holds_atomic)
    fix X e and w w' :: "'a os_scheme" and r
    assume v: "valid files X w" and P: "ended e0 X e w" and o: "os_open dir w = (r, w')"
    show "\<exists>X' e'. guar files X X' w w' \<and> valid files X' w' \<and> effect (storedKeys env) op e e' w w' \<and>
        (case r of Ret f \<Rightarrow> holds_fd e0 f | _ \<Rightarrow> ended e0) X' e' w'"
    proof (cases "\<exists>f. r = Ret f")
      case True
      then obtain f where r: "r = Ret f" by blast
      from step_open [OF v o [unfolded r], of env] P show ?thesis
        by (intro exI [of _ "X\<lparr>ofds := insert (file_fd f) (ofds X)\<rparr>"] exI [of _ e])
          (auto simp: r effect_def holds_fd_def ended_def)
    next
      case False
      with core_open [OF o] have "core w' = core w" by (cases r) auto
      from step_core [OF v this, of env op e] P False show ?thesis by (cases r) (auto simp: ended_def)
    qed
  qed (simp add: ended_def)
  then show ?thesis unfolding syncDir_p_def
  proof (rule holds_then)
    fix r :: "os_file outcome"
    have "keeps env op (holds_fd e0 f) (pthen (atomic (file_sync f))
        (\<lambda>_. pthen (atomic (file_close f)) (\<lambda>_. Finish (Ret ()))) :: ('a os_scheme, unit) prog) ?Q" for f
      by (intro holds_then [OF keeps_core [OF steady_holds_fd core_sync]] holds_then [OF keeps_close_fd] holds_Finish) simp_all
    then show "keeps env op (case r of Ret f \<Rightarrow> holds_fd e0 f | _ \<Rightarrow> ended e0)
        (case r of Ret d \<Rightarrow> pthen (atomic (file_sync d)) (\<lambda>_. pthen (atomic (file_close d)) (\<lambda>_. Finish (Ret ())))
         | _ \<Rightarrow> (Finish (Ret ()) :: ('a os_scheme, unit) prog)) ?Q"
      by (cases r) (auto intro: holds_Finish)
  qed
qed

text \<open>A publication succeeds exactly when it linked.\<close>

definition settled :: "'a outcome \<Rightarrow> owned \<Rightarrow> bytes table_result option \<Rightarrow> 'x os_scheme \<Rightarrow> bool" where
  "settled r X e w \<longleftrightarrow> e = (if returned r then Some Done else None)"

lemma published_st_simps:
  "published_st f (Ret u) = temp_name_held f (Some Done)" "published_st f (Fail er) = temp_name_held f None"
  "published_st f (Panic m) = temp_name_held f None"
  by (simp_all add: published_st_def fun_eq_iff)

lemma keeps_settle: "keeps env op (published_st f r) (settle_p dir f r) settled"
proof -
  have ok: "keeps env op (temp_name_held f (Some Done)) (pthen (remove_p (file_name f)) (\<lambda>_. syncDir_p dir)) settled"
    by (intro holds_then [OF keeps_remove_temp] holds_conseq [OF keeps_syncDir]) (auto simp: settled_def ended_def)
  have close: "keeps env op (temp_name_held f None)
      (pthen (atomic (file_close f)) (\<lambda>_. pthen (remove_p (file_name f)) (\<lambda>_. Finish x))) settled" if "\<not> returned x" for x
    by (intro holds_then [OF keeps_close_held] holds_then [OF keeps_remove_temp] holds_Finish)
      (use that in \<open>simp add: settled_def ended_def\<close>)
  have fin: "keeps env op (temp_name_held f None) (Finish x) settled" if "\<not> returned x" for x
    by (rule holds_Finish) (use that in \<open>simp add: settled_def temp_name_held_def\<close>)
  show ?thesis by (cases r) (simp_all add: settle_p_def published_st_simps ok close fin)
qed

lemma keeps_publish:
  assumes path: "blobPath env name = Inr path"
  shows "keeps env (Insert name buf) idle (publish_p path buf) settled"
proof -
  have none: "settled (Fail er) X e w" "settled (Panic m) X e w" if "idle X e w" for er m X e w
    using that by (simp_all add: settled_def idle_def)
  have mk: "keeps env (Insert name buf) idle (pon_err h (mkdir_all_p d m)) (\<lambda>_. idle)" for h d m
    by (rule holds_on_err [OF keeps_mkdir_all [OF steady_phases(1)]])
  have tmp: "keeps env (Insert name buf) idle (pon_err h (create_temp_p k d pre)) temp_created" for h k d pre
    by (rule holds_on_err [OF keeps_create_temp]) simp_all
  have "keeps env (Insert name buf) (temp_created (Ret f)) (pthen (commit_p path buf f) (settle_p d f)) settled" for f d
    using holds_then [OF keeps_commit [OF path] keeps_settle] by (simp add: temp_created_def [abs_def])
  then show ?thesis unfolding publish_p_def Let_def
    by (intro holds_bind [OF mk] holds_bind [OF tmp]) (simp_all add: none)
qed

section \<open>The operations\<close>

lemma keeps_conseq_agrees:
  "keeps env op Pre p R \<Longrightarrow> (\<And>r X e w. R r X e w \<Longrightarrow> agrees op r X e w) \<Longrightarrow> keeps env op Pre p (agrees op)"
  by (erule holds_conseq)

lemma settled_agrees:
  "settled r X e w \<Longrightarrow> agrees (Insert name buf) r X e w" "settled r X e w \<Longrightarrow> agrees (Delete name) r X e w"
  by (auto simp: settled_def agrees_def answered_def split: if_splits)

lemma keeps_insert: "keeps env (Insert name buf) idle (store_op env (Insert name buf)) (agrees (Insert name buf))"
proof (rule keeps_conseq_agrees [where R = settled])
  have none: "settled (Fail er) X e w" "settled (Panic m) X e w" if "idle X e w" for er m X e w
    using that by (simp_all add: settled_def idle_def)
  show "keeps env (Insert name buf) idle (store_op env (Insert name buf)) settled"
  proof (cases "blobPath env name")
    case (Inl er)
    then show ?thesis by (auto simp: pof_sum_def pbind_def none intro: holds_Finish)
  next
    case (Inr path)
    have "keeps env (Insert name buf) idle (pon_err h (publish_p path buf)) settled" for h
      by (rule holds_on_err [OF keeps_publish [OF Inr]]) (simp_all add: settled_def)
    then have p: "keeps env (Insert name buf) idle (pbind (pon_err h (publish_p path buf)) (\<lambda>_. Finish (Ret []))) settled" for h
      by (rule holds_bind) (auto intro: holds_Finish simp: settled_def)
    have "keeps env (Insert name buf) idle (atomic (statGuard path name)) (\<lambda>_. idle)"
      by (rule keeps_core [OF steady_phases(1) core_statGuard])
    then have "keeps env (Insert name buf) idle (pbind (atomic (statGuard path name)) (\<lambda>_.
        pbind (pon_err h (publish_p path buf)) (\<lambda>_. Finish (Ret [])))) settled" for h
      by (rule holds_bind) (simp_all add: none p)
    then show ?thesis by (simp add: Inr pof_sum_def pbind_def [of "Finish _"])
  qed
qed (rule settled_agrees)

text \<open>Removing a key is the moment its name goes, also when the name was a directory.\<close>

lemma step_removed:
  assumes path: "blobPath env name = Inr path" and v: "valid files X w"
    and X: "X = \<lparr>temps = {}, inos = {}, ofds = {}, pinned = {}\<rparr>"
    and c: "core w' = ((node_at w)(path := None), inodes w, next_ino w, fds w, next_fd w)"
  shows "guar files X X w w' \<and> valid files X w' \<and> effect (storedKeys env) (Delete name) None (Some Done) w w'"
proof -
  from c have k: "node_at w' = (node_at w)(path := None)" "inodes w' = inodes w" "next_ino w' = next_ino w"
    "fds w' = fds w" "next_fd w' = next_fd w" by (simp_all add: core_eq)
  have "file_at w' p = file_at w p" if "p \<noteq> path" for p
    using that by (simp add: file_at_def k split: option.split node.split)
  then have "storedKeys env w' = (storedKeys env w)(name := map_option fst (file_at w' path))"
    by (intro stored_upd [OF path])
  moreover have "file_at w' path = None" by (simp add: file_at_None_node k)
  ultimately have "effect (storedKeys env) (Delete name) None (Some Done) w w'" by (simp add: effect_def)
  moreover have "guar files X X w w'" using blobPath_no_temp [OF path] by (auto simp: guar_files X k)
  moreover have "valid files X w'" using v by (auto simp: files_sel X k os_wf_def)
  ultimately show ?thesis by simp
qed

lemma keeps_remove_key:
  assumes path: "blobPath env name = Inr path"
    and f: "\<And>w r w'. f w = (r, w') \<Longrightarrow> if returned r
      then core w' = ((node_at w)(path := None), inodes w, next_ino w, fds w, next_fd w) else core w' = core w"
  shows "keeps env (Delete name) idle (atomic f) (\<lambda>r. if returned r then ended (Some Done) else idle)"
proof (rule holds_atomic)
  fix X e and w w' :: "'a os_scheme" and r
  assume v: "valid files X w" and P: "idle X e w" and o: "f w = (r, w')"
  show "\<exists>X' e'. guar files X X' w w' \<and> valid files X' w' \<and> effect (storedKeys env) (Delete name) e e' w w' \<and>
      (if returned r then ended (Some Done) else idle) X' e' w'"
  proof (cases "returned r")
    case True
    with f [OF o] have c: "core w' = ((node_at w)(path := None), inodes w, next_ino w, fds w, next_fd w)" by simp
    from step_removed [OF path v _ c] P True show ?thesis
      by (intro exI [of _ X] exI [of _ "Some Done"]) (simp add: idle_def ended_def)
  next
    case False
    with f [OF o] have "core w' = core w" by simp
    from step_core [OF v this, of env "Delete name" e] steadyD [OF steady_phases(1) P] False show ?thesis by auto
  qed
qed (rule steadyD [OF steady_phases(1)])

lemma keeps_delete: "keeps env (Delete name) idle (store_op env (Delete name)) (agrees (Delete name))"
proof (rule keeps_conseq_agrees [where R = settled])
  have none: "settled (Fail er) X e w" "settled (Panic m) X e w" if "idle X e w" for er m X e w
    using that by (simp_all add: settled_def idle_def)
  show "keeps env (Delete name) idle (store_op env (Delete name)) settled"
  proof (cases "blobPath env name")
    case (Inl er)
    then show ?thesis by (auto simp: pof_sum_def pbind_def none intro: holds_Finish)
  next
    case (Inr path)
    let ?S = "\<lambda>r. if returned r then ended (Some Done) else idle"
    have unlink: "keeps env (Delete name) idle (atomic (sys_unlink path)) ?S"
      by (rule keeps_remove_key [OF Inr]) (auto dest!: core_unlink split: if_splits)
    have rmdir: "keeps env (Delete name) idle (atomic (sys_rmdir path)) ?S"
      by (rule keeps_remove_key [OF Inr]) (auto dest!: core_rmdir split: if_splits)
    have fin: "keeps env (Delete name) (?S r) (Finish x) settled" if "returned x = returned r" for r x :: "unit outcome"
      by (rule holds_Finish) (use that in \<open>auto simp: settled_def ended_def idle_def split: if_splits\<close>)
    have idle: "keeps env (Delete name) idle (Finish x) settled" if "\<not> returned x" for x :: "unit outcome"
      by (rule holds_Finish) (use that in \<open>simp add: settled_def idle_def\<close>)
    have "keeps env (Delete name) idle (remove_p path) settled"
      unfolding remove_p_def
    proof (rule holds_then [OF unlink])
      fix r :: "unit outcome"
      have rest: "keeps env (Delete name) (?S r2)
          (case r2 of Ret u \<Rightarrow> Finish (Ret u) | Fail (Sys ENOTDIR) \<Rightarrow> Finish r | _ \<Rightarrow> Finish r2) settled"
        if "\<not> returned r" for r2
        using fin [of r2 r2] idle [of r] that
        by (cases r2) (auto split: go_err.split errno.split)
      show "keeps env (Delete name) (?S r)
        (case r of Ret u \<Rightarrow> Finish (Ret u) | _ \<Rightarrow> pthen (atomic (sys_rmdir path))
          (\<lambda>r2. case r2 of Ret u \<Rightarrow> Finish (Ret u) | Fail (Sys ENOTDIR) \<Rightarrow> Finish r | _ \<Rightarrow> Finish r2)) settled"
        using fin [of r r] holds_then [OF rmdir rest] by (cases r) simp_all
    qed
    then have "keeps env (Delete name) idle (pon_err h (remove_p path)) settled" for h
      by (rule holds_on_err) (simp_all add: settled_def)
    then have "keeps env (Delete name) idle (pbind (pon_err h (remove_p path)) (\<lambda>_. Finish (Ret []))) settled" for h
      by (rule holds_bind) (auto intro: holds_Finish simp: settled_def)
    then show ?thesis by (simp add: Inr pof_sum_def pbind_def [of "Finish _"])
  qed
qed (rule settled_agrees)

text \<open>A lookup takes effect when it opens the file: the inode it will read can no longer change.\<close>

definition reading :: "os_file outcome \<Rightarrow> owned \<Rightarrow> bytes table_result option \<Rightarrow> 'x os_scheme \<Rightarrow> bool" where
  "reading r X e w \<longleftrightarrow>
     (case r of
        Ret f \<Rightarrow> file_fd f \<in> ofds X \<and>
          (\<forall>j. fds w (file_fd f) = Some (FileNode j) \<longrightarrow>
             j \<in> pinned X \<and> (\<exists>c. inodes w j = Some c \<and> e = Some (Found (content c))))
      | _ \<Rightarrow> True)"

lemma steady_reading: "steady (reading r)"
  by (cases r) (simp_all add: steady_def reading_def files_sel)

lemma keeps_open_key:
  assumes path: "blobPath env name = Inr path"
  shows "keeps env (Lookup name) idle (atomic (os_open path)) reading"
proof (rule holds_atomic)
  fix X e and w w' :: "'a os_scheme" and r
  assume v: "valid files X w" and P: "idle X e w" and o: "os_open path w = (r, w')"
  show "\<exists>X' e'. guar files X X' w w' \<and> valid files X' w' \<and> effect (storedKeys env) (Lookup name) e e' w w' \<and>
      reading r X' e' w'"
  proof (cases "\<exists>f. r = Ret f")
    case False
    with core_open [OF o] have "core w' = core w" by (cases r) auto
    from step_core [OF v this, of env "Lookup name" e] False show ?thesis by (cases r) (auto simp: reading_def)
  next
    case True
    then obtain f where r: "r = Ret f" by blast
    let ?X = "X\<lparr>ofds := insert (file_fd f) (ofds X)\<rparr>"
    from step_open [OF v o [unfolded r], of env] obtain n where g: "guar files X ?X w w'" and vX: "valid files ?X w'"
      and s: "storedKeys env w' = storedKeys env w" and n: "node_at w path = Some n" "fds w' (file_fd f) = Some n"
      and i: "inodes w' = inodes w" by blast
    show ?thesis
    proof (cases n)
      case (DirNode m)
      with g vX s n P show ?thesis
        by (intro exI [of _ ?X] exI [of _ e]) (simp add: r reading_def effect_def)
    next
      case (FileNode j)
      let ?Y = "?X\<lparr>pinned := {j}\<rparr>"
      from v n FileNode obtain c where j: "j < next_ino w" and c: "inodes w j = Some c"
        by (auto simp: files_sel dest: os_wfD)
      have "guar files X ?Y w w'"
        using g n FileNode blobPath_no_temp [OF path] by (auto simp: guar_files)
      moreover have "valid files ?Y w'"
        using vX g j by (auto simp: files_sel guar_files)
      moreover have "storedKeys env w name = Some (content c)"
        using n FileNode c by (simp add: stored_at [OF path] file_at_def)
      then have "effect (storedKeys env) (Lookup name) e (Some (Found (content c))) w w'"
        using P s by (simp add: effect_def idle_def)
      moreover have "reading r ?Y (Some (Found (content c))) w'"
        using n FileNode c by (simp add: r reading_def i)
      ultimately show ?thesis by blast
    qed
  qed
qed (rule steadyD [OF steady_phases(1)])

definition read_done :: "os_file \<Rightarrow> bytes outcome \<Rightarrow> owned \<Rightarrow> bytes table_result option \<Rightarrow> 'x os_scheme \<Rightarrow> bool" where
  "read_done f r X e w \<longleftrightarrow> file_fd f \<in> ofds X \<and> (\<forall>v. r = Ret v \<longrightarrow> e = Some (Found v))"

lemma keeps_read:
  assumes path: "blobPath env name = Inr path"
  shows "keeps env (Lookup name) idle (read_p path) (agrees (Lookup name))"
proof -
  have read: "keeps env (Lookup name) (reading (Ret f)) (atomic (read_open f) :: ('a os_scheme, bytes) prog) (read_done f)" for f
  proof (rule holds_atomic)
    fix X e and w w' :: "'a os_scheme" and r
    assume v: "valid files X w" and P: "reading (Ret f) X e w" and o: "read_open f w = (r, w')"
    from core_read [OF o] have c: "core w' = core w"
      and x: "\<forall>v. r = Ret v \<longrightarrow> (\<exists>i n. fds w (file_fd f) = Some (FileNode i) \<and> inodes w i = Some n \<and> content n = v)" by auto
    have "read_done f r X e w'" using P x by (auto simp: read_done_def reading_def)
    with step_core [OF v c, of env "Lookup name" e]
    show "\<exists>X' e'. guar files X X' w w' \<and> valid files X' w' \<and> effect (storedKeys env) (Lookup name) e e' w w' \<and>
        read_done f r X' e' w'" by blast
  qed (rule steadyD [OF steady_reading])
  have close: "keeps env (Lookup name) (read_done f r)
      (pthen (pignore (atomic (file_close f))) (\<lambda>_. Finish r) :: ('a os_scheme, bytes) prog) (agrees (Lookup name))" for f r
  proof -
    have "keeps env (Lookup name) (read_done f r) (atomic (file_close f) :: ('a os_scheme, unit) prog) (\<lambda>_. agrees (Lookup name) r)"
    proof (rule holds_atomic)
      fix X e and w w' :: "'a os_scheme" and x
      assume v: "valid files X w" and P: "read_done f r X e w" and o: "file_close f w = (x, w')"
      show "\<exists>X' e'. guar files X X' w w' \<and> valid files X' w' \<and> effect (storedKeys env) (Lookup name) e e' w w' \<and>
          agrees (Lookup name) r X' e' w'"
        using step_close [OF v _ o, of env "Lookup name" e] P
        by (intro exI [of _ X] exI [of _ e]) (auto simp: read_done_def agrees_def answered_def)
    qed (simp add: read_done_def)
    then show ?thesis unfolding pignore_def by (intro holds_then holds_Finish)
  qed
  show ?thesis unfolding read_p_def pdefer_def
    by (rule holds_bind [OF keeps_open_key [OF path] holds_then [OF read close]])
      (simp_all add: agrees_def answered_def)
qed

lemma keeps_lookup: "keeps env (Lookup name) idle (store_op env (Lookup name)) (agrees (Lookup name))"
proof (cases "blobPath env name")
  case (Inl er)
  then show ?thesis by (auto simp: pof_sum_def pbind_def agrees_def answered_def intro: holds_Finish)
next
  case (Inr path)
  then show ?thesis using keeps_read [OF Inr] by (simp add: pof_sum_def pbind_def [of "Finish _"])
qed

lemma store_ops_safe: "op_safe files (storedKeys env) (store_op env)"
proof -
  have "keeps env op idle (store_op env op) (agrees op)" for op
    by (cases op) (simp_all only: keeps_insert keeps_lookup keeps_delete)
  then show ?thesis by (auto simp: op_safe_def holds_def idle_def files_sel)
qed

end
