(* ===== verification/LinuxHistories.thy ===== *)
theory LinuxHistories
  imports LinuxRace LinuxBackend
begin

text \<open>
  What several processes that use the Linux key store at once can rely on: every history of store operations
  is explained by a sequence of table operations, at most one of several creators of a name succeeds, the file
  system stays well formed, and no operation ever waits for another.
\<close>

section \<open>Any interleaving is some order\<close>

lemma files_nothing: "os_wf w \<Longrightarrow> valid files (nothing files) w"
  by (simp add: files_sel)

text \<open>
  C8: whatever the interleaving of their system calls and whichever calls fail, operations on the store behave
  as if they ran one after another: there is a growing sequence of table operations that, at each moment, leads
  from the first table of keys to the present one and gives each finished operation the answer it gave.
\<close>

theorem store_races_linearize:
  assumes "os_wf w0" and "history (store_op env) w0 c"
  shows "\<exists>L. L 0 = [] \<and> (\<forall>n. prefix (L n) (L (Suc n)) \<and> linearizes (storedKeys env) w0 (c n) (L n))"
  by (rule store.histories_linearize [OF store_ops_safe assms(2) files_nothing [OF assms(1)]])

text \<open>Two creators of one name and a reader of it, taking turns call by call.\<close>

definition rivals :: "nat \<Rightarrow> nat \<times> (string, bytes) table_op" where
  "rivals n = (n mod 3, if n mod 3 = 0 then Insert ''k'' [1] else if n mod 3 = 1 then Insert ''k'' [2] else Lookup ''k'')"

lemma store_races_linearize_witness:
  "\<exists>L. L 0 = [] \<and> (\<forall>n. prefix (L n) (L (Suc n)) \<and>
     linearizes (storedKeys sample_env) live_lx (played (store_op sample_env) live_lx rivals n) (L n))"
  by (rule store_races_linearize [OF live_lx_ready(1) history_played])

text \<open>
  C9: of several processes that create the same key at once, at most one succeeds; as long as nobody deletes
  the key, what it stored is what is stored, and every process that reads the key reads that.
\<close>

theorem one_creator_wins:
  assumes "os_wf w0" and "history (store_op env) w0 c"
    and "snd (c n) i = Some (Insert name buf, Finish r)" and "returned r"
    and "\<forall>j p. snd (c n) j \<noteq> Some (Delete name, p)"
  shows "storedKeys env (fst (c n)) name = Some buf \<and>
    (\<forall>j buf' r'. snd (c n) j = Some (Insert name buf', Finish r') \<and> returned r' \<longrightarrow> j = i) \<and>
    (\<forall>j v. snd (c n) j = Some (Lookup name, Finish (Ret v)) \<longrightarrow> v = buf)"
proof -
  from store.histories_linearize [OF store_ops_safe assms(2) files_nothing [OF assms(1)]]
  obtain L where "linearizes (storedKeys env) w0 (c n) (L n)" by blast
  from linearizes_sole_insert [OF this assms(3-5)] show ?thesis .
qed

text \<open>A creator that runs to its end before the next one starts.\<close>

lemma insert_returns:
  "\<exists>w. run (store_op sample_env (Insert ''k'' buf)) live_lx = (Ret [], w)"
proof -
  note path = live_lx_ready(3)
  let ?N = "node_at live_lx" and ?p = "''/u/.config/key-protecc/aw.tpmkey''"
  let ?h = "\<lambda>err. if errors_is_exist err then keyExists ''k'' else Wrapf ''create persisted key: %w'' [] err"
  have "returns (calm_names ?N) (statGuard ?p ''k'' :: (nat lx, unit) go) (\<lambda>_. calm_names ?N)"
    using live_lx_ready(4) by (intro returns_statGuard) (simp add: ready_def)
  moreover have "returns (calm_names ?N) (publish ?p buf :: (nat lx, unit) go) (\<lambda>_. no_faults)"
    by (rule returns_publish [OF path live_lx_ready(4)])
  ultimately have "returns (calm_names ?N) (gbind (statGuard ?p ''k'') (\<lambda>_. gbind (on_err ?h (publish ?p buf)) (\<lambda>_. ret []))
      :: (nat lx, bytes) go) (\<lambda>x _. x = [])"
    by (intro returns_gbind returns_on_err returns_ret) (assumption | rule refl)+
  from this no_faults_calm [OF live_lx_ready(2)] obtain w
    where "gbind (statGuard ?p ''k'') (\<lambda>_. gbind (on_err ?h (publish ?p buf)) (\<lambda>_. ret [])) live_lx = (Ret ([] :: bytes), w)"
    unfolding returns_def by blast
  then show ?thesis
    by (simp add: path run_publish of_sum_def ret_gbind) (simp add: ret_def [abs_def])
qed

lemma one_creator_wins_witness:
  "\<exists>c n w r. history (store_op sample_env) live_lx c \<and>
     c n = (w, [0 \<mapsto> (Insert ''k'' [1], Finish (Ret [])), 1 \<mapsto> (Insert ''k'' [2], Finish r)]) \<and>
     storedKeys sample_env w ''k'' = Some [1] \<and> \<not> returned r"
proof -
  let ?P = "store_op sample_env :: _ \<Rightarrow> (nat lx, bytes) prog"
  let ?a = "Insert ''k'' [1] :: (string, bytes) table_op" and ?b = "Insert ''k'' [2] :: (string, bytes) table_op"
  obtain w1 where w1: "run (?P ?a) live_lx = (Ret [], w1)" using insert_returns by blast
  obtain r w2 where w2: "run (?P ?b) w1 = (r, w2)" by fastforce
  have "reached ?P live_lx (w1, [0 \<mapsto> (?a, Finish (Ret []))])"
    by (rule reached_run [OF reached_start]) (use w1 in simp_all)
  from reached_run [OF this, where i = 1 and op = ?b] w2
  have "reached ?P live_lx (w2, [0 \<mapsto> (?a, Finish (Ret [])), 1 \<mapsto> (?b, Finish r)])" by simp
  then obtain c n where h: "history ?P live_lx c"
    and n: "c n = (w2, [0 \<mapsto> (?a, Finish (Ret [])), 1 \<mapsto> (?b, Finish r)])" by (auto simp: reached_def)
  have "storedKeys sample_env (fst (c n)) ''k'' = Some [1] \<and>
    (\<forall>j buf' r'. snd (c n) j = Some (Insert ''k'' buf', Finish r') \<and> returned r' \<longrightarrow> j = 0) \<and>
    (\<forall>j v. snd (c n) j = Some (Lookup ''k'', Finish (Ret v)) \<longrightarrow> v = [1])"
    by (rule one_creator_wins [OF live_lx_ready(1) h]) (auto simp: n split: if_splits)
  then have s: "storedKeys sample_env (fst (c n)) ''k'' = Some [1]"
    and o: "snd (c n) 1 = Some (Insert ''k'' [2], Finish r) \<and> returned r \<longrightarrow> 1 = (0::nat)" by blast+
  have "storedKeys sample_env w2 ''k'' = Some [1]" using s by (simp only: n fst_conv)
  moreover have "\<not> returned r" using o by (simp add: n)
  ultimately show ?thesis using h n by blast
qed

section \<open>The file system stays well formed\<close>



section \<open>Nobody waits\<close>

text \<open>How many system calls an operation makes at most.\<close>

definition store_bound :: "environment \<Rightarrow> (string, bytes) table_op \<Rightarrow> nat" where
  "store_bound env op =
     (case op of
        Insert name _ \<Rightarrow> (case blobPath env name of Inl _ \<Rightarrow> 0 | Inr path \<Rightarrow> 3 * length (path_dir path) + 10014)
      | Lookup _ \<Rightarrow> 3
      | Delete _ \<Rightarrow> 2)"

lemma within_mkdir_all: "within (mkdir_all_p p perm) (3 * Suc (length p))"
proof (induction p perm rule: mkdir_all_p.induct)
  case (1 p perm)
  have up: "within ((case mkdir_parent p of None \<Rightarrow> Finish (Ret ()) | Some q \<Rightarrow> mkdir_all_p q perm)
      :: ('a os_scheme, unit) prog) (3 * length p)"
  proof (cases "mkdir_parent p")
    case (Some q)
    from mkdir_parent_shorter [OF this] have "3 * Suc (length q) \<le> 3 * length p" by simp
    moreover have "within (mkdir_all_p q perm :: ('a os_scheme, unit) prog) (3 * Suc (length q))"
      using 1 Some by auto
    ultimately show ?thesis using Some by (auto intro: within_mono)
  qed simp
  have one: "within (pthen (atomic f) (\<lambda>r. Finish (h r))) 1" for f :: "('a os_scheme, 'b) go" and h :: "'b outcome \<Rightarrow> unit outcome"
    using within_atomic by (rule within_pthen_last) simp
  have mk: "within ((pthen (atomic (os_mkdir p perm)) (\<lambda>r3. case r3 of
       Ret _ \<Rightarrow> Finish (Ret ())
     | _ \<Rightarrow> pthen (atomic (os_stat p)) (\<lambda>r4. case r4 of Ret (DirNode _) \<Rightarrow> Finish (Ret ()) | _ \<Rightarrow> Finish r3)))
     :: ('a os_scheme, unit) prog) (1 + 1)"
    by (intro within_pthen within_atomic)
      (auto simp del: One_nat_def split: outcome.split node.split intro!: within_pthen_last [OF within_atomic])
  have "within (pthen ((case mkdir_parent p of None \<Rightarrow> Finish (Ret ()) | Some q \<Rightarrow> mkdir_all_p q perm)
      :: ('a os_scheme, unit) prog) h) (3 * length p + (1 + 1))"
    if "\<And>r. within (h r) (1 + 1)" for h :: "unit outcome \<Rightarrow> ('a os_scheme, unit) prog"
    by (rule within_pthen [OF up that])
  note rest = this [unfolded one_add_one add_2_eq_Suc']
  have "within (mkdir_all_p p perm :: ('a os_scheme, unit) prog) (1 + Suc (Suc (3 * length p)))"
    by (subst mkdir_all_p.simps, intro within_pthen within_atomic)
      (use mk in \<open>auto simp: numeral_2_eq_2 split: outcome.split node.split intro!: rest\<close>)
  then show ?case by (simp add: eval_nat_numeral)
qed

lemma within_create_temp: "within (create_temp_p k dir pre :: ('x os_scheme, os_file) prog) k"
proof (induction k)
  case (Suc k)
  have "within (create_temp_p (Suc k) dir pre :: ('x os_scheme, os_file) prog) (1 + k)" unfolding create_temp_p.simps
    by (rule within_pthen [OF within_atomic]) (auto simp: Suc split: outcome.split go_err.split errno.split)
  then show ?case by simp
qed simp

text \<open>A step that is followed by nothing or by at most \<open>m\<close> more.\<close>

lemma within_atomic_then: "(\<And>r. within (h r) m) \<Longrightarrow> within (pthen (atomic f) h) (Suc m)"
  using within_pthen [OF within_atomic] by fastforce

lemma within_remove: "within (remove_p p) 2"
  unfolding remove_p_def numeral_2_eq_2
  by (rule within_atomic_then)
    (auto split: outcome.split go_err.split errno.split intro!: within_atomic_then)

lemma within_syncDir: "within (syncDir_p dir) 3"
  unfolding syncDir_p_def numeral_3_eq_3
  by (rule within_atomic_then) (auto split: outcome.split intro!: within_atomic_then)

lemma within_settle: "within (settle_p dir tmp r) 5"
proof -
  have "within (pthen (remove_p (file_name tmp)) (\<lambda>_. syncDir_p dir)) (2 + 3)"
    by (intro within_pthen within_remove within_syncDir)
  moreover have "within (pthen (atomic (file_close tmp)) (\<lambda>_. pthen (remove_p (file_name tmp)) (\<lambda>_. Finish r))) (1 + 2)"
    by (intro within_pthen within_atomic within_pthen_last within_remove) simp
  ultimately show ?thesis by (auto simp: settle_p_def split: outcome.split intro: within_mono)
qed

lemma within_commit: "within (commit_p path buf tmp) 5"
proof -
  have "within (commit_p path buf tmp) (1 + (1 + (1 + (1 + 1))))"
    unfolding commit_p_def by (intro within_pbind within_pon_err within_atomic)
  then show ?thesis by (rule within_eq) simp
qed

lemma within_publish: "within (publish_p path buf) (3 * length (path_dir path) + 10013)"
proof -
  have "within (publish_p path buf) (3 * Suc (length (path_dir path)) + (10000 + (5 + 5)))"
    unfolding publish_p_def Let_def
    by (intro within_pbind within_pon_err within_pthen within_mkdir_all within_create_temp within_commit within_settle)
  then show ?thesis by (rule within_eq) simp
qed

lemma within_read: "within (read_p path) 3"
proof -
  have "within (read_p path) (1 + (1 + 1))"
    unfolding read_p_def by (intro within_pbind within_pdefer within_pignore within_atomic)
  then show ?thesis by (rule within_eq) simp
qed

lemma within_store_op: "within (store_op env op) (store_bound env op)"
proof (cases op)
  case (Insert name buf)
  have "within (pbind (atomic (statGuard path name)) (\<lambda>_. pbind (pon_err h (publish_p path buf)) (\<lambda>_. Finish (Ret []))))
      (1 + ((3 * length (path_dir path) + 10013) + 0))" for path h
    by (intro within_pbind within_pon_err within_atomic within_publish) simp
  then have "within (pbind (atomic (statGuard path name)) (\<lambda>_. pbind (pon_err h (publish_p path buf)) (\<lambda>_. Finish (Ret []))))
      (3 * length (path_dir path) + 10014)" for path h
    by (rule within_eq) simp
  with Insert show ?thesis
    by (auto simp: store_bound_def pof_sum_def pbind_def [of "Finish _"] split: sum.split)
next
  case (Lookup name)
  then show ?thesis using within_read
    by (auto simp: store_bound_def pof_sum_def pbind_def [of "Finish _"] split: sum.split)
next
  case (Delete name)
  have "within (pbind (pon_err h (remove_p path)) (\<lambda>_. Finish (Ret []))) (2 + 0)" for path h
    by (intro within_pbind within_pon_err within_remove) simp
  with Delete show ?thesis
    by (auto simp: store_bound_def pof_sum_def pbind_def [of "Finish _"] split: sum.split)
qed



end
