(* ===== verification/Spec2Isabelle.thy ===== *)
theory Spec2Isabelle
  imports CliBackends SignerLock DarwinBackend NCryptCalls LinuxHistories
begin

text \<open>
  A verification library for key-protecc, a command-line tool written in Go that keeps ECDSA P-256 keys
  in hardware: in a TPM on Linux (\<^verbatim>\<open>key_linux.go\<close>), in the Platform Crypto Provider on Windows
  (\<^verbatim>\<open>key_windows.go\<close>), in the Secure Enclave on macOS (\<^verbatim>\<open>key_darwin.go\<close> over \<^verbatim>\<open>keychain_darwin.c\<close>).

  \<^bold>\<open>The program.\<close> \<^verbatim>\<open>main.go\<close> has three commands: \<^verbatim>\<open>create\<close>, \<^verbatim>\<open>delete\<close> and \<^verbatim>\<open>certtest\<close>. They call the
  three functions \<^verbatim>\<open>key.go\<close> lists (\<^verbatim>\<open>createKey\<close>, \<^verbatim>\<open>loadKey\<close>, \<^verbatim>\<open>deleteKey\<close>), which each platform implements, and the
  signer these return (\<^verbatim>\<open>Public\<close>, \<^verbatim>\<open>Sign\<close>, \<^verbatim>\<open>Close\<close>). \<^verbatim>\<open>certtest\<close> makes a throwaway key, has it sign a root and
  a leaf certificate (\<^verbatim>\<open>cert.go\<close>), verifies the chain, times 20 signatures and prints a report
  (\<^verbatim>\<open>report.go\<close>, \<^verbatim>\<open>osinfo_*.go\<close>).

  \<^bold>\<open>Conventions.\<close> A Go call is a function from the world to an outcome (a value, an error, a panic) and the
  world (\<open>Prelude\<close>); \<^verbatim>\<open>defer\<close> is \<open>deferred\<close>, a variable that a deferred closure reads is \<open>local_var\<close>. Each
  backend's world keeps a ledger of what was acquired, used and released; \<open>run_log\<close> replays it from a multiset
  of held resources and is \<open>None\<close> on a use after release or a double release. \<open>moves\<close> and \<open>owns\<close> are the
  ownership judgements, \<open>triple\<close> is a Hoare triple, \<open>returns\<close> says that a call succeeds. Definitions keep the
  names of the code; those of the other platforms end in \<open>_windows\<close> or \<open>_darwin\<close>.

  \<^bold>\<open>Go's library.\<close>
  \<^item> \<open>GoBytes\<close>, \<open>GoBase64\<close>, \<open>GoPath\<close>, \<open>GoFlag\<close>: big-endian numbers and readers, \<^verbatim>\<open>base64.RawURLEncoding\<close>,
    \<^verbatim>\<open>path/filepath\<close>, the parser of \<^verbatim>\<open>flag\<close>. \<open>GoDer\<close>: \<^verbatim>\<open>asn1.Marshal\<close> of a signature with a strict reader.
  \<^item> \<open>GoOS\<close>, with \<open>GoOSFacts\<close>, \<open>GoOSViews\<close>, \<open>GoOSTemp\<close>: a file system with inodes, links, directories and
    open files. Any system call may fail with any error, as an oracle decides. \<^verbatim>\<open>os.CreateTemp\<close> makes up to
    10000 attempts, Go's own bound, so its fuel is exact. Whenever a call lets others look at the file system,
    what they would see is recorded.
  \<^item> \<open>GoCrypto\<close>, \<open>GoTpm\<close>: hashes, signer options, ECDSA keys; the commands of go-tpm.

  \<^bold>\<open>Linux.\<close>
  \<^item> \<open>BlobFormat\<close>: the framed key file, \<^verbatim>\<open>writeBlob\<close>'s buffer and \<^verbatim>\<open>readBlob\<close>'s decoder. It accepts exactly what
    starts with a well-formed frame, gives back what was framed and rejects every truncation.
  \<^item> \<open>LinuxStore\<close>: \<^verbatim>\<open>blobPath\<close>, \<^verbatim>\<open>writeBlob\<close>, \<^verbatim>\<open>readBlob\<close>, \<^verbatim>\<open>deleteKey\<close>. \<open>KeyTable\<close> is the contract of a table
    of keys and \<open>LinuxTable\<close> shows that the directory implements it, whatever system calls fail.
  \<^item> \<open>LinuxKeys\<close>: the TPM side, \<^verbatim>\<open>createKey\<close>, \<^verbatim>\<open>loadKey\<close>, the signer. \<open>LinuxLedger\<close>: connections, TPM objects
    and files. \<open>LinuxEffects\<close>: what each call does to the table. \<open>LinuxLive\<close>: when everything answers, the
    calls succeed. \<open>LinuxBackend\<close>: the properties.
  \<^item> \<open>SignerLock\<close>: any number of goroutines on one signer, as a step relation with the mutex and the
    commands on the wire; concurrent calls are linearised by the order in which they release the mutex.
  \<^item> \<open>Interleave\<close>: calls as programs of atomic steps, pools of them, histories, and the locale \<open>ownership\<close>, the
    rely-guarantee contract under which every history is explained by a sequence of table operations.
    \<open>LinuxRace\<close>: the store operations as programs of system calls, what each owns while it runs (its temporary
    names, inodes it may write, descriptors, inodes it reads), and that each keeps the contract. \<open>LinuxHistories\<close>:
    several processes at once on one store, with at most one winner for a name and no waiting.

  \<^bold>\<open>Windows.\<close> \<open>WindowsKeys\<close>: every function of \<^verbatim>\<open>key_windows.go\<close>; a size of zero that the code would index is
  a panic. \<open>WindowsBackend\<close>: handles, the public key blob, signatures, the key a failing \<^verbatim>\<open>createKey\<close> leaves.
  \<open>WindowsTable\<close>: the stored keys, from the documented behaviour of the provider (\<open>provider_laws\<close>), which is met
  by \<open>soft_provider\<close>. \<open>NCryptCalls\<close>: the generated stubs of \<^verbatim>\<open>zsyscall_windows.go\<close>, every call the code makes of
  them with the memory its pointers point to, and that these are the provider of \<open>WindowsKeys\<close> when
  \<^verbatim>\<open>ncrypt.dll\<close> obeys its calling convention (\<open>ncrypt_abi\<close>), as \<open>dll_of\<close> does.

  \<^bold>\<open>macOS.\<close> \<open>KeychainC\<close>: the C functions with the attribute dictionaries they build, in both builds.
  \<open>DarwinKeys\<close>: the Go functions. \<open>DarwinLedger\<close>: CoreFoundation objects, buffers, C strings. \<open>DarwinTable\<close>: the stored
  keys, from the documented behaviour of the keychain (\<open>keychain_laws\<close>), which is met by
  \<open>sample_keychain\<close>. \<open>DarwinBackend\<close>: the properties.

  \<^bold>\<open>The rest.\<close>
  \<^item> \<open>KeyBackend\<close>: the operations \<^verbatim>\<open>main.go\<close> uses, as a record, and the locale \<open>key_backend\<close>, the resource
    contract, with \<open>key_store\<close>, the contract about stored keys. Both are interpreted on all three backends, and
    \<open>CliFacts\<close> and \<open>CliStore\<close> prove in their contexts what the commands do with resources and with keys.
  \<^item> \<open>Cert\<close>: templates, serial numbers, the self-test. \<open>Report\<close>: commit line, latency statistics,
    \<^verbatim>\<open>time.Duration\<close> rounding on 64 bits. \<open>OsInfo\<close>: the \<^verbatim>\<open>osVersion\<close> functions.
  \<^item> \<open>Cli\<close>: the commands; \<^verbatim>\<open>os.Exit\<close> (with \<^verbatim>\<open>log.Fatalf\<close>), which skips deferred calls, and panics, which do
    not, are ways a command ends. \<open>CliBackends\<close>: what the commands do on each platform.

  \<^bold>\<open>Parameters.\<close> go-tpm, the NCrypt provider, CoreFoundation with Security and the C allocator, crypto/x509, the
  clock, \<^verbatim>\<open>uuid.NewString\<close> and SHA-256 are arguments of the definitions. Their state is a type variable, so
  the ownership properties hold for every behaviour. Where a property relies on one of them, the assumption is a
  named predicate in its statement (\<open>ready\<close>, \<open>answers\<close>, \<open>keychain_laws\<close>, \<open>provider_laws\<close>, \<open>stubs_ok\<close>), and a witness gives an instance.

  \<^bold>\<open>Not modelled.\<close>
  \<^item> Loading \<^verbatim>\<open>ncrypt.dll\<close> and finding its procedures (\<^verbatim>\<open>LazyProc.Addr\<close> panics when one is missing).
  \<^item> \<^verbatim>\<open>cert_bench_test.go\<close>: benchmarks.
  \<^item> Memory exhaustion outside \<^verbatim>\<open>malloc\<close>: the small CoreFoundation constructors return an object.
  \<^item> Concurrent use of a Windows or a macOS signer, which has no lock and promises none.
  \<^item> Other programs that write into the Linux store directory. Processes of this program are modelled; their
    descriptors are numbered apart, which no operation can observe.
\<close>

end
